(* ===== verification/RS_Prelude.thy ===== *)
theory RS_Prelude
  imports
    Main
    "HOL-Library.Word"
    "HOL-Library.Monad_Syntax"
    "HOL-Library.Multiset"
    "HOL-Library.Signed_Division"
begin

text \<open>
  Shared vocabulary of the development: how a Go program that may panic is written in the
  option monad, checked indexing and slicing, 64-bit signed arithmetic, and the generic lemmas
  on lists that the components use.

  Conventions.
  \<^item> \<open>'a go\<close> is \<open>'a option\<close>. \<open>None\<close> stands for a computation that does not return: a run-time
    panic (index out of range, nil dereference) or unbounded recursion. Nothing in the
    repository calls \<open>recover\<close>, so either one ends the whole server process and no state is
    observable afterwards.
  \<^item> A Go \<open>error\<close> result is not a panic: functions that return one use a sum type
    \<open>err + 'a\<close> of their own component.
  \<^item> Go's \<open>int\<close> is 64 bits wide on the supported platform. Counters that are bounded by the
    number of tiles are plain \<^typ>\<open>int\<close>; values that come from the network are reduced with
    \<open>wrap64\<close> after every arithmetic step.
\<close>

unbundle bit_operations_syntax

named_theorems go_simps \<open>unfolding of checked indexing, slicing and binding\<close>
named_theorems shape_simps \<open>lengths and shapes that the updates keep\<close>

type_synonym byte = "8 word"
type_synonym 'a go = "'a option"

subsection \<open>Indexing and slicing\<close>

definition idx :: "'a list \<Rightarrow> int \<Rightarrow> 'a go" where
  "idx xs i = (if 0 \<le> i \<and> i < int (length xs) then Some (xs ! nat i) else None)"

definition upd :: "'a list \<Rightarrow> int \<Rightarrow> 'a \<Rightarrow> 'a list go" where
  "upd xs i v = (if 0 \<le> i \<and> i < int (length xs) then Some (xs[nat i := v]) else None)"

definition slice :: "'a list \<Rightarrow> nat \<Rightarrow> nat \<Rightarrow> 'a list go" where
  "slice xs lo hi = (if lo \<le> hi \<and> hi \<le> length xs then Some (take (hi - lo) (drop lo xs)) else None)"

definition slice_from :: "'a list \<Rightarrow> nat \<Rightarrow> 'a list go" where
  "slice_from xs lo = slice xs lo (length xs)"

lemma idx_nat [simp]: "idx xs (int i) = (if i < length xs then Some (xs ! i) else None)"
  by (simp add: idx_def)

lemma upd_nat [simp]:
  "upd xs (int i) v = (if i < length xs then Some (xs[i := v]) else None)"
  by (simp add: upd_def)

lemma idx_Suc [simp]:
  "idx xs (1 + int i) = (if Suc i < length xs then Some (xs ! Suc i) else None)"
  using idx_nat [of xs "Suc i"] by simp

lemma idx_Some_iff [go_simps]:
  "idx xs i = Some x \<longleftrightarrow> 0 \<le> i \<and> i < int (length xs) \<and> x = xs ! nat i"
  by (auto simp: idx_def)

lemma upd_Some_iff [go_simps]:
  "upd xs i v = Some ys \<longleftrightarrow> 0 \<le> i \<and> i < int (length xs) \<and> ys = xs[nat i := v]"
  by (auto simp: upd_def)

lemma slice_Some_iff [go_simps]:
  "slice xs lo hi = Some ys \<longleftrightarrow> lo \<le> hi \<and> hi \<le> length xs \<and> ys = take (hi - lo) (drop lo xs)"
  by (auto simp: slice_def)

lemma slice_from_Some_iff [go_simps]:
  "slice_from xs lo = Some ys \<longleftrightarrow> lo \<le> length xs \<and> ys = drop lo xs"
  by (auto simp: slice_from_def slice_def)

subsection \<open>Binding\<close>

lemma bind_Some_iff [go_simps]:
  "(m \<bind> f) = Some y \<longleftrightarrow> (\<exists>x. m = Some x \<and> f x = Some y)"
  by (cases m) auto

lemma bind_defined: "m = Some x \<Longrightarrow> (m \<bind> f) = f x"
  by simp

text \<open>
  Congruence for evaluating closed terms: the continuation is left alone until the first
  computation has a value.
\<close>

lemma bind_weak_cong: "m = m' \<Longrightarrow> Option.bind m f = Option.bind m' f"
  by simp

text \<open>A \<open>for _, x := range xs\<close> loop whose body threads a state and may panic.\<close>

fun foldM :: "('s \<Rightarrow> 'a \<Rightarrow> 's go) \<Rightarrow> 's \<Rightarrow> 'a list \<Rightarrow> 's go" where
  "foldM f s [] = Some s"
| "foldM f s (x # xs) = do { s' \<leftarrow> f s x; foldM f s' xs }"

lemma foldM_append: "foldM f s (xs @ ys) = do { s' \<leftarrow> foldM f s xs; foldM f s' ys }"
  by (induction xs arbitrary: s) (auto split: Option.bind_split)

lemma foldM_inv:
  assumes "foldM f s xs = Some t" and "P s"
    and "\<And>s x s'. P s \<Longrightarrow> x \<in> set xs \<Longrightarrow> f s x = Some s' \<Longrightarrow> P s'"
  shows "P t"
  using assms
proof (induction xs arbitrary: s)
  case Nil
  then show ?case by simp
next
  case (Cons x xs)
  from Cons.prems(1) obtain s' where s': "f s x = Some s'" and rest: "foldM f s' xs = Some t"
    by (auto simp: go_simps)
  from Cons.prems(2,3) s' have "P s'" by (meson list.set_intros(1))
  with Cons.IH [OF rest] Cons.prems(3) show ?case by (meson list.set_intros(2))
qed

lemma foldM_total:
  assumes "P s" and "\<And>s x. P s \<Longrightarrow> x \<in> set xs \<Longrightarrow> \<exists>s'. f s x = Some s' \<and> P s'"
  shows "\<exists>t. foldM f s xs = Some t \<and> P t"
  using assms
proof (induction xs arbitrary: s)
  case Nil
  then show ?case by simp
next
  case (Cons x xs)
  then obtain s' where s': "f s x = Some s'" "P s'"
    by (meson list.set_intros(1))
  from Cons.IH [OF s'(2)] Cons.prems(2) have "\<exists>t. foldM f s' xs = Some t \<and> P t"
    by (meson list.set_intros(2))
  with s' show ?case by simp
qed

lemma foldM_pure:
  assumes "\<And>s x. x \<in> set xs \<Longrightarrow> f s x = Some (g s x)"
  shows "foldM f s xs = Some (foldl g s xs)"
  using assms by (induction xs arbitrary: s) auto

text \<open>A \<open>for _, x := range xs\<close> loop that returns from inside on the first hit.\<close>

fun findM :: "('s \<Rightarrow> 'a \<Rightarrow> ('r option \<times> 's) go) \<Rightarrow> 's \<Rightarrow> 'a list \<Rightarrow> ('r option \<times> 's) go" where
  "findM f s [] = Some (None, s)"
| "findM f s (x # xs) = do {
     (r, s') \<leftarrow> f s x;
     (case r of Some _ \<Rightarrow> Some (r, s') | None \<Rightarrow> findM f s' xs) }"

text \<open>A loop whose body either stops with the same answer or changes the state purely.\<close>

lemma findM_early:
  assumes "\<And>s x. x \<in> set xs \<Longrightarrow> f s x = Some (if hit x then (Some r, s) else (None, g s x))"
  shows "\<exists>t. findM f s xs = Some (if \<exists>x \<in> set xs. hit x then (Some r, t) else (None, foldl g s xs))"
  using assms
proof (induction xs arbitrary: s)
  case Nil
  then show ?case by simp
next
  case (Cons x xs)
  from Cons.IH [of "g s x"] Cons.prems show ?case by (cases "hit x") auto
qed

lemma foldM_collect:
  assumes "\<And>s x. x \<in> set xs \<Longrightarrow> f s x = Some (s @ g x)"
  shows "foldM f s xs = Some (s @ concat (map g xs))"
  using assms by (induction xs arbitrary: s) auto

text \<open>The state after a loop, from what each body does after the ones before it.\<close>

lemma findM_prefix:
  assumes "P [] s"
    and "\<And>ys x zs s. xs = ys @ x # zs \<Longrightarrow> P ys s \<Longrightarrow>
      \<exists>r s'. f s x = Some (r, s') \<and> (case r of None \<Rightarrow> P (ys @ [x]) s' | Some v \<Rightarrow> Q v s')"
  shows "\<exists>r t. findM f s xs = Some (r, t) \<and> (case r of None \<Rightarrow> P xs t | Some v \<Rightarrow> Q v t)"
proof -
  have "\<exists>r t. findM f s zs = Some (r, t) \<and> (case r of None \<Rightarrow> P xs t | Some v \<Rightarrow> Q v t)"
    if "xs = ys @ zs" and "P ys s" for ys zs s
    using that
  proof (induction zs arbitrary: ys s)
    case Nil
    then show ?case by simp
  next
    case (Cons x zs)
    then obtain r s' where step: "f s x = Some (r, s')" "case r of None \<Rightarrow> P (ys @ [x]) s' | Some v \<Rightarrow> Q v s'"
      using assms(2) by blast
    show ?case
    proof (cases r)
      case None
      with step Cons.IH [of "ys @ [x]" s'] Cons.prems(1) show ?thesis by simp
    qed (use step in simp)
  qed
  from this [of "[]" xs s] assms(1) show ?thesis by simp
qed

subsection \<open>Partial correctness\<close>

text \<open>
  \<open>post m Q\<close>: if the computation returns, the result satisfies \<open>Q\<close>. The rules in
  \<open>post_intros\<close> follow the structure of a computation; each component adds rules for its own
  operations.
\<close>

named_theorems post_intros \<open>rules for \<open>post\<close>, one per construct and operation\<close>

definition post :: "'a go \<Rightarrow> ('a \<Rightarrow> bool) \<Rightarrow> bool" where
  "post m Q \<longleftrightarrow> (\<forall>x. m = Some x \<longrightarrow> Q x)"

lemma postD: "post m Q \<Longrightarrow> m = Some x \<Longrightarrow> Q x"
  by (simp add: post_def)

lemma post_read: "(\<And>x. Q x) \<Longrightarrow> post m Q"
  by (simp add: post_def)

lemma post_mono: "post m P \<Longrightarrow> (\<And>x. P x \<Longrightarrow> Q x) \<Longrightarrow> post m Q"
  by (simp add: post_def)

lemma post_bind [post_intros]: "post m (\<lambda>x. post (f x) Q) \<Longrightarrow> post (Option.bind m f) Q"
  by (cases m) (simp_all add: post_def)

lemma post_Some [post_intros]: "Q x \<Longrightarrow> post (Some x) Q"
  and post_None [post_intros]: "post None Q"
  by (simp_all add: post_def)

lemma post_if [post_intros]:
  "(b \<Longrightarrow> post m Q) \<Longrightarrow> (\<not> b \<Longrightarrow> post n Q) \<Longrightarrow> post (if b then m else n) Q"
  by simp

lemma post_let [post_intros]: "post (f e) Q \<Longrightarrow> post (Let e f) Q"
  by simp

lemma post_prod [post_intros]: "(\<And>x y. s = (x, y) \<Longrightarrow> post (f x y) Q) \<Longrightarrow> post (case s of (x, y) \<Rightarrow> f x y) Q"
  by (cases s) simp

lemma post_option [post_intros]:
  "(r = None \<Longrightarrow> post m Q) \<Longrightarrow> (\<And>x. r = Some x \<Longrightarrow> post (f x) Q) \<Longrightarrow>
    post (case r of None \<Rightarrow> m | Some x \<Rightarrow> f x) Q"
  by (cases r) simp_all

lemma post_list [post_intros]:
  "(r = [] \<Longrightarrow> post m Q) \<Longrightarrow> (\<And>x xs. r = x # xs \<Longrightarrow> post (f x xs) Q) \<Longrightarrow>
    post (case r of [] \<Rightarrow> m | x # xs \<Rightarrow> f x xs) Q"
  by (cases r) simp_all

lemma post_idx [post_intros]: "(\<And>x. Q x) \<Longrightarrow> post (idx xs i) Q"
  by (rule post_read)

lemma post_foldM:
  assumes "P s" and "\<And>s x. P s \<Longrightarrow> post (f s x) P" and "\<And>t. P t \<Longrightarrow> Q t"
  shows "post (foldM f s xs) Q"
proof -
  have "P t" if "foldM f s xs = Some t" for t
    using foldM_inv [OF that, of P] assms(1,2) by (auto simp: post_def)
  then show ?thesis using assms(3) by (simp add: post_def)
qed

lemma post_findM:
  assumes "P s" and "\<And>s x. P s \<Longrightarrow> post (f s x) (\<lambda>(r, s'). P s')" and "\<And>r t. P t \<Longrightarrow> Q (r, t)"
  shows "post (findM f s xs) Q"
proof -
  have "post (findM f s xs) (\<lambda>(r, t). P t)" if "P s" for s
    using that
  proof (induction xs arbitrary: s)
    case (Cons x xs)
    from assms(2) [OF Cons.prems] have "post (f s x) (\<lambda>(r, s'). P s')" .
    with Cons.IH show ?case by (fastforce simp: post_def go_simps split: option.splits)
  qed (simp add: post_def)
  then show ?thesis using assms(1,3) by (auto intro: post_mono)
qed

subsection \<open>64-bit signed integers\<close>

definition wrap64 :: "int \<Rightarrow> int" where
  "wrap64 x = signed_take_bit 63 x"

definition in_int64 :: "int \<Rightarrow> bool" where
  "in_int64 x \<longleftrightarrow> - (2 ^ 63) \<le> x \<and> x < 2 ^ 63"

lemma wrap64_id [simp]: "in_int64 x \<Longrightarrow> wrap64 x = x"
  by (simp add: wrap64_def in_int64_def signed_take_bit_int_eq_self_iff)

lemma wrap64_range: "in_int64 (wrap64 x)"
  unfolding wrap64_def in_int64_def
  using signed_take_bit_int_greater_eq_minus_exp [of 63 x] signed_take_bit_int_less_exp [of 63 x]
  by simp

text \<open>Go's division truncates towards zero; dividing by zero panics.\<close>

definition go_div :: "int \<Rightarrow> int \<Rightarrow> int go" where
  "go_div a b = (if b = 0 then None else Some (wrap64 (a sdiv b)))"

end
