(* ===== verification/Comm.thy ===== *)
theory Comm
  imports RS_Prelude
begin

text \<open>
  Package \<open>comm\<close> (\<^verbatim>\<open>src/comm/function.go\<close>): the conversions between dotted IPv4 text and
  integers, and the little-endian reading of integers from packets, together with the parts of
  \<open>strconv\<close> and \<open>strings\<close> they use.
\<close>

subsection \<open>strings.Split and strconv.Itoa\<close>

text \<open>\<open>strings.Split s sep\<close> for a one-byte separator: the pieces between the separators.\<close>

fun Split :: "char \<Rightarrow> string \<Rightarrow> string list" where
  "Split c [] = [[]]"
| "Split c (x # xs) =
     (if x = c then [] # Split c xs
      else (case Split c xs of [] \<Rightarrow> [[x]] | p # ps \<Rightarrow> (x # p) # ps))"

fun Join :: "char \<Rightarrow> string list \<Rightarrow> string" where
  "Join c [] = []"
| "Join c [p] = p"
| "Join c (p # q # ps) = p @ c # Join c (q # ps)"

definition digit_char :: "nat \<Rightarrow> char" where
  "digit_char d = char_of (48 + d)"

definition digit_val :: "char \<Rightarrow> nat option" where
  "digit_val c = (let n = of_char c :: nat in if 48 \<le> n \<and> n \<le> 57 then Some (n - 48) else None)"

fun itoa_nat :: "nat \<Rightarrow> string" where
  "itoa_nat n = (if n < 10 then [digit_char n] else itoa_nat (n div 10) @ [digit_char (n mod 10)])"

declare itoa_nat.simps [simp del]

definition Itoa :: "int \<Rightarrow> string" where
  "Itoa i = (if i < 0 then CHR ''-'' # itoa_nat (nat (- i)) else itoa_nat (nat i))"

subsection \<open>strconv.Atoi\<close>

datatype num_error = ErrSyntax | ErrRange

text \<open>
  The value that \<open>Atoi\<close> returns beside an error: 0 for a syntax error, the nearest
  representable integer for a range error.
\<close>

fun digits_val :: "nat \<Rightarrow> string \<Rightarrow> nat option" where
  "digits_val acc [] = Some acc"
| "digits_val acc (c # cs) =
     (case digit_val c of None \<Rightarrow> None | Some d \<Rightarrow> digits_val (10 * acc + d) cs)"

definition Atoi :: "string \<Rightarrow> int \<times> num_error option" where
  "Atoi s = (let neg = (s \<noteq> [] \<and> hd s = CHR ''-'');
                 body = (if s \<noteq> [] \<and> (hd s = CHR ''-'' \<or> hd s = CHR ''+'') then tl s else s) in
     if body = [] then (0, Some ErrSyntax)
     else (case digits_val 0 body of
             None \<Rightarrow> (0, Some ErrSyntax)
           | Some n \<Rightarrow>
               (if neg then (if n \<le> 2 ^ 63 then (- int n, None) else (- (2 ^ 63), Some ErrRange))
                else (if n < 2 ^ 63 then (int n, None) else (2 ^ 63 - 1, Some ErrRange)))))"

subsection \<open>The functions of the package\<close>

text \<open>One iteration of the first loop: peel the low byte off \<open>ipInt\<close> (the arithmetic shift
  of Go's signed \<open>int\<close> is \<^term>\<open>drop_bit\<close> on \<^typ>\<open>int\<close>).\<close>

fun ip_segs :: "nat \<Rightarrow> int \<Rightarrow> string list" where
  "ip_segs 0 ipInt = []"
| "ip_segs (Suc k) ipInt = ip_segs k (drop_bit 8 ipInt) @ [Itoa (ipInt AND 255)]"

definition IpIntToString :: "int \<Rightarrow> string" where
  "IpIntToString ipInt = Join (CHR ''.'') (ip_segs 4 ipInt)"

text \<open>
  \<open>pos\<close> is a \<open>uint\<close>: after the fourth segment \<open>pos -= 8\<close> wraps to a huge shift count, and a
  Go shift by 64 or more gives 0.
\<close>

definition go_shl :: "int \<Rightarrow> 64 word \<Rightarrow> int" where
  "go_shl x n = (if unat n < 64 then wrap64 (push_bit (unat n) x) else 0)"

fun ip_loop :: "int \<Rightarrow> 64 word \<Rightarrow> string list \<Rightarrow> int" where
  "ip_loop ipInt pos [] = ipInt"
| "ip_loop ipInt pos (ipSeg # ipSegs) =
     (let tempInt = go_shl (fst (Atoi ipSeg)) pos in ip_loop (ipInt OR tempInt) (pos - 8) ipSegs)"

definition StringIpToInt :: "string \<Rightarrow> int" where
  "StringIpToInt ipstring = ip_loop 0 24 (Split (CHR ''.'') ipstring)"

text \<open>The loop runs from the last byte to the first, so the first byte is the low one.\<close>

definition byte_step :: "int \<Rightarrow> byte \<Rightarrow> int" where
  "byte_step pro b = go_shl pro 8 OR uint b"

definition ByteToInt :: "byte list \<Rightarrow> int" where
  "ByteToInt s = foldl byte_step 0 (rev s)"


subsection \<open>Splitting and joining\<close>

lemma Split_nonempty [simp]: "Split c s \<noteq> []"
  by (induction s) (auto split: list.splits)

lemma Split_no_sep: "c \<notin> set p \<Longrightarrow> Split c p = [p]"
  by (induction p) auto

lemma Split_append_sep: "c \<notin> set p \<Longrightarrow> Split c (p @ c # s) = p # Split c s"
  by (induction p) auto

lemma Split_Join:
  assumes "ps \<noteq> []" and "\<forall>p \<in> set ps. c \<notin> set p"
  shows "Split c (Join c ps) = ps"
  using assms by (induction c ps rule: Join.induct) (auto simp: Split_no_sep Split_append_sep)

lemma Join_Split: "Join c (Split c s) = s"
proof (induction s)
  case Nil
  then show ?case by simp
next
  case (Cons x xs)
  then show ?case
    by (cases "Split c xs"; cases "tl (Split c xs)") auto
qed

subsection \<open>Decimal text\<close>

lemma digit_val_char [simp]: "d < 10 \<Longrightarrow> digit_val (digit_char d) = Some d"
  by (simp add: digit_val_def digit_char_def)

lemma digit_char_ne:
  assumes "d < 10"
  shows "digit_char d \<noteq> CHR ''-''" and "digit_char d \<noteq> CHR ''+''" and "digit_char d \<noteq> CHR ''.''"
    and "digit_char d \<noteq> CHR '':''"
proof -
  have "of_char (digit_char d) = 48 + d"
    using assms by (simp add: digit_char_def)
  then have *: "48 \<le> (of_char (digit_char d) :: nat)" and **: "(of_char (digit_char d) :: nat) < 58"
    using assms by auto
  show "digit_char d \<noteq> CHR ''-''" "digit_char d \<noteq> CHR ''+''" "digit_char d \<noteq> CHR ''.''"
    using * by (auto simp: of_char_def)
  show "digit_char d \<noteq> CHR '':''"
    using ** by (auto simp: of_char_def)
qed

lemma itoa_nat_chars:
  "c \<in> set (itoa_nat n) \<Longrightarrow> \<exists>d < 10. c = digit_char d"
proof (induction n rule: itoa_nat.induct)
  case (1 n)
  then show ?case
    by (cases "n < 10") (auto simp: itoa_nat.simps [of n] intro: exI [of _ "n mod 10"])
qed

lemma itoa_nat_nonempty [simp]: "itoa_nat n \<noteq> []"
  by (subst itoa_nat.simps) simp

lemma digits_val_append:
  "digits_val acc (xs @ ys) = Option.bind (digits_val acc xs) (\<lambda>a. digits_val a ys)"
  by (induction xs arbitrary: acc) (auto split: option.splits)

lemma digits_val_itoa: "digits_val 0 (itoa_nat n) = Some n"
proof (induction n rule: itoa_nat.induct)
  case (1 n)
  then show ?case
    by (cases "n < 10") (simp_all add: itoa_nat.simps [of n] digits_val_append)
qed

lemma itoa_nat_hd: "hd (itoa_nat n) \<noteq> CHR ''-''" "hd (itoa_nat n) \<noteq> CHR ''+''"
  using itoa_nat_chars [of "hd (itoa_nat n)" n] by (metis digit_char_ne(1,2) hd_in_set itoa_nat_nonempty)+

lemma Atoi_Itoa: "in_int64 i \<Longrightarrow> Atoi (Itoa i) = (i, None)"
  by (auto simp: Atoi_def Itoa_def Let_def digits_val_itoa itoa_nat_hd in_int64_def)

lemma Itoa_no_dot: "CHR ''.'' \<notin> set (Itoa i)" "CHR '':'' \<notin> set (Itoa i)"
  by (auto simp: Itoa_def dest!: itoa_nat_chars) (metis digit_char_ne)+

subsection \<open>Little-endian integers\<close>

lemma byte_step_eq: "byte_step pro b = wrap64 (256 * pro + uint b)"
proof -
  have "256 * pro + uint b = push_bit 8 pro + uint b"
    by (simp add: push_bit_eq_mult)
  also have "\<dots> = push_bit 8 pro OR uint b"
    by (rule disjunctive_add) (auto simp: bit_push_bit_iff bit_uint_iff)
  finally show ?thesis
    by (auto simp: byte_step_def go_shl_def wrap64_def bit_eq_iff bit_or_iff bit_uint_iff
        bit_signed_take_bit_iff bit_push_bit_iff min_def)
qed

lemma wrap64_mult_add: "wrap64 (256 * wrap64 p + c) = wrap64 (256 * p + c)"
proof -
  have "take_bit 64 (256 * signed_take_bit 63 p + c) = take_bit 64 (256 * p + c)"
  proof -
    have "take_bit 64 (signed_take_bit 63 p) = take_bit 64 p"
      by (simp add: take_bit_signed_take_bit)
    then have "signed_take_bit 63 p mod 2 ^ 64 = p mod 2 ^ 64"
      by (simp add: take_bit_eq_mod)
    then have "(256 * signed_take_bit 63 p + c) mod 2 ^ 64 = (256 * p + c) mod 2 ^ 64"
      by (metis mod_add_cong mod_mult_cong)
    then show ?thesis by (simp add: take_bit_eq_mod)
  qed
  then show ?thesis
    unfolding wrap64_def
    by (simp add: signed_take_bit_eq_iff_take_bit_eq)
qed

text \<open>\<open>ByteToInt\<close> reads its argument as a little-endian integer, wrapped to 64 bits.\<close>

lemma ByteToInt_horner: "ByteToInt s = wrap64 (horner_sum uint 256 s)"
proof (induction s)
  case Nil
  then show ?case by (simp add: ByteToInt_def wrap64_def)
next
  case (Cons b s)
  have "ByteToInt (b # s) = wrap64 (256 * ByteToInt s + uint b)"
    by (simp add: ByteToInt_def byte_step_eq)
  then show ?case
    by (simp add: Cons.IH wrap64_mult_add add.commute [of "uint b"])
qed

lemma horner_bytes_range:
  "0 \<le> horner_sum uint 256 (s :: byte list) \<and> horner_sum uint 256 s < 256 ^ length s"
proof (induction s)
  case Nil
  then show ?case by simp
next
  case (Cons b s)
  have "0 \<le> uint b" and "uint b < 256"
    using uint_lt2p [of b] by auto
  with Cons show ?case by simp
qed

lemma ByteToInt_exact:
  assumes "length s \<le> 7"
  shows "ByteToInt s = horner_sum uint 256 s"
proof -
  have "(256::int) ^ length s \<le> 256 ^ 7"
    using assms by (intro power_increasing) auto
  then have "in_int64 (horner_sum uint 256 s)"
    using horner_bytes_range [of s] by (simp add: in_int64_def)
  then show ?thesis by (simp add: ByteToInt_horner)
qed

lemma ByteToInt_nonneg: "length s \<le> 7 \<Longrightarrow> 0 \<le> ByteToInt s"
  using horner_bytes_range [of s] by (simp add: ByteToInt_exact)

lemma ByteToInt_in_range: "in_int64 (ByteToInt s)"
  by (simp add: ByteToInt_horner wrap64_range)

subsection \<open>Dotted IPv4 text\<close>

lemma ip_segs_4:
  "ip_segs 4 n = [Itoa (drop_bit 24 n AND 255), Itoa (drop_bit 16 n AND 255),
     Itoa (drop_bit 8 n AND 255), Itoa (n AND 255)]"
proof -
  have "ip_segs 4 n = ip_segs (Suc (Suc (Suc (Suc 0)))) n"
    by (simp add: numeral_eq_Suc)
  then show ?thesis by simp
qed

lemma octet: "0 \<le> (k AND 255 :: int)" "k AND 255 < (256 :: int)"
  by (simp_all add: AND_upper2' [of 255 k])

lemma octets_join:
  fixes n :: int
  assumes "0 \<le> n" and "n < 2 ^ 32"
  shows "((push_bit 24 (drop_bit 24 n AND 255) OR push_bit 16 (drop_bit 16 n AND 255))
     OR push_bit 8 (drop_bit 8 n AND 255)) OR (n AND 255) = n"
proof -
  have mask: "(255 :: int) = mask 8" by (simp add: mask_eq_exp_minus_1)
  have small: "take_bit 32 n = n" using assms by (simp add: take_bit_int_eq_self_iff)
  show ?thesis (is "?l = n")
  proof (rule bit_eqI)
    fix m
    have "\<not> bit n m" if "32 \<le> m"
      using that by (subst small [symmetric]) (simp add: bit_take_bit_iff)
    moreover have "bit ?l m \<longleftrightarrow> (24 \<le> m \<and> m < 32 \<and> bit n m) \<or> (16 \<le> m \<and> m < 24 \<and> bit n m)
        \<or> (8 \<le> m \<and> m < 16 \<and> bit n m) \<or> (m < 8 \<and> bit n m)"
      unfolding mask
      by (auto simp: bit_or_iff bit_and_iff bit_push_bit_iff bit_drop_bit_eq bit_mask_iff simp del: mask_numeral)
    ultimately show "bit ?l m = bit n m"
      by linarith
  qed
qed

lemma go_shl_octet:
  assumes "0 \<le> k" and "k < 256" and "unat p \<le> 24"
  shows "go_shl k p = push_bit (unat p) k"
proof -
  have "k * 2 ^ unat p \<le> 255 * 2 ^ 24"
    using assms by (intro mult_mono power_increasing) auto
  then have "in_int64 (push_bit (unat p) k)"
    using assms mult_nonneg_nonneg [of k "2 ^ unat p"]
    by (simp add: in_int64_def push_bit_eq_mult del: mult_nonneg_nonneg)
  then show ?thesis using assms by (simp add: go_shl_def)
qed

lemma StringIpToInt_four:
  assumes "\<And>k. k \<in> {a, b, c, d} \<Longrightarrow> 0 \<le> k \<and> k < 256"
  shows "StringIpToInt (Join (CHR ''.'') [Itoa a, Itoa b, Itoa c, Itoa d]) =
     ((push_bit 24 a OR push_bit 16 b) OR push_bit 8 c) OR d"
proof -
  have split: "Split (CHR ''.'') (Join (CHR ''.'') [Itoa a, Itoa b, Itoa c, Itoa d])
      = [Itoa a, Itoa b, Itoa c, Itoa d]"
    by (rule Split_Join) (auto simp: Itoa_no_dot)
  have atoi: "fst (Atoi (Itoa k)) = k" if "0 \<le> k \<and> k < 256" for k
    using that by (simp add: Atoi_Itoa in_int64_def)
  show ?thesis
    using assms
    by (simp only: StringIpToInt_def split) (simp add: Let_def atoi go_shl_octet)
qed

text \<open>
  C31. An IPv4 address survives the round trip through its dotted text: this is what makes the
  text stored in a proxy URL and the integer kept in the database denote the same host.
\<close>

theorem ip_roundtrip:
  assumes "0 \<le> n" and "n < 2 ^ 32"
  shows "StringIpToInt (IpIntToString n) = n"
proof -
  have "StringIpToInt (IpIntToString n) =
      ((push_bit 24 (drop_bit 24 n AND 255) OR push_bit 16 (drop_bit 16 n AND 255))
        OR push_bit 8 (drop_bit 8 n AND 255)) OR (n AND 255)"
    unfolding IpIntToString_def ip_segs_4
    by (rule StringIpToInt_four) (auto simp: octet)
  then show ?thesis using octets_join [OF assms] by simp
qed

theorem ip_roundtrip_witness: "StringIpToInt (IpIntToString 3232235777) = 3232235777"
  by (rule ip_roundtrip) simp_all

end
