(* ===== verification/Robot.thy ===== *)
theory Robot
  imports RS_Prelude Comm
begin

text \<open>
  The game server (\<^verbatim>\<open>src/robot/Server.go\<close>, \<^verbatim>\<open>src/robot/SCMJ.go\<close>): a table of sessions keyed by
  one byte, a dispatch table of methods, and the handlers of the Mahjong methods. The Go
  interface \<open>SCMJ\<close> is a record of operations on the player's state, so the handlers are written
  against the interface and the player of \<^verbatim>\<open>src/mjai\<close> is one instance. Time and the peer's address
  are arguments. A packet \<open>db\<close> is at most 1024 bytes read into a fresh zeroed array; re-slicing the
  payload beyond its length, as \<open>b[:14]\<close> does, reaches into the zeroes of that array.
\<close>

record 's SCMJ =
  scmj_new :: 's  \<comment> \<open>\<open>new(mjai.Ai)\<close>\<close>
  scmj_Init :: "'s \<Rightarrow> 's"
  scmj_InitNow :: "byte list \<Rightarrow> 's \<Rightarrow> 's go"
  scmj_SetSeeList :: "byte list \<Rightarrow> 's \<Rightarrow> 's go"
  scmj_SetNowVal :: "int \<Rightarrow> int \<Rightarrow> 's \<Rightarrow> 's go"
  scmj_GetLastSee :: "'s \<Rightarrow> int go"
  scmj_Outs :: "int \<Rightarrow> bool \<Rightarrow> 's \<Rightarrow> (int \<times> 's) go"
  scmj_OutDiscard :: "int \<Rightarrow> 's \<Rightarrow> (byte list \<times> 's) go"
  scmj_SeeOuts :: "int \<Rightarrow> byte list \<Rightarrow> int \<Rightarrow> 's \<Rightarrow> (byte \<times> 's) go"
  scmj_GetValid :: "int \<Rightarrow> 's \<Rightarrow> int go"
  scmj_SetPublicDown :: "int \<Rightarrow> int \<Rightarrow> int \<Rightarrow> 's \<Rightarrow> 's go"
  scmj_GetFullVal :: "int \<Rightarrow> 's \<Rightarrow> (int \<times> 's) go"
  scmj_SetBaseVal :: "int \<Rightarrow> 's \<Rightarrow> 's"

record 's UserBase =
  Property :: int
  Host :: int
  BeginTime :: int
  Scmj :: 's
  LastForData :: "byte list \<times> byte list"

record ('s, 'p) server =
  HostMap :: "byte \<rightharpoonup> 's UserBase"
  HostProxyMap :: "int \<rightharpoonup> 'p"

definition new_UserBase :: "'s SCMJ \<Rightarrow> 's UserBase" where
  "new_UserBase ops = \<lparr>Property = 0, Host = 0, BeginTime = 0, Scmj = scmj_new ops, LastForData = ([], [])\<rparr>"

definition UserBase_Init :: "'s SCMJ \<Rightarrow> string \<Rightarrow> 's UserBase \<Rightarrow> 's UserBase" where
  "UserBase_Init ops peer u = u\<lparr>Host := StringIpToInt peer, Scmj := scmj_Init ops (scmj_new ops)\<rparr>"

subsection \<open>The Mahjong methods\<close>

type_synonym 's scmj_handler = "byte list \<Rightarrow> 's UserBase \<Rightarrow> (byte list \<times> 's UserBase) go"

text \<open>\<open>b[lo:hi]\<close> within the capacity of the array behind the payload.\<close>

definition cap_slice :: "byte list \<Rightarrow> nat \<Rightarrow> nat \<Rightarrow> byte list" where
  "cap_slice b lo hi = take (hi - lo) (drop lo (b @ replicate hi 0))"

definition scmj_11 :: "'s SCMJ \<Rightarrow> 's scmj_handler" where
  "scmj_11 ops b u = Some ([], u)"

definition scmj_10 :: "'s SCMJ \<Rightarrow> 's scmj_handler" where
  "scmj_10 ops b u = do {
     s \<leftarrow> scmj_SetSeeList ops b (Scmj u);
     Some ([], u\<lparr>Scmj := s\<rparr>) }"

definition scmj_9 :: "'s SCMJ \<Rightarrow> 's scmj_handler" where
  "scmj_9 ops b u = do {
     nid \<leftarrow> idx b 0;
     v \<leftarrow> slice_from b 1;
     s \<leftarrow> scmj_SetNowVal ops (uint nid) (ByteToInt v) (Scmj u);
     Some ([], u\<lparr>Scmj := s\<rparr>) }"

text \<open>Handlers 6, 4 and 3 end alike.\<close>

definition scmj_discard :: "'s SCMJ \<Rightarrow> nat \<Rightarrow> bool \<Rightarrow> byte list \<Rightarrow> 's \<Rightarrow> 's UserBase \<Rightarrow> (byte list \<times> 's UserBase) go" where
  "scmj_discard ops off No30 b s u = do {
     v \<leftarrow> slice_from b off;
     (isf, s) \<leftarrow> scmj_GetFullVal ops (ByteToInt v) s;
     (n, s) \<leftarrow> scmj_Outs ops isf No30 s;
     Some ([of_int n], u\<lparr>Scmj := s\<rparr>) }"

definition scmj_6 :: "'s SCMJ \<Rightarrow> 's scmj_handler" where
  "scmj_6 ops b u = do {
     s \<leftarrow> scmj_InitNow ops (cap_slice b 0 14) (Scmj u);
     scmj_discard ops 14 False b s u }"

definition scmj_5 :: "'s SCMJ \<Rightarrow> 's scmj_handler" where
  "scmj_5 ops b u = do {
     seen \<leftarrow> scmj_GetLastSee ops (Scmj u);
     v \<leftarrow> slice_from b 4;
     (isf, s) \<leftarrow> scmj_GetFullVal ops (ByteToInt v) (Scmj u);
     (val, s) \<leftarrow> scmj_SeeOuts ops seen (cap_slice b 0 4) isf s;
     Some ([val], u\<lparr>Scmj := s\<rparr>) }"

definition scmj_4 :: "'s SCMJ \<Rightarrow> 's scmj_handler" where
  "scmj_4 ops b u = do {
     s \<leftarrow> scmj_InitNow ops (cap_slice b 0 14) (Scmj u);
     scmj_discard ops 14 True b s u }"

definition scmj_3 :: "'s SCMJ \<Rightarrow> 's scmj_handler" where
  "scmj_3 ops b u = do {
     s \<leftarrow> foldM (\<lambda>s t. if t < 27 then scmj_SetPublicDown ops 3 (uint t) 1 s else Some s) (Scmj u) (cap_slice b 0 14);
     s \<leftarrow> scmj_InitNow ops (cap_slice b 14 28) s;
     scmj_discard ops 28 True b s u }"

definition scmj_2 :: "'s SCMJ \<Rightarrow> 's scmj_handler" where
  "scmj_2 ops b u = do {
     s \<leftarrow> scmj_InitNow ops (cap_slice b 0 14) (scmj_Init ops (Scmj u));
     v \<leftarrow> idx b 14;
     let s = scmj_SetBaseVal ops (uint v) s;
     n \<leftarrow> scmj_GetValid ops 3 s;
     Some ([of_int n], u\<lparr>Scmj := s\<rparr>) }"

definition scmj_1 :: "'s SCMJ \<Rightarrow> 's scmj_handler" where
  "scmj_1 ops b u = do {
     s \<leftarrow> scmj_InitNow ops (cap_slice b 0 14) (scmj_Init ops (Scmj u));
     v \<leftarrow> slice_from b 14;
     s \<leftarrow> scmj_SetNowVal ops 3 (ByteToInt v) s;
     (out, s) \<leftarrow> scmj_OutDiscard ops 3 s;
     Some (out, u\<lparr>Scmj := s\<rparr>) }"

definition ScmjFuncLib :: "'s SCMJ \<Rightarrow> (16 word \<times> 's scmj_handler) list" where
  "ScmjFuncLib ops = [(11, scmj_11 ops), (10, scmj_10 ops), (9, scmj_9 ops), (6, scmj_6 ops), (5, scmj_5 ops),
     (4, scmj_4 ops), (3, scmj_3 ops), (2, scmj_2 ops), (1, scmj_1 ops)]"

definition ScmjId :: byte where
  "ScmjId = 79"  \<comment> \<open>\<open>'O'\<close>\<close>

subsection \<open>The method table\<close>

type_synonym ('s, 'p) server_method = "byte list \<Rightarrow> 's UserBase \<Rightarrow> (int \<rightharpoonup> 'p) \<Rightarrow> (byte list \<times> 's UserBase \<times> (int \<rightharpoonup> 'p)) go"

definition lift_scmj :: "'s scmj_handler \<Rightarrow> ('s, 'p) server_method" where
  "lift_scmj f b u hp = do { (r, u') \<leftarrow> f b u; Some (r, u', hp) }"

definition method_255 :: "('p \<Rightarrow> 'p) \<Rightarrow> ('s, 'p) server_method" where
  "method_255 replace b u hp = Some ([], u, case hp (Host u) of None \<Rightarrow> hp | Some re \<Rightarrow> hp(Host u \<mapsto> replace re))"

definition method_1 :: "('s, 'p) server_method" where
  "method_1 b u hp = Some ([], u\<lparr>Property := ByteToInt b\<rparr>, hp)"

definition method_0 :: "('s, 'p) server_method" where
  "method_0 b u hp = Some ([79, 0], u, hp)"

definition method_key :: "byte \<Rightarrow> 16 word \<Rightarrow> 16 word" where
  "method_key hi lo = push_bit 8 (ucast hi) OR lo"

text \<open>Later assignments to the Go map come first.\<close>

definition MethodLib :: "'s SCMJ \<Rightarrow> ('p \<Rightarrow> 'p) \<Rightarrow> 16 word \<Rightarrow> ('s, 'p) server_method option" where
  "MethodLib ops replace = map_of ([(0, method_0), (1, method_1), (255, method_255 replace)] @
     map (\<lambda>(k, f). (method_key ScmjId k, lift_scmj f)) (ScmjFuncLib ops))"

subsection \<open>Sessions\<close>

definition compByte :: "byte list \<Rightarrow> byte list \<Rightarrow> bool" where
  "compByte a b \<longleftrightarrow> length a = length b \<and> list_all (\<lambda>i. b ! i = a ! i) [0..<length a]"

text \<open>The first free slot among 0..254.\<close>

definition free_slot :: "(byte \<rightharpoonup> 's UserBase) \<Rightarrow> byte option" where
  "free_slot m = List.find (\<lambda>i. m i = None) (map of_nat [0..<255])"

text \<open>When every slot is used \<open>u\<close> stays nil and \<open>u.BeginTime = \<dots>\<close> panics.\<close>

definition GetHost :: "'s SCMJ \<Rightarrow> int \<Rightarrow> string \<Rightarrow> byte \<Rightarrow> (byte \<rightharpoonup> 's UserBase) \<Rightarrow> (byte \<times> 's UserBase \<times> (byte \<rightharpoonup> 's UserBase)) go" where
  "GetHost ops now peer key m = do {
     (key, u) \<leftarrow> (case m key of
        Some u \<Rightarrow> Some (key, u)
      | None \<Rightarrow> do { i \<leftarrow> free_slot m; Some (i, UserBase_Init ops peer (new_UserBase ops)) });
     let u = u\<lparr>BeginTime := now\<rparr>;
     Some (key, u, m(key \<mapsto> u)) }"

text \<open>The reply; \<open>None\<close> inside is Go's nil, on which the connection is closed.\<close>

definition GetRecvData ::
  "'s SCMJ \<Rightarrow> ('p \<Rightarrow> 'p) \<Rightarrow> int \<Rightarrow> string \<Rightarrow> byte list \<Rightarrow> ('s, 'p) server \<Rightarrow> (byte list option \<times> ('s, 'p) server) go" where
  "GetRecvData ops replace now peer db st =
     (if length db < 3 then Some (None, st)
      else (case MethodLib ops replace (method_key (db ! 1) (ucast (db ! 2))) of
          None \<Rightarrow> Some (Some [db ! 0], st)
        | Some f \<Rightarrow> do {
            (k, u, m) \<leftarrow> GetHost ops now peer (db ! 0) (HostMap st);
            let payload = drop 3 db;
            (if \<not> compByte (fst (LastForData u)) payload then do {
               (r, u, hp) \<leftarrow> f payload (u\<lparr>LastForData := (payload, snd (LastForData u))\<rparr>) (HostProxyMap st);
               let u = u\<lparr>LastForData := (fst (LastForData u), r)\<rparr>;
               Some (Some (k # r), st\<lparr>HostMap := m(k \<mapsto> u), HostProxyMap := hp\<rparr>) }
             else Some (Some (k # snd (LastForData u)), st\<lparr>HostMap := m\<rparr>)) }))"

text \<open>One sweep of \<open>ClearServer\<close>: sessions idle for more than 600 seconds are dropped.\<close>

definition ClearServer_sweep :: "int \<Rightarrow> ('s, 'p) server \<Rightarrow> ('s, 'p) server" where
  "ClearServer_sweep now st = st\<lparr>HostMap := (\<lambda>k. case HostMap st k of None \<Rightarrow> None
     | Some u \<Rightarrow> if now - BeginTime u > 600 then None else Some u)\<rparr>"

text \<open>
  A connection: each element is what one \<open>Read\<close> gives, with the clock and whether the reply can be
  written. The result is the replies written.
\<close>

fun Handle :: "'s SCMJ \<Rightarrow> ('p \<Rightarrow> 'p) \<Rightarrow> string \<Rightarrow> (int \<times> byte list \<times> bool) list \<Rightarrow> ('s, 'p) server \<Rightarrow> (byte list list \<times> ('s, 'p) server) go" where
  "Handle ops replace peer [] st = Some ([], st)"
| "Handle ops replace peer ((now, db, wok) # reads) st = do {
     (w, st) \<leftarrow> GetRecvData ops replace now peer db st;
     (case w of
        None \<Rightarrow> Some ([], st)
      | Some out \<Rightarrow> if wok then do { (outs, st) \<leftarrow> Handle ops replace peer reads st; Some (out # outs, st) }
                    else Some ([], st)) }"

text \<open>What the console prints: a line for each session, in the order in which Go walks over the map.\<close>

definition console_line :: "int \<Rightarrow> byte \<Rightarrow> 's UserBase \<Rightarrow> string" where
  "console_line now k v = Itoa (uint k) @ '' '' @ Itoa (Property v) @ '' '' @ Itoa (wrap64 (now - BeginTime v)) @ [CHR 0x0A]"

definition ConsoleHandle :: "int \<Rightarrow> byte list \<Rightarrow> ('s, 'p) server \<Rightarrow> string" where
  "ConsoleHandle now order st =
     foldl (\<lambda>putOut k. putOut @ (case HostMap st k of Some v \<Rightarrow> console_line now k v | None \<Rightarrow> [])) [] order"

definition new_server :: "('s, 'p) server" where
  "new_server = \<lparr>HostMap = Map.empty, HostProxyMap = Map.empty\<rparr>"

text \<open>
  What can happen to the shared tables: a packet on any connection, a sweep, a proxy pool
  registered for a peer (\<^verbatim>\<open>src/main.go\<close>, \<open>ListHandle[1]\<close>). Packets of different connections
  interleave at this granularity; the data races between goroutines inside one call are not
  modelled.
\<close>

inductive server_step :: "'s SCMJ \<Rightarrow> ('p \<Rightarrow> 'p) \<Rightarrow> ('s, 'p) server \<Rightarrow> ('s, 'p) server \<Rightarrow> bool"
  for ops :: "'s SCMJ" and replace :: "'p \<Rightarrow> 'p" where
  packet: "GetRecvData ops replace now peer db st = Some (r, st') \<Longrightarrow> server_step ops replace st st'"
| sweep: "server_step ops replace st (ClearServer_sweep now st)"
| register: "server_step ops replace st (st\<lparr>HostProxyMap := (HostProxyMap st)(ip \<mapsto> pool)\<rparr>)"

inductive_cases server_stepE: "server_step ops replace st st'"

definition reachable :: "'s SCMJ \<Rightarrow> ('p \<Rightarrow> 'p) \<Rightarrow> ('s, 'p) server \<Rightarrow> bool" where
  "reachable ops replace st \<longleftrightarrow> (server_step ops replace)\<^sup>*\<^sup>* new_server st"

subsection \<open>Facts about the tables\<close>

lemma compByte_iff [simp]: "compByte a b \<longleftrightarrow> a = b"
proof
  assume "compByte a b"
  then show "a = b" by (intro nth_equalityI) (auto simp: compByte_def list_all_iff)
qed (simp add: compByte_def list_all_iff)

lemma free_slot_Some: "free_slot m = Some i \<Longrightarrow> m i = None \<and> unat i < 255"
  by (auto simp: free_slot_def find_Some_iff unat_of_nat)

lemma free_slot_None: "free_slot m = None \<longleftrightarrow> (\<forall>i. unat i < 255 \<longrightarrow> m i \<noteq> None)"
proof -
  have "free_slot m = None \<longleftrightarrow> (\<forall>n < 255. m (of_nat n) \<noteq> None)"
    by (auto simp: free_slot_def find_None_iff)
  also have "\<dots> \<longleftrightarrow> (\<forall>i :: byte. unat i < 255 \<longrightarrow> m i \<noteq> None)"
  proof (intro iffI allI impI)
    fix i :: byte
    assume "\<forall>n < 255. m (of_nat n) \<noteq> None" and "unat i < 255"
    then have "m (of_nat (unat i)) \<noteq> None" by blast
    then show "m i \<noteq> None" by simp
  next
    fix n :: nat
    assume "\<forall>i :: byte. unat i < 255 \<longrightarrow> m i \<noteq> None" and "n < 255"
    moreover from this(2) have "unat (of_nat n :: byte) = n" by (simp add: unat_of_nat take_bit_nat_eq_self)
    ultimately show "m (of_nat n) \<noteq> None" by metis
  qed
  finally show ?thesis .
qed

definition session_ok :: "('s \<Rightarrow> bool) \<Rightarrow> ('s, 'p) server \<Rightarrow> bool" where
  "session_ok I st \<longleftrightarrow> HostMap st 255 = None \<and> (\<forall>k u. HostMap st k = Some u \<longrightarrow> I (Scmj u))"

definition fresh_user :: "'s SCMJ \<Rightarrow> int \<Rightarrow> string \<Rightarrow> 's UserBase" where
  "fresh_user ops now peer = (UserBase_Init ops peer (new_UserBase ops))\<lparr>BeginTime := now\<rparr>"

lemma fresh_user_simps [simp]:
  "Scmj (fresh_user ops now peer) = scmj_Init ops (scmj_new ops)" "LastForData (fresh_user ops now peer) = ([], [])"
  "BeginTime (fresh_user ops now peer) = now"
  by (simp_all add: fresh_user_def UserBase_Init_def new_UserBase_def)

lemma GetHost_known:
  "m key = Some u \<Longrightarrow> GetHost ops now peer key m = Some (key, u\<lparr>BeginTime := now\<rparr>, m(key \<mapsto> u\<lparr>BeginTime := now\<rparr>))"
  by (simp add: GetHost_def Let_def)

lemma GetHost_unknown:
  "m key = None \<Longrightarrow> GetHost ops now peer key m =
    (case free_slot m of None \<Rightarrow> None | Some i \<Rightarrow> Some (i, fresh_user ops now peer, m(i \<mapsto> fresh_user ops now peer)))"
  by (simp add: GetHost_def fresh_user_def Let_def split: option.split)

text \<open>
  C28. \<open>GetHost\<close> finds the session of a known key and only renews its time; for an unknown key it
  opens a fresh session in a slot below 255 that was free; and it panics exactly when the key is
  unknown and all slots 0..254 are taken (the nil test in \<open>GetRecvData\<close> comes after the nil
  dereference). No other session changes.
\<close>

theorem GetHost_spec:
  "case GetHost ops now peer key m of
     None \<Rightarrow> m key = None \<and> (\<forall>i. if unat i < 255 then m i \<noteq> None else True)
   | Some (k, u, m') \<Rightarrow> m' = m(k \<mapsto> u) \<and>
       (case m key of
          Some u0 \<Rightarrow> k = key \<and> u = u0\<lparr>BeginTime := now\<rparr>
        | None \<Rightarrow> m k = None \<and> unat k < 255 \<and> u = fresh_user ops now peer)"
proof (cases "m key")
  case None
  then show ?thesis
    using free_slot_None [of m] free_slot_Some [of m] by (auto simp: GetHost_unknown split: option.split)
next
  case (Some u)
  then show ?thesis by (simp add: GetHost_known)
qed

subsection \<open>Replies\<close>

lemma recv_method:
  assumes "length db \<ge> 3" and "MethodLib ops replace (method_key (db ! 1) (ucast (db ! 2))) = Some f"
    and "HostMap st (db ! 0) = Some u"
  shows "GetRecvData ops replace now peer db st =
    (if fst (LastForData u) = drop 3 db
     then Some (Some (db ! 0 # snd (LastForData u)), st\<lparr>HostMap := (HostMap st)(db ! 0 \<mapsto> u\<lparr>BeginTime := now\<rparr>)\<rparr>)
     else do {
       (r, u', hp) \<leftarrow> f (drop 3 db) (u\<lparr>BeginTime := now, LastForData := (drop 3 db, snd (LastForData u))\<rparr>) (HostProxyMap st);
       Some (Some (db ! 0 # r), st\<lparr>HostMap := (HostMap st)(db ! 0 \<mapsto> u'\<lparr>LastForData := (fst (LastForData u'), r)\<rparr>), HostProxyMap := hp\<rparr>) })"
  using assms by (auto simp: GetRecvData_def GetHost_known Let_def not_less)

text \<open>
  A packet whose payload equals the last one of the session is answered from the session's
  memory whatever its method: the handler does not run and the player's state does not change.
  This makes a retransmission safe, and it also answers a \<^emph>\<open>different\<close> method with the stale
  reply, because the method is not compared.
\<close>

lemma GetRecvData_repeats_payload:
  assumes "length db \<ge> 3" and "MethodLib ops replace (method_key (db ! 1) (ucast (db ! 2))) = Some f"
    and "HostMap st (db ! 0) = Some u" and "LastForData u = (drop 3 db, r)"
  shows "GetRecvData ops replace now peer db st =
    Some (Some (db ! 0 # r), st\<lparr>HostMap := (HostMap st)(db ! 0 \<mapsto> u\<lparr>BeginTime := now\<rparr>)\<rparr>)"
  using recv_method [OF assms(1-3)] assms(4) by simp

text \<open>No method touches the session's memory of the last packet.\<close>

lemma method_keeps_last:
  assumes "MethodLib ops replace ke = Some f"
  shows "post (f b u hp) (\<lambda>(r, u', hp'). LastForData u' = LastForData u)"
proof -
  have "\<forall>(k, h) \<in> set (ScmjFuncLib ops). post (h b u) (\<lambda>(r, u'). LastForData u' = LastForData u)"
    by (auto simp: ScmjFuncLib_def scmj_11_def scmj_10_def scmj_9_def scmj_6_def scmj_5_def scmj_4_def scmj_3_def
        scmj_2_def scmj_1_def scmj_discard_def post_def go_simps Let_def)
  then have "post (lift_scmj h b u hp) (\<lambda>(r, u', hp'). LastForData u' = LastForData u)" if "(k, h) \<in> set (ScmjFuncLib ops)" for k h
    using that unfolding lift_scmj_def
    by (fastforce intro!: post_bind elim!: post_mono intro: post_intros)
  moreover have "f \<in> {method_0, method_1, method_255 replace} \<or> (\<exists>k h. (k, h) \<in> set (ScmjFuncLib ops) \<and> f = lift_scmj h)"
    using map_of_SomeD [OF assms [unfolded MethodLib_def]] by auto
  ultimately show ?thesis
    by (auto simp: method_0_def method_1_def method_255_def intro!: post_Some)
qed

text \<open>
  C27. Retransmission. If a packet with a known method was answered, sending its method and payload
  again to the session named in the answer gives the same answer and changes no player, no session
  but for its time stamp, and no proxy.
\<close>

theorem GetRecvData_idempotent:
  assumes "MethodLib ops replace (method_key c d) = Some f" and "d = ucast e"
    and "GetRecvData ops replace now peer (key # c # e # payload) st = Some (Some (k # r), st1)"
  shows "\<exists>u. HostMap st1 k = Some u \<and> GetRecvData ops replace now' peer' (k # c # e # payload) st1 =
    Some (Some (k # r), st1\<lparr>HostMap := (HostMap st1)(k \<mapsto> u\<lparr>BeginTime := now'\<rparr>)\<rparr>)"
proof -
  obtain u0 m where g: "GetHost ops now peer key (HostMap st) = Some (k, u0, m)"
      and cases: "fst (LastForData u0) = payload \<and> r = snd (LastForData u0) \<and> st1 = st\<lparr>HostMap := m\<rparr> \<or>
        (\<exists>u1 hp. f payload (u0\<lparr>LastForData := (payload, snd (LastForData u0))\<rparr>) (HostProxyMap st) = Some (r, u1, hp) \<and>
          st1 = st\<lparr>HostMap := m(k \<mapsto> u1\<lparr>LastForData := (fst (LastForData u1), r)\<rparr>), HostProxyMap := hp\<rparr>)"
    using assms by (auto simp: GetRecvData_def go_simps Let_def split: if_splits)
  have "m k = Some u0" using g by (auto simp: GetHost_def go_simps Let_def split: option.splits)
  then have "\<exists>u. HostMap st1 k = Some u \<and> LastForData u = (payload, r)"
    using cases postD [OF method_keeps_last [OF assms(1)]] by fastforce
  then show ?thesis
    using recv_method [of "k # c # e # payload" ops replace f st1 _ now' peer'] assms(1,2) by fastforce
qed

subsection \<open>The contract between the server and the player\<close>

text \<open>Every operation the handlers call keeps the player's invariant, if it returns.\<close>

locale scmj_contract =
  fixes ops :: "'s SCMJ" and keeps :: "'s \<Rightarrow> bool"
  assumes init_new: "keeps (scmj_Init ops (scmj_new ops))"
    and init_keeps: "keeps s \<Longrightarrow> keeps (scmj_Init ops s)"
    and base_keeps: "keeps s \<Longrightarrow> keeps (scmj_SetBaseVal ops v s)"
    and now_keeps: "keeps s \<Longrightarrow> post (scmj_InitNow ops b s) keeps"
    and see_keeps: "keeps s \<Longrightarrow> post (scmj_SetSeeList ops b s) keeps"
    and val_keeps: "keeps s \<Longrightarrow> post (scmj_SetNowVal ops i v s) keeps"
    and down_keeps: "keeps s \<Longrightarrow> post (scmj_SetPublicDown ops i n v s) keeps"
    and full_keeps: "keeps s \<Longrightarrow> post (scmj_GetFullVal ops n s) (\<lambda>(v, s'). keeps s')"
    and outs_keeps: "keeps s \<Longrightarrow> post (scmj_Outs ops isf No30 s) (\<lambda>(v, s'). keeps s')"
    and discard_keeps: "keeps s \<Longrightarrow> post (scmj_OutDiscard ops n s) (\<lambda>(v, s'). keeps s')"
    and seeouts_keeps: "keeps s \<Longrightarrow> post (scmj_SeeOuts ops v key isf s) (\<lambda>(k, s'). keeps s')"
begin

lemma op_rules:
  "keeps s \<Longrightarrow> (\<And>s'. keeps s' \<Longrightarrow> Q s') \<Longrightarrow> post (scmj_InitNow ops b s) Q"
  "keeps s \<Longrightarrow> (\<And>s'. keeps s' \<Longrightarrow> Q s') \<Longrightarrow> post (scmj_SetSeeList ops b s) Q"
  "keeps s \<Longrightarrow> (\<And>s'. keeps s' \<Longrightarrow> Q s') \<Longrightarrow> post (scmj_SetNowVal ops i v s) Q"
  "keeps s \<Longrightarrow> (\<And>s'. keeps s' \<Longrightarrow> Q s') \<Longrightarrow> post (scmj_SetPublicDown ops i n v s) Q"
  by (erule post_mono [OF now_keeps], blast, erule post_mono [OF see_keeps], blast,
      erule post_mono [OF val_keeps], blast, erule post_mono [OF down_keeps], blast)

lemma op_rules2:
  "keeps s \<Longrightarrow> (\<And>v s'. keeps s' \<Longrightarrow> Q (v, s')) \<Longrightarrow> post (scmj_GetFullVal ops n s) Q"
  "keeps s \<Longrightarrow> (\<And>v s'. keeps s' \<Longrightarrow> Q (v, s')) \<Longrightarrow> post (scmj_Outs ops n No30 s) Q"
  by (erule post_mono [OF full_keeps], fastforce, erule post_mono [OF outs_keeps], fastforce)

lemma op_rules3:
  "keeps s \<Longrightarrow> (\<And>v s'. keeps s' \<Longrightarrow> Q (v, s')) \<Longrightarrow> post (scmj_OutDiscard ops n s) Q"
  by (erule post_mono [OF discard_keeps], fastforce)

lemma op_rules4:
  "keeps s \<Longrightarrow> (\<And>v s'. keeps s' \<Longrightarrow> Q (v, s')) \<Longrightarrow> post (scmj_SeeOuts ops n key isf s) Q"
  by (erule post_mono [OF seeouts_keeps], fastforce)

lemma reads:
  "(\<And>x. Q x) \<Longrightarrow> post (scmj_GetLastSee ops s) Q" "(\<And>x. Q x) \<Longrightarrow> post (scmj_GetValid ops i s) Q"
  "(\<And>x. R x) \<Longrightarrow> post (slice_from b n) R"
  by (auto intro: post_read)

lemmas handler_rules = post_intros op_rules op_rules2 op_rules3 op_rules4 reads

definition safe_handler :: "'s scmj_handler \<Rightarrow> bool" where
  "safe_handler f \<longleftrightarrow> (\<forall>b u. keeps (Scmj u) \<longrightarrow> post (f b u) (\<lambda>(r, u'). keeps (Scmj u')))"

lemma discard_safe: "keeps s \<Longrightarrow> post (scmj_discard ops off No30 b s u) (\<lambda>(r, u'). keeps (Scmj u'))"
  unfolding scmj_discard_def by (auto intro!: handler_rules)

lemma handlers_safe:
  "safe_handler (scmj_11 ops)" "safe_handler (scmj_10 ops)" "safe_handler (scmj_9 ops)" "safe_handler (scmj_6 ops)"
  "safe_handler (scmj_5 ops)" "safe_handler (scmj_4 ops)" "safe_handler (scmj_3 ops)" "safe_handler (scmj_2 ops)"
  "safe_handler (scmj_1 ops)"
  unfolding safe_handler_def scmj_11_def scmj_10_def scmj_9_def scmj_6_def scmj_5_def scmj_4_def scmj_3_def
    scmj_2_def scmj_1_def
  by (auto intro!: handler_rules discard_safe init_keeps base_keeps post_foldM [where P = keeps])

lemma methods_safe:
  assumes "MethodLib ops replace ke = Some f" and "keeps (Scmj u)"
  shows "post (f b u hp) (\<lambda>(r, u', hp'). keeps (Scmj u'))"
proof -
  have lift: "post (lift_scmj h b u hp) (\<lambda>(r, u', hp'). keeps (Scmj u'))" if "safe_handler h" for h
    using that assms(2) unfolding lift_scmj_def safe_handler_def
    by (auto intro!: post_bind elim!: post_mono allE [of _ b] allE [of _ u] intro: post_intros)
  have "f \<in> {method_0, method_1, method_255 replace} \<or> (\<exists>k h. (k, h) \<in> set (ScmjFuncLib ops) \<and> f = lift_scmj h)"
    using map_of_SomeD [OF assms(1) [unfolded MethodLib_def]] by auto
  moreover have "safe_handler h" if "(k, h) \<in> set (ScmjFuncLib ops)" for k h
    using that handlers_safe by (auto simp: ScmjFuncLib_def)
  ultimately show ?thesis
    using lift assms(2) by (auto simp: method_0_def method_1_def method_255_def intro!: post_Some)
qed

lemma recv_keeps:
  assumes "session_ok keeps st"
  shows "post (GetRecvData ops replace now peer db st) (\<lambda>(r, st'). session_ok keeps st')"
proof -
  have host: "post (GetHost ops now peer key m) (\<lambda>(k, u, m'). keeps (Scmj u) \<and> k \<noteq> 255 \<and> m' = m(k \<mapsto> u))"
    if "\<forall>k u. m k = Some u \<longrightarrow> keeps (Scmj u)" "m 255 = None" for key m
  proof (cases "m key")
    case None
    then show ?thesis
      using init_new free_slot_Some [of m]
      by (fastforce simp: GetHost_unknown split: option.split intro!: post_intros)
  next
    case (Some u)
    then show ?thesis using that by (auto simp: GetHost_known intro!: post_Some)
  qed
  show ?thesis
  proof (cases "length db < 3 \<or> MethodLib ops replace (method_key (db ! 1) (ucast (db ! 2))) = None")
    case True
    then show ?thesis using assms by (auto simp: GetRecvData_def intro!: post_intros)
  next
    case False
    then obtain f where f: "MethodLib ops replace (method_key (db ! 1) (ucast (db ! 2))) = Some f" by auto
    have "\<forall>k u. HostMap st k = Some u \<longrightarrow> keeps (Scmj u)" "HostMap st 255 = None"
      using assms by (auto simp: session_ok_def)
    note h = host [OF this, of "db ! 0"]
    show ?thesis
      using False f assms
      by (auto simp: GetRecvData_def session_ok_def intro!: post_bind post_mono [OF h] post_intros
          post_mono [OF methods_safe [OF f]] split: if_splits)
  qed
qed

lemma step_keeps: "server_step ops replace st st' \<Longrightarrow> session_ok keeps st \<Longrightarrow> session_ok keeps st'"
proof (induction rule: server_step.induct)
  case (packet now peer db st r st')
  then show ?case using postD [OF recv_keeps] by fastforce
next
  case (sweep st now)
  then show ?case by (auto simp: session_ok_def ClearServer_sweep_def split: option.splits if_splits)
next
  case (register st ip pool)
  then show ?case by (simp add: session_ok_def)
qed

lemma reachable_keeps:
  assumes "reachable ops replace st"
  shows "session_ok keeps st"
proof -
  have "(server_step ops replace)\<^sup>*\<^sup>* new_server st" using assms by (simp add: reachable_def)
  then show ?thesis
  proof (induction rule: rtranclp_induct)
    case base
    show ?case by (simp add: session_ok_def new_server_def)
  qed (rule step_keeps)
qed

end

end
