(* ===== verification/Insertion.thy ===== *)
theory Insertion
  imports RS_Prelude
begin

text \<open>
  The recursive passes \<open>SortGrain\<close>, \<open>SortdGrain\<close> and \<open>SortNewBlock\<close> of the code all have one
  shape: compare position \<open>i\<close> with position \<open>i-1\<close>, swap when the later element has the
  smaller key, go on at \<open>i-1\<close>; a caller runs the pass for \<open>i = 0, 1, 2, \<dots>\<close>. The locale
  \<open>insertion_pass\<close> states that contract and proves, once, that the loop is the library's
  stable sort \<^const>\<open>sort_key\<close>.
\<close>

definition swap_down :: "'a list \<Rightarrow> nat \<Rightarrow> 'a list" where
  "swap_down xs i = xs[Suc i := xs ! i, i := xs ! Suc i]"

fun pass :: "('a \<Rightarrow> int) \<Rightarrow> 'a list \<Rightarrow> nat \<Rightarrow> 'a list" where
  "pass key xs 0 = xs"
| "pass key xs (Suc i) = pass key (if key (xs ! Suc i) < key (xs ! i) then swap_down xs i else xs) i"

definition ins_after :: "('a \<Rightarrow> int) \<Rightarrow> 'a \<Rightarrow> 'a list \<Rightarrow> 'a list" where
  "ins_after key x ys = filter (\<lambda>y. key y \<le> key x) ys @ x # filter (\<lambda>y. key x < key y) ys"

lemma swap_down_append: "swap_down (ys @ y # x # zs) (length ys) = ys @ x # y # zs"
  by (simp add: swap_down_def nth_append list_update_append)

lemma pass_sorted_prefix:
  "sorted (map key (take (Suc i) xs)) \<Longrightarrow> i < length xs \<Longrightarrow> pass key xs i = xs"
proof (induction i)
  case 0
  then show ?case by simp
next
  case (Suc i)
  have "sorted (map key (take (Suc i) xs))"
    using Suc.prems(1) by (metis take_map sorted_wrt_take take_take min_def lessI less_imp_le)
  moreover have "key (xs ! i) \<le> key (xs ! Suc i)"
    using sorted_nth_mono [OF Suc.prems(1), of i "Suc i"] Suc.prems(2) by simp
  ultimately show ?case using Suc by simp
qed

lemma pass_insert:
  "sorted (map key ys) \<Longrightarrow> pass key (ys @ x # zs) (length ys) = ins_after key x ys @ zs"
proof (induction ys arbitrary: zs rule: rev_induct)
  case Nil
  then show ?case by (simp add: ins_after_def)
next
  case (snoc y ys)
  then have sorted: "sorted (map key ys)" and le: "\<forall>z \<in> set ys. key z \<le> key y"
    by (auto simp: sorted_append)
  show ?case
  proof (cases "key x < key y")
    case True
    then have "pass key ((ys @ [y]) @ x # zs) (length (ys @ [y])) = pass key (ys @ x # y # zs) (length ys)"
      using swap_down_append [of ys y x zs] by (simp add: nth_append)
    also have "\<dots> = ins_after key x ys @ y # zs"
      by (rule snoc.IH [OF sorted])
    finally show ?thesis using True by (simp add: ins_after_def)
  next
    case False
    with le have "filter (\<lambda>z. key z \<le> key x) ys = ys" and "filter (\<lambda>z. key x < key z) ys = []"
      by (auto simp: filter_empty_conv filter_id_conv)
    with False have "ins_after key x (ys @ [y]) = ys @ [y, x]"
      by (simp add: ins_after_def)
    moreover have "sorted (map key (ys @ [y, x]))"
      using snoc.prems False le by (force simp: sorted_append)
    then have "pass key (ys @ y # x # zs) (Suc (length ys)) = ys @ y # x # zs"
      by (intro pass_sorted_prefix) (auto simp: take_Suc_conv_app_nth)
    ultimately show ?thesis by simp
  qed
qed

lemma ins_after_sort_key: "ins_after key x (sort_key key ys) = sort_key key (ys @ [x])"
proof (rule properties_for_sort_key [symmetric])
  show "mset (ins_after key x (sort_key key ys)) = mset (ys @ [x])"
    by (simp add: ins_after_def not_le [symmetric])
next
  fix k
  have conj: "filter (\<lambda>z. P (key z) \<and> v = key z) zs =
      (if P v then filter (\<lambda>z. v = key z) zs else [])" for P v zs
    by (induction zs) auto
  have "filter (\<lambda>z. key k = key z) (sort_key key ys) = filter (\<lambda>z. key k = key z) ys"
    using sort_key_stable [of key "key k" ys] by (simp add: eq_commute)
  then show "filter (\<lambda>z. key k = key z) (ins_after key x (sort_key key ys)) =
      filter (\<lambda>z. key k = key z) (ys @ [x])"
    by (cases "key k = key x")
      (auto simp: ins_after_def conj [where P = "\<lambda>v. v \<le> key x"] conj [where P = "\<lambda>v. key x < v"])
next
  have "sorted (map key (filter P (sort_key key ys)))" for P
    by (simp add: sorted_filter)
  then show "sorted (map key (ins_after key x (sort_key key ys)))"
    by (auto simp: ins_after_def sorted_append)
qed

lemma pass_loop:
  "n \<le> length xs \<Longrightarrow> foldl (pass key) xs [0..<n] = sort_key key (take n xs) @ drop n xs"
proof (induction n)
  case 0
  then show ?case by simp
next
  case (Suc n)
  let ?s = "sort_key key (take n xs)"
  have "foldl (pass key) xs [0..<Suc n] = pass key (?s @ xs ! n # drop (Suc n) xs) (length ?s)"
    using Suc by (simp add: Cons_nth_drop_Suc)
  also have "\<dots> = ins_after key (xs ! n) ?s @ drop (Suc n) xs"
    by (rule pass_insert) simp
  also have "\<dots> = sort_key key (take (Suc n) xs) @ drop (Suc n) xs"
    using Suc.prems by (simp add: ins_after_sort_key take_Suc_conv_app_nth)
  finally show ?case .
qed

lemma set_swap_down [simp]: "Suc i < length xs \<Longrightarrow> set (swap_down xs i) = set xs"
  by (auto simp: swap_down_def set_swap)

lemma length_swap_down [simp]: "length (swap_down xs i) = length xs"
  by (simp add: swap_down_def)

lemma nth_swap_down:
  "Suc i < length xs \<Longrightarrow> swap_down xs i ! k = (if k = i then xs ! Suc i else if k = Suc i then xs ! i else xs ! k)"
  by (simp add: swap_down_def nth_list_update)

lemma set_pass [simp]: "i < length xs \<Longrightarrow> set (pass key xs i) = set xs"
  by (induction i arbitrary: xs) auto

lemma length_pass [simp]: "length (pass key xs i) = length xs"
  by (induction i arbitrary: xs) auto

locale insertion_pass =
  fixes step :: "'a list \<Rightarrow> nat \<Rightarrow> 'a list go"
    and key :: "'a \<Rightarrow> int"
    and ok :: "'a \<Rightarrow> bool"
  assumes step_0: "step xs 0 = Some xs"
    and step_Suc: "Suc i < length xs \<Longrightarrow> ok (xs ! Suc i) \<Longrightarrow> ok (xs ! i) \<Longrightarrow>
      step xs (Suc i) = step (if key (xs ! Suc i) < key (xs ! i) then swap_down xs i else xs) i"
begin

text \<open>A pass from position \<open>i\<close> reads positions up to \<open>i\<close> only.\<close>

lemma step_pass_prefix:
  "i < length xs \<Longrightarrow> \<forall>k \<le> i. ok (xs ! k) \<Longrightarrow> step xs i = Some (pass key xs i)"
proof (induction i arbitrary: xs)
  case 0
  then show ?case by (simp add: step_0)
next
  case (Suc i)
  let ?ys = "if key (xs ! Suc i) < key (xs ! i) then swap_down xs i else xs"
  have "\<forall>k \<le> i. ok (?ys ! k)"
    using Suc.prems by (auto simp: nth_swap_down)
  with Suc show ?case by (simp add: step_Suc)
qed

lemma step_pass: "i < length xs \<Longrightarrow> \<forall>x \<in> set xs. ok x \<Longrightarrow> step xs i = Some (pass key xs i)"
  by (simp add: step_pass_prefix)

lemma loop_pass:
  assumes "\<forall>x \<in> set xs. ok x"
  shows "n \<le> length xs \<Longrightarrow> foldM step xs [0..<n] = Some (foldl (pass key) xs [0..<n])"
proof (induction n)
  case 0
  then show ?case by simp
next
  case (Suc n)
  have "set (take n xs) \<union> set (drop n xs) = set xs"
    by (metis append_take_drop_id set_append)
  then have "set (foldl (pass key) xs [0..<n]) = set xs"
    and "length (foldl (pass key) xs [0..<n]) = length xs"
    using Suc.prems by (simp_all add: pass_loop)
  with Suc assms show ?case
    by (simp add: foldM_append step_pass)
qed

text \<open>The whole loop is the stable sort by \<open>key\<close>.\<close>

lemma loop_sorts:
  assumes "\<forall>x \<in> set xs. ok x"
  shows "foldM step xs [0..<length xs] = Some (sort_key key xs)"
  using loop_pass [OF assms, of "length xs"] by (simp add: pass_loop)

end

end
