(* ===== verification/Grain.thy ===== *)
theory Grain
  imports Insertion
begin

text \<open>
  Candidate tiles and their ranking (\<^verbatim>\<open>src/mjai/Ai.go\<close>, lines 10--69): the struct \<open>MJGrain\<close>,
  the two recursive sorting passes and \<open>SortGrainArrs\<close>, which picks the tile to discard from
  a list of candidates by comparing one column of scores after the other.
\<close>

record MJGrain =
  gr_H :: int  \<comment> \<open>suit, 0 to 2\<close>
  gr_N :: int  \<comment> \<open>rank, 0 to 8\<close>
  gr_O :: "int list"  \<comment> \<open>score columns\<close>

fun SortGrain :: "MJGrain list \<Rightarrow> nat \<Rightarrow> nat \<Rightarrow> MJGrain list go" where
  "SortGrain grs 0 oc = Some grs"
| "SortGrain grs (Suc j) oc = do {
     gi \<leftarrow> idx grs (int (Suc j));
     gj \<leftarrow> idx grs (int j);
     ki \<leftarrow> idx (gr_O gi) (int oc);
     kj \<leftarrow> idx (gr_O gj) (int oc);
     SortGrain (if ki < kj then swap_down grs j else grs) j oc }"

fun SortdGrain :: "MJGrain list \<Rightarrow> nat \<Rightarrow> nat \<Rightarrow> MJGrain list go" where
  "SortdGrain grs 0 oc = Some grs"
| "SortdGrain grs (Suc j) oc = do {
     gi \<leftarrow> idx grs (int (Suc j));
     gj \<leftarrow> idx grs (int j);
     ki \<leftarrow> idx (gr_O gi) (int oc);
     kj \<leftarrow> idx (gr_O gj) (int oc);
     SortdGrain (if ki > kj then swap_down grs j else grs) j oc }"

text \<open>
  The loop over \<open>grs[2:]\<close>: \<open>_i\<close> starts at 2 and becomes \<open>2 + i\<close> at the first element whose
  score differs from the best one; it stays 2 when there is no such element.
\<close>

fun tie_scan :: "int \<Rightarrow> nat \<Rightarrow> nat \<Rightarrow> MJGrain list \<Rightarrow> nat" where
  "tie_scan k oc i [] = 2"
| "tie_scan k oc i (g # gs) = (if gr_O g ! oc \<noteq> k then 2 + i else tie_scan k oc (Suc i) gs)"

definition sort_column :: "bool \<Rightarrow> nat \<Rightarrow> MJGrain list \<Rightarrow> MJGrain list go" where
  "sort_column desc oc grs =
     foldM (\<lambda>xs i. if desc then SortdGrain xs i oc else SortGrain xs i oc) grs [0..<length grs]"

function SortGrainArrs :: "MJGrain list \<Rightarrow> nat \<Rightarrow> bool list \<Rightarrow> MJGrain go" where
  "SortGrainArrs grs oc isd =
     (case grs of
        [] \<Rightarrow> None  \<comment> \<open>grs[0] is out of range\<close>
      | g0 # _ \<Rightarrow>
          if length (gr_O g0) \<le> oc \<or> length grs = 1 \<or> length isd \<le> oc then Some g0
          else (case sort_column (isd ! oc) oc grs of
              None \<Rightarrow> None
            | Some grs' \<Rightarrow>
                if gr_O (grs' ! 0) ! oc \<noteq> gr_O (grs' ! 1) ! oc then Some (grs' ! 0)
                else SortGrainArrs
                  (take (tie_scan (gr_O (grs' ! 0) ! oc) oc 0 (drop 2 grs')) grs') (Suc oc) isd))"
  by pat_completeness auto
termination
  by (relation "measure (\<lambda>(grs, oc, isd). length isd - oc)") auto

declare SortGrainArrs.simps [simp del]

text \<open>The key of a column: ascending passes use the score, descending ones its negation.\<close>

definition col_key :: "bool \<Rightarrow> nat \<Rightarrow> MJGrain \<Rightarrow> int" where
  "col_key desc oc g = (if desc then - (gr_O g ! oc) else gr_O g ! oc)"

definition has_col :: "nat \<Rightarrow> MJGrain \<Rightarrow> bool" where
  "has_col oc g \<longleftrightarrow> oc < length (gr_O g)"

interpretation asc: insertion_pass "\<lambda>grs i. SortGrain grs i oc" "col_key False oc" "has_col oc"
  for oc
  by unfold_locales (auto simp: col_key_def has_col_def)

interpretation desc: insertion_pass "\<lambda>grs i. SortdGrain grs i oc" "col_key True oc" "has_col oc"
  for oc
  by unfold_locales (auto simp: col_key_def has_col_def)

lemma sort_column_eq:
  "\<forall>g \<in> set grs. has_col oc g \<Longrightarrow> sort_column d oc grs = Some (sort_key (col_key d oc) grs)"
  using asc.loop_sorts [of grs oc] desc.loop_sorts [of grs oc]
  by (cases d) (simp_all add: sort_column_def)

text \<open>
  Running the code's sorting passes over a slice is the stable sort by the chosen score
  column, ascending or descending, whenever every candidate has that column.
\<close>

lemma sort_column_is_stable_sort:
  assumes "\<forall>g \<in> set grs. oc < length (gr_O g)"
  shows "sort_column d oc grs =
    Some (sort_key (\<lambda>g. if d then - (gr_O g ! oc) else gr_O g ! oc) grs)"
  using assms sort_column_eq [of grs oc d] by (simp add: has_col_def col_key_def [abs_def])

lemma sort_column_is_stable_sort_witness:
  "sort_column True 0 [\<lparr>gr_H = 0, gr_N = 0, gr_O = [1]\<rparr>, \<lparr>gr_H = 0, gr_N = 1, gr_O = [2]\<rparr>] =
    Some (sort_key (\<lambda>g. if True then - (gr_O g ! 0) else gr_O g ! 0)
      [\<lparr>gr_H = 0, gr_N = 0, gr_O = [1]\<rparr>, \<lparr>gr_H = 0, gr_N = 1, gr_O = [2]\<rparr>])"
  by (rule sort_column_is_stable_sort) simp

lemma tie_scan_ge: "2 \<le> tie_scan k oc i gs"
  by (induction k oc i gs rule: tie_scan.induct) auto

lemma col_key_eq_iff: "col_key d oc g = col_key d oc h \<longleftrightarrow> gr_O g ! oc = gr_O h ! oc"
  by (auto simp: col_key_def)

lemma sort_key_hd_least:
  assumes "g \<in> set grs"
  shows "key (sort_key key grs ! 0) \<le> (key g :: int)"
proof -
  from assms have "g \<in> set (sort_key key grs)" by simp
  then obtain i where i: "i < length grs" "g = sort_key key grs ! i"
    by (metis in_set_conv_nth length_sort)
  have "sorted (map key (sort_key key grs))" by simp
  then have "map key (sort_key key grs) ! 0 \<le> map key (sort_key key grs) ! i"
    by (rule sorted_nth_mono) (use i in auto)
  moreover have "0 < length (sort_key key grs)" using i(1) by (simp only: length_sort)
  ultimately show ?thesis using i by (simp only: nth_map length_sort)
qed

text \<open>What \<open>SortGrainArrs\<close> does on a list whose candidates all have the column.\<close>

lemma SortGrainArrs_step:
  assumes "grs \<noteq> []" and "\<forall>g \<in> set grs. length isd \<le> length (gr_O g)"
  shows "SortGrainArrs grs oc isd =
    (if length grs = 1 \<or> length isd \<le> oc then Some (grs ! 0)
     else (let s = sort_key (col_key (isd ! oc) oc) grs in
       if gr_O (s ! 0) ! oc \<noteq> gr_O (s ! 1) ! oc then Some (s ! 0)
       else SortGrainArrs (take (tie_scan (gr_O (s ! 0) ! oc) oc 0 (drop 2 s)) s) (Suc oc) isd))"
proof -
  have "length isd \<le> length (gr_O (grs ! 0))"
    using assms by simp
  moreover have "\<forall>g \<in> set grs. has_col oc g" if "oc < length isd"
    using assms that by (force simp: has_col_def)
  ultimately show ?thesis
    using assms(1) by (subst SortGrainArrs.simps) (auto simp: sort_column_eq Let_def split: list.split)
qed

lemma SortGrainArrs_in:
  assumes "grs \<noteq> []" and "\<forall>g \<in> set grs. length isd \<le> length (gr_O g)"
  shows "\<exists>g. SortGrainArrs grs oc isd = Some g \<and> g \<in> set grs"
  using assms
proof (induction grs oc isd rule: SortGrainArrs.induct)
  case (1 grs oc isd)
  let ?s = "sort_key (col_key (isd ! oc) oc) grs"
  let ?t = "take (tie_scan (gr_O (?s ! 0) ! oc) oc 0 (drop 2 ?s)) ?s"
  have hd: "?s ! 0 \<in> set grs"
    using "1.prems"(1) by (metis length_greater_0_conv length_sort nth_mem set_sort)
  show ?case
  proof (cases "length grs = 1 \<or> length isd \<le> oc \<or> gr_O (?s ! 0) ! oc \<noteq> gr_O (?s ! 1) ! oc")
    case True
    then show ?thesis
      using "1.prems" hd by (auto simp: SortGrainArrs_step [OF "1.prems"] Let_def)
  next
    case False
    have cols: "\<forall>g \<in> set grs. has_col oc g"
      using "1.prems"(2) False by (force simp: has_col_def)
    obtain g0 gs where grs: "grs = g0 # gs"
      using "1.prems"(1) by (cases grs) auto
    have sub: "set ?t \<subseteq> set grs"
      by (metis set_sort set_take_subset)
    moreover have "?t \<noteq> []"
      using "1.prems"(1) tie_scan_ge [of "gr_O (?s ! 0) ! oc" oc 0 "drop 2 ?s"]
      by (metis length_0_conv length_sort not_numeral_le_zero take_eq_Nil)
    ultimately have "\<exists>g. SortGrainArrs ?t (Suc oc) isd = Some g \<and> g \<in> set ?t"
      using "1.prems" False cols
      by (intro "1.IH" [OF grs _ sort_column_eq [OF cols]]) (auto simp: grs has_col_def)
    then show ?thesis
      using False sub by (auto simp: SortGrainArrs_step [OF "1.prems"] Let_def)
  qed
qed

lemma tie_scan_ties:
  "i < tie_scan k oc m gs \<Longrightarrow> 2 + m \<le> i \<Longrightarrow> i - 2 - m < length gs \<Longrightarrow> gr_O (gs ! (i - 2 - m)) ! oc = k"
proof (induction k oc m gs rule: tie_scan.induct)
  case (1 k oc i)
  then show ?case by simp
next
  case (2 k oc m g gs)
  show ?case
  proof (cases "i = 2 + m")
    case True
    then show ?thesis using "2.prems" by (simp split: if_splits)
  next
    case False
    then have "i - 2 - m = Suc (i - 2 - Suc m)" using "2.prems" by simp
    then show ?thesis using 2 False by (simp split: if_splits)
  qed
qed

lemma SortGrainArrs_best:
  assumes "grs \<noteq> []" and "\<forall>g \<in> set grs. length isd \<le> length (gr_O g)" and "isd \<noteq> []"
  shows "\<exists>g. SortGrainArrs grs 0 isd = Some g \<and> g \<in> set grs \<and>
    (\<forall>h \<in> set grs. if isd ! 0 then gr_O h ! 0 \<le> gr_O g ! 0 else gr_O g ! 0 \<le> gr_O h ! 0)"
proof -
  let ?k = "col_key (isd ! 0) 0"
  let ?s = "sort_key ?k grs"
  let ?t = "take (tie_scan (gr_O (?s ! 0) ! 0) 0 0 (drop 2 ?s)) ?s"
  have ties: "gr_O (?s ! i) ! 0 = gr_O (?s ! 0) ! 0"
    if "gr_O (?s ! 0) ! 0 = gr_O (?s ! 1) ! 0" and "i < length ?t" for i
    using that tie_scan_ties [of i "gr_O (?s ! 0) ! 0" 0 0 "drop 2 ?s"]
    by (cases i; cases "i - 1") auto
  have "\<exists>g. SortGrainArrs grs 0 isd = Some g \<and> g \<in> set grs \<and> ?k g = ?k (?s ! 0)"
  proof (cases "length grs = 1 \<or> gr_O (?s ! 0) ! 0 \<noteq> gr_O (?s ! 1) ! 0")
    case True
    moreover have "?s ! 0 \<in> set grs"
      using assms(1) by (metis length_greater_0_conv length_sort nth_mem set_sort)
    moreover have "?s = grs" if "length grs = 1"
      using that by (cases grs) auto
    ultimately show ?thesis
      using assms by (auto simp: SortGrainArrs_step [OF assms(1,2)] Let_def)
  next
    case False
    have sub: "set ?t \<subseteq> set grs" by (metis set_sort set_take_subset)
    have ne: "?t \<noteq> []"
      using assms(1) tie_scan_ge [of "gr_O (?s ! 0) ! 0" 0 0 "drop 2 ?s"]
      by (metis length_0_conv length_sort not_numeral_le_zero take_eq_Nil)
    then obtain g where g: "SortGrainArrs ?t (Suc 0) isd = Some g" "g \<in> set ?t"
      using SortGrainArrs_in [of ?t isd "Suc 0"] assms(2) sub by blast
    then obtain i where i: "i < length ?t" "g = ?t ! i" by (metis in_set_conv_nth)
    then have "g = ?s ! i" by simp
    with i(1) False have "gr_O g ! 0 = gr_O (?s ! 0) ! 0" by (metis ties)
    with g sub False assms show ?thesis
      by (auto simp: SortGrainArrs_step [OF assms(1,2)] Let_def col_key_eq_iff)
  qed
  then obtain g where g: "SortGrainArrs grs 0 isd = Some g" "g \<in> set grs" "?k g = ?k (?s ! 0)" by blast
  have "?k g \<le> ?k h" if "h \<in> set grs" for h
    using sort_key_hd_least [OF that, of ?k] g(3) by simp
  then show ?thesis using g by (auto simp: col_key_def split: if_splits)
qed

text \<open>
  C29. \<open>SortGrainArrs\<close> never panics on a non-empty list of candidates that have a score for every
  criterion, it returns one of the candidates, and that candidate is best on the first criterion.
\<close>

theorem SortGrainArrs_first_criterion:
  assumes "grs \<noteq> []" and "\<forall>g \<in> set grs. length isd \<le> length (gr_O g)" and "isd \<noteq> []"
  shows "\<exists>g. SortGrainArrs grs 0 isd = Some g \<and> g \<in> set grs \<and>
    (\<forall>h \<in> set grs. if isd ! 0 then gr_O h ! 0 \<le> gr_O g ! 0 else gr_O g ! 0 \<le> gr_O h ! 0)"
  using assms by (rule SortGrainArrs_best)

definition demo_grains :: "MJGrain list" where
  "demo_grains = [\<lparr>gr_H = 0, gr_N = 1, gr_O = [1, 3]\<rparr>, \<lparr>gr_H = 0, gr_N = 2, gr_O = [1, 2]\<rparr>,
     \<lparr>gr_H = 0, gr_N = 3, gr_O = [1, 1]\<rparr>]"

theorem SortGrainArrs_first_criterion_witness:
  "\<exists>g. SortGrainArrs demo_grains 0 [False, False] = Some g \<and> g \<in> set demo_grains \<and>
    gr_O g ! 0 \<le> gr_O (demo_grains ! 2) ! 0"
  using SortGrainArrs_first_criterion [of demo_grains "[False, False]"] by (auto simp: demo_grains_def)

text \<open>
  The tie on the first criterion is cut wrongly when every candidate ties: \<open>_i\<close> stays 2, only
  the first two candidates reach the next criterion and the third, which is strictly better
  there, is never considered.
\<close>

lemma SortGrainArrs_drops_ties:
  "SortGrainArrs demo_grains 0 [False, False] = Some (demo_grains ! 1)
    \<and> gr_O (demo_grains ! 2) ! 0 = gr_O (demo_grains ! 1) ! 0
    \<and> gr_O (demo_grains ! 2) ! 1 < gr_O (demo_grains ! 1) ! 1"
  by (simp add: demo_grains_def SortGrainArrs.simps sort_column_def upt_rec swap_down_def idx_def
      cong: bind_weak_cong)

end
