(* ===== verification/Weight.thy ===== *)
theory Weight
  imports Grain
begin

text \<open>
  The hand evaluation (\<^verbatim>\<open>src/mjai/Block.go\<close>, lines 230--349): \<open>WeightVal\<close> and
  \<open>GetWeightVal\<close> give a run of neighbouring ranks a penalty, 0 when the tiles form complete
  melds and 1 when exactly a pair is left over.

  The recursion of \<open>WeightVal\<close> only ends because counts are positive, so it is a
  \<^theory_text>\<open>partial_function\<close>; \<open>WeightVal_decomposes\<close> shows that it returns on every such
  input and what the returned number means.
\<close>

definition leftover :: "int list \<Rightarrow> nat \<Rightarrow> MJGrain" where
  "leftover No i = \<lparr>gr_H = -1, gr_N = int i, gr_O = [No ! i]\<rparr>"

text \<open>The loop of the short case (\<open>le < 3\<close>).\<close>

definition weight_short1 :: "int list \<Rightarrow> int \<times> MJGrain list \<Rightarrow> nat \<Rightarrow> int \<times> MJGrain list" where
  "weight_short1 No = (\<lambda>(w, og) i.
     if No ! i < 3 then
       (let v = 3 - No ! i in (w + v, if v > 0 then og @ [leftover No i] else og))
     else (w, og))"

text \<open>
  One iteration of the loop over \<open>i = 2, 1, 0\<close> that takes one tile of each of the first three
  ranks; \<open>start\<close> ends up at the first rank from which the remaining tiles are contiguous, ranks
  before a gap that still hold tiles are charged at once.
\<close>

type_synonym run_state = "int list \<times> bool \<times> nat \<times> int \<times> MJGrain list"

definition weight_run1 :: "nat list \<Rightarrow> run_state \<Rightarrow> nat \<Rightarrow> run_state" where
  "weight_run1 bl = (\<lambda>(No, isb, start, w, og) i.
     let No = No[bl ! i := No ! (bl ! i) - 1] in
     if No ! (bl ! i) = 0 then (No, True, start, w, og)
     else if \<not> isb then (No, isb, i, w, og)
     else (let v = 3 - No ! (bl ! i) in
       (No, isb, start, w + v, if v > 0 then og @ [leftover No (bl ! i)] else og)))"

text \<open>
  On a tie of the two directions the leftovers are merged: those of the first list whose rank
  does not occur in the second, then the second list.
\<close>

definition fresh_in :: "MJGrain list \<Rightarrow> MJGrain list \<Rightarrow> MJGrain list" where
  "fresh_in xs ys = filter (\<lambda>x. \<forall>y \<in> set ys. gr_N x \<noteq> gr_N y) xs"

partial_function (option) WeightVal ::
  "int list \<Rightarrow> nat list \<Rightarrow> int \<Rightarrow> MJGrain list \<Rightarrow> (int \<times> MJGrain list) option" where
  "WeightVal No bl w og =
     (if length bl = 0 then Some (w, og)
      else if length bl < 3 then Some (foldl (weight_short1 No) (w, og) bl)
      else if No ! (bl ! 0) > 2 then WeightVal No (drop 1 bl) w og
      else
        (case foldl (weight_run1 bl) (No, False, 3, w, og) [2, 1, 0] of (No, isb, start, w, og) \<Rightarrow>
          (if length (drop start bl) < 3 then WeightVal No (drop start bl) w og
           else
             do {
               (w1, o1) \<leftarrow> WeightVal No (drop start bl) 0 [];
               (w2, o2) \<leftarrow> WeightVal No (rev (drop start bl)) 0 [];
               Some (if w2 < w1 then (w2 + w, og @ o2)
                     else if w2 > w1 then (w1 + w, og @ o1)
                     else (w1 + w, og @ fresh_in o1 o2 @ o2)) })))"

declare WeightVal.simps [code]

definition GetWeightVal :: "int list \<Rightarrow> nat list \<Rightarrow> (int \<times> MJGrain list) option" where
  "GetWeightVal No bl =
     (if length bl < 3 then WeightVal No bl 0 []
      else do {
        (w1, o1) \<leftarrow> WeightVal No bl 0 [];
        (w2, o2) \<leftarrow> WeightVal No (rev bl) 0 [];
        Some (if w2 < w1 then (w2, o2)
              else if w2 > w1 then (w1, o1)
              else (w1, o1 @ fresh_in o2 o1)) })"

subsection \<open>What a penalty means\<close>

text \<open>
  \<open>deficit k c\<close>: the tiles \<open>c\<close> (rank to count) split into complete melds (triplets, quads, runs
  of three) and leftovers whose penalties add up to \<open>k\<close>: 1 for a pair, 2 for a single tile.
\<close>

inductive deficit :: "int \<Rightarrow> (nat \<Rightarrow> int) \<Rightarrow> bool" where
  none: "deficit 0 (\<lambda>_. 0)"
| triplet: "deficit k c \<Longrightarrow> deficit k (c(i := c i + 3))"
| quad: "deficit k c \<Longrightarrow> deficit k (c(i := c i + 4))"
| run: "deficit k c \<Longrightarrow>
    deficit k (c(i := c i + 1, Suc i := c (Suc i) + 1, Suc (Suc i) := c (Suc (Suc i)) + 1))"
| pair: "deficit k c \<Longrightarrow> deficit (k + 1) (c(i := c i + 2))"
| single: "deficit k c \<Longrightarrow> deficit (k + 2) (c(i := c i + 1))"

text \<open>The tiles of \<open>No\<close> at the ranks \<open>bl\<close>.\<close>

definition held :: "int list \<Rightarrow> nat list \<Rightarrow> nat \<Rightarrow> int" where
  "held No bl = (\<lambda>i. if i \<in> set bl then No ! i else 0)"

lemma deficit_nonneg: "deficit k c \<Longrightarrow> 0 \<le> k"
  by (induction rule: deficit.induct) auto

lemma deficit_counts_nonneg: "deficit k c \<Longrightarrow> 0 \<le> c i"
  by (induction rule: deficit.induct) auto

lemma deficit_group:
  assumes "deficit k c" and "1 \<le> n" and "n \<le> 4"
  shows "deficit (k + (if n < 3 then 3 - n else 0)) (c(i := c i + n))"
proof -
  from assms consider "n = 1" | "n = 2" | "n = 3" | "n = 4" by linarith
  then show ?thesis
  proof cases
    case 1 then show ?thesis using deficit.single [OF assms(1), of i] by simp
  next
    case 2 then show ?thesis using deficit.pair [OF assms(1), of i] by simp
  next
    case 3 then show ?thesis using deficit.triplet [OF assms(1), of i] by simp
  next
    case 4 then show ?thesis using deficit.quad [OF assms(1), of i] by simp
  qed
qed

lemma deficit_run3:
  assumes "deficit k c" and "b = Suc a \<and> d = Suc b \<or> a = Suc b \<and> b = Suc d"
  shows "deficit k (c(a := c a + 1, b := c b + 1, d := c d + 1))"
  using assms deficit.run [of k c a] deficit.run [of k c d]
  by (auto simp: fun_upd_twist)

lemma deficit_add:
  "deficit k c \<Longrightarrow> deficit m e \<Longrightarrow> deficit (k + m) (\<lambda>i. c i + e i)"
proof (induction rule: deficit.induct)
  case none
  then show ?case by simp
next
  case (triplet k c i)
  have "(\<lambda>j. (c(i := c i + 3)) j + e j) = (\<lambda>j. c j + e j)(i := c i + e i + 3)"
    by (auto simp: fun_eq_iff)
  then show ?case using deficit.triplet [of "k + m" "\<lambda>i. c i + e i" i] triplet by simp
next
  case (quad k c i)
  have "(\<lambda>j. (c(i := c i + 4)) j + e j) = (\<lambda>j. c j + e j)(i := c i + e i + 4)"
    by (auto simp: fun_eq_iff)
  then show ?case using deficit.quad [of "k + m" "\<lambda>i. c i + e i" i] quad by simp
next
  case (run k c i)
  have "(\<lambda>j. (c(i := c i + 1, Suc i := c (Suc i) + 1, Suc (Suc i) := c (Suc (Suc i)) + 1)) j + e j) =
      (\<lambda>j. c j + e j)(i := c i + e i + 1, Suc i := c (Suc i) + e (Suc i) + 1,
        Suc (Suc i) := c (Suc (Suc i)) + e (Suc (Suc i)) + 1)"
    by (auto simp: fun_eq_iff)
  then show ?case using deficit.run [of "k + m" "\<lambda>i. c i + e i" i] run by simp
next
  case (pair k c i)
  have "(\<lambda>j. (c(i := c i + 2)) j + e j) = (\<lambda>j. c j + e j)(i := c i + e i + 2)"
    by (auto simp: fun_eq_iff)
  then show ?case using deficit.pair [of "k + m" "\<lambda>i. c i + e i" i] pair
    by (simp add: algebra_simps)
next
  case (single k c i)
  have "(\<lambda>j. (c(i := c i + 1)) j + e j) = (\<lambda>j. c j + e j)(i := c i + e i + 1)"
    by (auto simp: fun_eq_iff)
  then show ?case using deficit.single [of "k + m" "\<lambda>i. c i + e i" i] single
    by (simp add: algebra_simps)
qed

subsection \<open>Runs of neighbouring ranks\<close>

text \<open>
  What the callers guarantee of \<open>bl\<close>: neighbouring ranks, in one direction or the other, each
  inside the array and held between once and four times.
\<close>

definition ascending :: "nat list \<Rightarrow> bool" where
  "ascending bl \<longleftrightarrow> (\<forall>i. Suc i < length bl \<longrightarrow> bl ! Suc i = Suc (bl ! i))"

definition descending :: "nat list \<Rightarrow> bool" where
  "descending bl \<longleftrightarrow> (\<forall>i. Suc i < length bl \<longrightarrow> bl ! i = Suc (bl ! Suc i))"

definition ranks :: "int list \<Rightarrow> nat list \<Rightarrow> bool" where
  "ranks No bl \<longleftrightarrow> distinct bl \<and> (ascending bl \<or> descending bl) \<and>
     (\<forall>i \<in> set bl. i < length No \<and> 1 \<le> No ! i \<and> No ! i \<le> 4)"

lemma ascending_drop: "ascending bl \<Longrightarrow> ascending (drop n bl)"
  by (simp add: ascending_def)

lemma descending_drop: "descending bl \<Longrightarrow> descending (drop n bl)"
  by (simp add: descending_def)

lemma rev_nth_pair:
  "Suc i < length bl \<Longrightarrow> rev bl ! i = bl ! Suc (length bl - Suc (Suc i)) \<and>
     rev bl ! Suc i = bl ! (length bl - Suc (Suc i)) \<and> Suc (length bl - Suc (Suc i)) < length bl"
  by (auto simp: rev_nth Suc_diff_Suc)

lemma ascending_rev: "ascending bl \<Longrightarrow> descending (rev bl)"
  unfolding ascending_def descending_def by (metis length_rev rev_nth_pair)

lemma descending_rev: "descending bl \<Longrightarrow> ascending (rev bl)"
  unfolding ascending_def descending_def by (metis length_rev rev_nth_pair)

lemma ranks_rev: "ranks No bl \<Longrightarrow> ranks No (rev bl)"
  by (auto simp: ranks_def ascending_rev descending_rev)

lemma ranks_drop: "ranks No bl \<Longrightarrow> ranks No (drop n bl)"
  by (auto simp: ranks_def ascending_drop descending_drop dest: in_set_dropD)

lemma held_rev [simp]: "held No (rev bl) = held No bl"
  by (simp add: held_def)

lemma held_Cons: "i \<notin> set bl \<Longrightarrow> held No (i # bl) = (held No bl)(i := held No bl i + No ! i)"
  by (auto simp: held_def fun_eq_iff)

lemma held_update: "i \<notin> set bl \<Longrightarrow> held (No[i := v]) bl = held No bl"
  by (auto simp: held_def fun_eq_iff) (metis nth_list_update_neq)

text \<open>The number of tiles in play, which every recursive call reduces.\<close>

definition tiles_in :: "int list \<Rightarrow> nat list \<Rightarrow> nat" where
  "tiles_in No bl = sum_list (map (\<lambda>i. nat (No ! i)) bl)"

lemma tiles_in_rev [simp]: "tiles_in No (rev bl) = tiles_in No bl"
  by (simp add: tiles_in_def flip: rev_map)

lemma tiles_in_update: "i \<notin> set bl \<Longrightarrow> tiles_in (No[i := v]) bl = tiles_in No bl"
  unfolding tiles_in_def by (metis (no_types, lifting) map_eq_conv nth_list_update_neq)

text \<open>The shape of a leftover: its rank is one of \<open>bl\<close> and it has one score.\<close>

definition left_ok :: "nat list \<Rightarrow> MJGrain \<Rightarrow> bool" where
  "left_ok bl g \<longleftrightarrow> gr_H g = -1 \<and> gr_N g \<in> int ` set bl \<and> length (gr_O g) = 1"

lemma left_ok_leftover [simp]: "left_ok bl (leftover No i) \<longleftrightarrow> i \<in> set bl"
  by (auto simp: left_ok_def leftover_def)

lemma left_ok_mono: "left_ok bl g \<Longrightarrow> set bl \<subseteq> set bl' \<Longrightarrow> left_ok bl' g"
  by (auto simp: left_ok_def)

lemma weight_short_deficit:
  assumes "\<forall>i \<in> set bl. 1 \<le> No ! i \<and> No ! i \<le> 4" and "distinct bl"
  shows "\<exists>k og'. foldl (weight_short1 No) (w, og) bl = (w + k, og @ og') \<and> deficit k (held No bl) \<and>
    (\<forall>g \<in> set og'. left_ok bl g)"
  using assms
proof (induction bl arbitrary: w og)
  case Nil
  then show ?case by (auto simp: held_def intro: deficit.none)
next
  case (Cons i bl)
  let ?v = "if No ! i < 3 then 3 - No ! i else 0"
  let ?g = "if No ! i < 3 then [leftover No i] else []"
  have "weight_short1 No (w, og) i = (w + ?v, og @ ?g)"
    by (simp add: weight_short1_def Let_def)
  moreover obtain k og' where IH: "foldl (weight_short1 No) (w + ?v, og @ ?g) bl = (w + ?v + k, (og @ ?g) @ og')"
      "deficit k (held No bl)" "\<forall>g \<in> set og'. left_ok bl g"
    using Cons.IH [of "w + ?v" "og @ ?g"] Cons.prems by auto
  moreover have "deficit (k + ?v) (held No (i # bl))"
    using deficit_group [OF IH(2), of "No ! i" i] Cons.prems by (simp add: held_Cons)
  moreover have "\<forall>g \<in> set og'. left_ok (i # bl) g"
    using IH(3) by (auto simp: left_ok_def)
  ultimately show ?case
    by (intro exI [of _ "k + ?v"] exI [of _ "?g @ og'"]) auto
qed

subsection \<open>Taking a run\<close>

definition charge :: "int \<Rightarrow> int" where
  "charge n = (if n = 0 then 0 else 3 - n)"

lemma deficit_charge:
  assumes "deficit k c" and "0 \<le> n" and "n \<le> 3"
  shows "deficit (k + charge n) (c(i := c i + n))"
  using assms deficit_group [OF assms(1), of n i] by (auto simp: charge_def split: if_splits)

abbreviation take_run :: "int list \<Rightarrow> nat \<Rightarrow> nat \<Rightarrow> nat \<Rightarrow> int list" where
  "take_run No a b d \<equiv> No[d := No ! d - 1, b := No ! b - 1, a := No ! a - 1]"

lemma weight_run_result:
  assumes "distinct [a, b, d]" and "a < length No" and "b < length No" and "d < length No"
    and "No ! a \<le> 4" and "No ! b \<le> 4" and "1 \<le> No ! a" and "1 \<le> No ! b" 
  shows "\<exists>isb og'. foldl (weight_run1 (a # b # d # rest)) (No, False, 3, w, og) [2, 1, 0] =
      (take_run No a b d, isb,
       if No ! d = 1 then 3 else if No ! b = 1 then 2 else if No ! a = 1 then 1 else 0,
       w + (if No ! d = 1 then charge (No ! b - 1) + charge (No ! a - 1)
            else if No ! b = 1 then charge (No ! a - 1) else 0), og @ og')
    \<and> (\<forall>g \<in> set og'. left_ok (a # b # d # rest) g)"
  using assms
  by (auto simp: weight_run1_def Let_def charge_def leftover_def left_ok_def numeral_2_eq_2)

lemma ranks_first3:
  assumes "ranks No (a # b # d # rest)"
  shows "b = Suc a \<and> d = Suc b \<or> a = Suc b \<and> b = Suc d"
proof -
  let ?bl = "a # b # d # rest"
  have "ascending ?bl \<or> descending ?bl" using assms by (simp add: ranks_def)
  then show ?thesis
  proof
    assume "ascending ?bl"
    then have "?bl ! Suc 0 = Suc (?bl ! 0)" and "?bl ! Suc (Suc 0) = Suc (?bl ! Suc 0)"
      by (auto simp only: ascending_def) auto
    then show ?thesis by simp
  next
    assume "descending ?bl"
    then have "?bl ! 0 = Suc (?bl ! Suc 0)" and "?bl ! Suc 0 = Suc (?bl ! Suc (Suc 0))"
      by (auto simp only: descending_def) auto
    then show ?thesis by simp
  qed
qed

text \<open>Taking a run off the front keeps the ranks well-formed and leaves fewer tiles.\<close>

lemma take_run_ranks:
  assumes "ranks No (a # b # d # rest)" and "No ! a \<le> 2"
    and start: "start = (if No ! d = 1 then 3 else if No ! b = 1 then 2 else if No ! a = 1 then 1 else 0)"
  shows "ranks (take_run No a b d) (drop start (a # b # d # rest)) \<and>
    tiles_in (take_run No a b d) (drop start (a # b # d # rest)) < tiles_in No (a # b # d # rest)"
proof -
  let ?bl = "a # b # d # rest"
  have d: "a \<notin> set rest" "b \<notin> set rest" "d \<notin> set rest" "distinct [a, b, d]"
    and r: "a < length No" "b < length No" "d < length No" "1 \<le> No ! a" "1 \<le> No ! b" "1 \<le> No ! d"
      "No ! b \<le> 4" "No ! d \<le> 4"
    using assms(1) by (auto simp: ranks_def)
  define T where "T = take_run No a b d"
  have nth: "T ! i = No ! i" if "i \<in> set rest" for i
    unfolding T_def using that d by (metis nth_list_update_neq)
  have abd: "T ! a = No ! a - 1" "T ! b = No ! b - 1" "T ! d = No ! d - 1" "length T = length No"
    using d(4) r by (auto simp: T_def)
  have "\<forall>i \<in> set (drop start ?bl). 1 \<le> T ! i \<and> T ! i \<le> 4"
    using assms r abd by (auto simp: start ranks_def nth)
  moreover have "ranks No (drop start ?bl)"
    using assms(1) by (rule ranks_drop)
  ultimately have "ranks T (drop start ?bl)"
    by (auto simp: ranks_def abd)
  moreover have "tiles_in T rest = tiles_in No rest"
    unfolding T_def using d by (simp add: tiles_in_update)
  then have "tiles_in T (drop start ?bl) < tiles_in No ?bl"
    using r abd by (auto simp: start tiles_in_def)
  ultimately show ?thesis by (simp only: T_def)
qed

lemma take_run_deficit:
  assumes "ranks No (a # b # d # rest)" and "No ! a \<le> 2"
    and start: "start = (if No ! d = 1 then 3 else if No ! b = 1 then 2 else if No ! a = 1 then 1 else 0)"
    and k: "k = (if No ! d = 1 then charge (No ! b - 1) + charge (No ! a - 1)
       else if No ! b = 1 then charge (No ! a - 1) else 0)"
    and m: "deficit m (held (take_run No a b d) (drop start (a # b # d # rest)))"
  shows "deficit (m + k) (held No (a # b # d # rest))"
proof -
  let ?bl = "a # b # d # rest"
  let ?c = "held (take_run No a b d) (drop start ?bl)"
  let ?y = "if No ! d = 1 then No ! b - 1 else 0"
  let ?x = "if No ! d = 1 \<or> No ! b = 1 then No ! a - 1 else 0"
  let ?e = "?c(b := ?c b + ?y)"
  let ?f = "?e(a := ?e a + ?x)"
  have d: "a \<notin> set rest" "b \<notin> set rest" "d \<notin> set rest" "distinct [a, b, d]"
    and r: "a < length No" "b < length No" "d < length No" "1 \<le> No ! a" "1 \<le> No ! b" "1 \<le> No ! d"
      "No ! b \<le> 4"
    using assms(1) by (auto simp: ranks_def)
  have "deficit (m + charge ?y) ?e"
    by (rule deficit_charge [OF m]) (use r in auto)
  then have "deficit (m + charge ?y + charge ?x) ?f"
    by (rule deficit_charge) (use r assms(2) in auto)
  moreover have "m + charge ?y + charge ?x = m + k"
    by (simp add: k charge_def)
  ultimately have "deficit (m + k) ?f" by simp
  then have "deficit (m + k) (?f(a := ?f a + 1, b := ?f b + 1, d := ?f d + 1))"
    by (rule deficit_run3 [OF _ ranks_first3 [OF assms(1)]])
  moreover have "?f(a := ?f a + 1, b := ?f b + 1, d := ?f d + 1) = held No ?bl"
  proof -
    define T where "T = take_run No a b d"
    have "T ! i = No ! i" if "i \<in> set rest" for i
      unfolding T_def using that d by (metis nth_list_update_neq)
    moreover have "T ! a = No ! a - 1" "T ! b = No ! b - 1" "T ! d = No ! d - 1"
      using d(4) r by (auto simp: T_def)
    ultimately show ?thesis
      using d unfolding T_def [symmetric] by (auto simp: held_def fun_eq_iff start)
  qed
  ultimately show ?thesis by simp
qed

subsection \<open>The penalty returned by the code\<close>

lemma fresh_in_subset: "set (fresh_in xs ys) \<subseteq> set xs"
  by (auto simp: fresh_in_def)

text \<open>
  One unfolding of the code in the case that it takes a run off the first three ranks: what is left has fewer
  tiles, the charge \<open>k\<close> accounts for the ranks it dropped, and the rest is evaluated once when it is
  short and from both ends otherwise.
\<close>

lemma WeightVal_run_step:
  assumes "ranks No bl" and len: "3 \<le> length bl" "No ! (bl ! 0) \<le> 2"
  obtains T bl' k og1 where "ranks T bl'" "tiles_in T bl' < tiles_in No bl" "set bl' \<subseteq> set bl"
    "\<forall>g \<in> set og1. left_ok bl g" "\<And>m. deficit m (held T bl') \<Longrightarrow> deficit (m + k) (held No bl)"
    "length bl' < 3 \<Longrightarrow> WeightVal No bl w og = WeightVal T bl' (w + k) (og @ og1)"
    "\<And>x o1 y o2. 3 \<le> length bl' \<Longrightarrow> WeightVal T bl' 0 [] = Some (x, o1) \<Longrightarrow> WeightVal T (rev bl') 0 [] = Some (y, o2) \<Longrightarrow>
      WeightVal No bl w og = Some (if y < x then (y + (w + k), (og @ og1) @ o2)
        else if y > x then (x + (w + k), (og @ og1) @ o1) else (x + (w + k), (og @ og1) @ fresh_in o1 o2 @ o2))"
proof -
  obtain a b d rest where bl: "bl = a # b # d # rest"
    using len(1) by (metis Suc_le_length_iff numeral_3_eq_3)
  have r: "distinct [a, b, d]" "a < length No" "b < length No" "d < length No" "No ! a \<le> 4" "No ! b \<le> 4"
      "1 \<le> No ! a" "1 \<le> No ! b" "No ! a \<le> 2"
    using assms by (auto simp: bl ranks_def)
  define T where "T = take_run No a b d"
  define start where "start = (if No ! d = 1 then 3 else if No ! b = 1 then 2 else if No ! a = 1 then 1 else 0 :: nat)"
  define k where "k = (if No ! d = 1 then charge (No ! b - 1) + charge (No ! a - 1)
     else if No ! b = 1 then charge (No ! a - 1) else 0)"
  obtain isb og1 where "foldl (weight_run1 bl) (No, False, 3, w, og) [2, 1, 0] = (T, isb, start, w + k, og @ og1)"
    and og1: "\<forall>g \<in> set og1. left_ok bl g"
    using weight_run_result [OF r(1-8), of rest w og] that unfolding bl T_def start_def k_def by blast
  then have run: "foldl (weight_run1 bl) (No, False, 3, w, og) [2, Suc 0, 0] = (T, isb, start, w + k, og @ og1)"
    by (simp only: One_nat_def)
  have ne: "bl \<noteq> []" by (simp add: bl)
  have rest: "ranks T (drop start bl)" "tiles_in T (drop start bl) < tiles_in No bl"
    using take_run_ranks [OF assms(1) [unfolded bl] r(9), of start] by (simp_all add: bl T_def start_def)
  have total: "deficit (m + k) (held No bl)" if "deficit m (held T (drop start bl))" for m
    using take_run_deficit [OF assms(1) [unfolded bl] r(9), of start k m] that by (simp add: bl T_def start_def k_def)
  show thesis
  proof (rule that [OF rest set_drop_subset og1 total])
    assume "length (drop start bl) < 3"
    then show "WeightVal No bl w og = WeightVal T (drop start bl) (w + k) (og @ og1)"
      using len by (subst WeightVal.simps) (simp add: run ne del: foldl.simps)
  next
    fix x o1 y o2
    assume "3 \<le> length (drop start bl)" "WeightVal T (drop start bl) 0 [] = Some (x, o1)"
      "WeightVal T (rev (drop start bl)) 0 [] = Some (y, o2)"
    then show "WeightVal No bl w og = Some (if y < x then (y + (w + k), (og @ og1) @ o2)
        else if y > x then (x + (w + k), (og @ og1) @ o1) else (x + (w + k), (og @ og1) @ fresh_in o1 o2 @ o2))"
      using len by (subst WeightVal.simps) (simp add: run ne del: foldl.simps)
  qed
qed

lemma WeightVal_meaning:
  "ranks No bl \<Longrightarrow> \<exists>k og'. WeightVal No bl w og = Some (w + k, og @ og') \<and>
     deficit k (held No bl) \<and> (\<forall>g \<in> set og'. left_ok bl g)"
proof (induction "tiles_in No bl" arbitrary: No bl w og rule: less_induct)
  case less
  consider "length bl < 3" | "3 \<le> length bl" "No ! (bl ! 0) > 2" | "3 \<le> length bl" "No ! (bl ! 0) \<le> 2"
    by linarith
  then show ?case
  proof cases
    case 1
    moreover have "\<forall>i \<in> set bl. 1 \<le> No ! i \<and> No ! i \<le> 4" and "distinct bl"
      using less.prems by (auto simp: ranks_def)
    ultimately show ?thesis
      using weight_short_deficit [of bl No w og] by (subst WeightVal.simps) auto
  next
    case 2
    then obtain a bl' where bl: "bl = a # bl'" by (cases bl) auto
    have a: "a \<notin> set bl'" "3 \<le> No ! a" "No ! a \<le> 4" using less.prems 2 by (auto simp: bl ranks_def)
    have "tiles_in No bl' < tiles_in No bl" using a by (simp add: bl tiles_in_def)
    moreover have "ranks No bl'" using ranks_drop [OF less.prems, of 1] by (simp add: bl)
    ultimately obtain k og' where IH: "WeightVal No bl' w og = Some (w + k, og @ og')"
        "deficit k (held No bl')" "\<forall>g \<in> set og'. left_ok bl' g"
      using less.hyps by blast
    have "deficit k (held No bl)"
      using deficit_group [OF IH(2), of "No ! a" a] a by (simp add: bl held_Cons)
    moreover have "WeightVal No bl w og = Some (w + k, og @ og')"
      using 2 IH(1) by (subst WeightVal.simps) (simp add: bl)
    ultimately show ?thesis
      using IH(3) by (auto simp: bl left_ok_def)
  next
    case 3
    obtain T bl' k og1 where step: "ranks T bl'"
      "tiles_in T bl' < tiles_in No bl" "set bl' \<subseteq> set bl" "\<forall>g \<in> set og1. left_ok bl g"
      and total: "\<And>m. deficit m (held T bl') \<Longrightarrow> deficit (m + k) (held No bl)"
      and short: "length bl' < 3 \<Longrightarrow> WeightVal No bl w og = WeightVal T bl' (w + k) (og @ og1)"
      and long: "\<And>x o1 y o2. 3 \<le> length bl' \<Longrightarrow> WeightVal T bl' 0 [] = Some (x, o1) \<Longrightarrow>
        WeightVal T (rev bl') 0 [] = Some (y, o2) \<Longrightarrow> WeightVal No bl w og =
        Some (if y < x then (y + (w + k), (og @ og1) @ o2) else if y > x then (x + (w + k), (og @ og1) @ o1)
          else (x + (w + k), (og @ og1) @ fresh_in o1 o2 @ o2))"
      by (rule WeightVal_run_step [OF less.prems 3, of w og]) (rule that)
    show ?thesis
    proof (cases "length bl' < 3")
      case True
      obtain m og2 where "WeightVal T bl' (w + k) (og @ og1) = Some (w + k + m, (og @ og1) @ og2)"
          "deficit m (held T bl')" "\<forall>g \<in> set og2. left_ok bl' g"
        using less.hyps [OF step(2,1)] by blast
      then show ?thesis
        using short [OF True] total step(3,4) by (intro exI [of _ "m + k"] exI [of _ "og1 @ og2"]) (auto dest: left_ok_mono)
    next
      case False
      obtain x o1 where 1: "WeightVal T bl' 0 [] = Some (x, o1)" "deficit x (held T bl')" "\<forall>g \<in> set o1. left_ok bl g"
        using less.hyps [OF step(2,1), of 0 "[]"] step(3) left_ok_mono by fastforce
      obtain y o2 where 2: "WeightVal T (rev bl') 0 [] = Some (y, o2)" "deficit y (held T bl')" "\<forall>g \<in> set o2. left_ok bl g"
        using less.hyps [of T "rev bl'" 0 "[]"] step ranks_rev [OF step(1)] left_ok_mono by fastforce
      show ?thesis
        using long [OF _ 1(1) 2(1)] False total [OF 1(2)] total [OF 2(2)] step(4) 1(3) 2(3) fresh_in_subset [of o1 o2]
        by (cases x y rule: linorder_cases) (auto simp: algebra_simps subset_iff)
    qed
  qed
qed

lemma GetWeightVal_meaning:
  assumes "ranks No bl"
  shows "\<exists>k og. GetWeightVal No bl = Some (k, og) \<and> deficit k (held No bl) \<and>
    (\<forall>g \<in> set og. left_ok bl g)"
proof (cases "length bl < 3")
  case True
  then show ?thesis
    using WeightVal_meaning [OF assms, of 0 "[]"] by (auto simp: GetWeightVal_def)
next
  case False
  obtain k1 o1 where 1: "WeightVal No bl 0 [] = Some (k1, o1)" "deficit k1 (held No bl)"
      "\<forall>g \<in> set o1. left_ok bl g"
    using WeightVal_meaning [OF assms, of 0 "[]"] by auto
  obtain k2 o2 where 2: "WeightVal No (rev bl) 0 [] = Some (k2, o2)" "deficit k2 (held No bl)"
      "\<forall>g \<in> set o2. left_ok bl g"
    using WeightVal_meaning [OF ranks_rev [OF assms], of 0 "[]"] by (auto simp: left_ok_def)
  show ?thesis
    using False 1 2 fresh_in_subset [of o2 o1]
    by (cases k1 k2 rule: linorder_cases) (auto simp: GetWeightVal_def subset_iff)
qed

text \<open>
  C23. The hand evaluator always returns on a run of neighbouring ranks held one to four times,
  and the penalty it returns is the penalty of a real decomposition of those tiles: melds cost
  nothing, each leftover pair costs 1 and each leftover single tile costs 2.
\<close>

theorem GetWeightVal_decomposes:
  assumes "ranks No bl"
  shows "\<exists>k og. GetWeightVal No bl = Some (k, og) \<and> deficit k (held No bl) \<and>
    (\<forall>g \<in> set og. left_ok bl g)"
  using assms by (rule GetWeightVal_meaning)

theorem GetWeightVal_decomposes_witness:
  "\<exists>k og. GetWeightVal [3, 1, 1, 0, 0, 0, 0, 0, 0] [0, 1, 2] = Some (k, og) \<and>
    deficit k (held [3, 1, 1, 0, 0, 0, 0, 0, 0] [0, 1, 2])"
  using GetWeightVal_decomposes [of "[3, 1, 1, 0, 0, 0, 0, 0, 0]" "[0, 1, 2]"]
  by (auto simp: ranks_def ascending_def less_Suc_eq)

text \<open>Evaluation of closed calls.\<close>

lemmas weight_eval = WeightVal.simps weight_run1_def weight_short1_def leftover_def fresh_in_def
  GetWeightVal_def Let_def

text \<open>
  The evaluator is not complete. In the ranks 2, 1, 1, 4 the pair, the run and the triplet
  leave a penalty of 1, yet the code takes the four equal tiles first from either side and
  returns 2: a finished hand is reported as unfinished.
\<close>

lemma GetWeightVal_misses_win:
  "deficit 1 (held [0, 0, 0, 0, 0, 2, 1, 1, 4] [5, 6, 7, 8]) \<and>
   map_option fst (GetWeightVal [0, 0, 0, 0, 0, 2, 1, 1, 4] [5, 6, 7, 8]) = Some 2"
proof
  have "deficit (0 + 1) ((\<lambda>_. 0)(5 := 0 + 2))"
    by (intro deficit.pair deficit.none)
  then have "deficit 1 ((\<lambda>_. 0)(5 := 2, 8 := 3))"
    using deficit.triplet [of 1 "(\<lambda>_. 0)(5 := 2)" 8] by simp
  then have "deficit 1 ((\<lambda>_. 0)(5 := 2, 6 := 1, 7 := 1, 8 := 4))"
    using deficit.run [of 1 "(\<lambda>_. 0)(5 := 2, 8 := 3)" 6] by (simp add: fun_upd_twist)
  moreover have "(\<lambda>_. 0)(5 := 2, 6 := 1, 7 := 1, 8 := 4) = held [0, 0, 0, 0, 0, 2, 1, 1, 4] [5, 6, 7, 8]"
    by (auto simp: held_def fun_eq_iff)
  ultimately show "deficit 1 (held [0, 0, 0, 0, 0, 2, 1, 1, 4] [5, 6, 7, 8])" by simp
  show "map_option fst (GetWeightVal [0, 0, 0, 0, 0, 2, 1, 1, 4] [5, 6, 7, 8]) = Some 2"
    by (simp add: weight_eval cong: bind_weak_cong)
qed

end
