(* ===== verification/NewBlock.thy ===== *)
theory NewBlock
  imports Weight
begin

text \<open>
  One suit of the hand (\<^verbatim>\<open>src/mjai/NewBlock.go\<close>). In the code \<open>NewBlock.No\<close> is a slice of the
  row \<open>Public[3].Now[I]\<close>, so writing the row is writing the block's \<open>No\<close>; the model keeps
  the row in the player's state only and passes it to the operations that read \<open>self.No\<close>.
  The fields \<open>Child\<close>, \<open>We\<close>, \<open>SumWei\<close>, \<open>SumLen\<close> and \<open>W\<close> are caches computed by \<open>Update\<close>.
\<close>

record ChildBlock =
  chBl :: "nat list"
  Wei :: int
  chLen :: int

record NewBlock =
  nb_I :: nat
  Child :: "ChildBlock list"
  We :: "MJGrain list"
  SumWei :: int
  SumLen :: int
  nb_W :: int

definition new_ChildBlock :: ChildBlock where
  "new_ChildBlock = \<lparr>chBl = [], Wei = 0, chLen = 0\<rparr>"

definition new_NewBlock :: NewBlock where
  "new_NewBlock = \<lparr>nb_I = 0, Child = [], We = [], SumWei = 0, SumLen = 0, nb_W = 0\<rparr>"

definition SetWeight1 ::
  "int list \<Rightarrow> nat \<Rightarrow> int \<times> MJGrain list \<Rightarrow> ChildBlock \<Rightarrow> (int \<times> MJGrain list) go" where
  "SetWeight1 No i = (\<lambda>(sw, we) ch. do {
     (w, e) \<leftarrow> GetWeightVal No (chBl ch);
     Some (sw + w,
       we @ map (\<lambda>g. g\<lparr>gr_H := int i, gr_O := gr_O g @ [Wei ch, chLen ch]\<rparr>) e) })"

definition NewBlock_SetWeight :: "int list \<Rightarrow> NewBlock \<Rightarrow> NewBlock go" where
  "NewBlock_SetWeight No b = do {
     (w, we) \<leftarrow> foldM (SetWeight1 No (nb_I b)) (0, []) (Child b);
     Some (b\<lparr>nb_W := w, We := we\<rparr>) }"

type_synonym scan_state = "ChildBlock \<times> ChildBlock list \<times> int \<times> int"

text \<open>One iteration of the loop of \<open>Update\<close>: a zero count closes the current child.\<close>

definition Update1 :: "scan_state \<Rightarrow> nat \<times> int \<Rightarrow> scan_state" where
  "Update1 = (\<lambda>(child, Ch, sl, sw) (j, n).
     if n = 0 then
       (if Wei child > 0 then (new_ChildBlock, Ch @ [child], sl + chLen child, sw + Wei child)
        else (child, Ch, sl, sw))
     else (child\<lparr>chBl := chBl child @ [j], chLen := chLen child + n, Wei := Wei child + 1\<rparr>, Ch, sl, sw))"

definition NewBlock_Update :: "int list \<Rightarrow> NewBlock \<Rightarrow> NewBlock go" where
  "NewBlock_Update No b =
     (case foldl Update1 (new_ChildBlock, [], 0, 0) (enumerate 0 No) of (child, Ch, sl, sw) \<Rightarrow>
       (let (Ch, sl, sw) = (if Wei child > 0 then (Ch @ [child], sl + chLen child, sw + Wei child)
                            else (Ch, sl, sw)) in
        NewBlock_SetWeight No (b\<lparr>Child := Ch, SumLen := sl, SumWei := sw\<rparr>)))"

definition NewBlock_Init :: "int list \<Rightarrow> nat \<Rightarrow> NewBlock \<Rightarrow> NewBlock go" where
  "NewBlock_Init no i b = NewBlock_Update no (b\<lparr>nb_I := i\<rparr>)"

text \<open>
  \<open>SortNewBlock\<close> works on an array of pointers to blocks; \<open>deref\<close> reads a pointer and panics
  on nil.
\<close>

fun SortNewBlock :: "('p \<Rightarrow> NewBlock go) \<Rightarrow> 'p list \<Rightarrow> nat \<Rightarrow> 'p list go" where
  "SortNewBlock deref bs 0 = Some bs"
| "SortNewBlock deref bs (Suc j) = do {
     pi \<leftarrow> idx bs (int (Suc j));
     pj \<leftarrow> idx bs (int j);
     bi \<leftarrow> deref pi;
     bj \<leftarrow> deref pj;
     SortNewBlock deref (if SumLen bi < SumLen bj then swap_down bs j else bs) j }"

interpretation blocks: insertion_pass "SortNewBlock deref" "\<lambda>p. SumLen (the (deref p))" "\<lambda>p. deref p \<noteq> None"
  for deref
proof unfold_locales
  fix i :: nat and xs
  assume "Suc i < length xs" and "deref (xs ! Suc i) \<noteq> None" and "deref (xs ! i) \<noteq> None"
  moreover from this obtain bi bj where "deref (xs ! Suc i) = Some bi" and "deref (xs ! i) = Some bj"
    by blast
  ultimately show "SortNewBlock deref xs (Suc i) = SortNewBlock deref
      (if SumLen (the (deref (xs ! Suc i))) < SumLen (the (deref (xs ! i))) then swap_down xs i else xs) i"
    by simp
qed simp

subsection \<open>What Update computes\<close>

definition child_ok :: "int list \<Rightarrow> ChildBlock \<Rightarrow> bool" where
  "child_ok No c \<longleftrightarrow> ascending (chBl c) \<and> Wei c = int (length (chBl c)) \<and>
     chLen c = sum_list (map (\<lambda>i. No ! i) (chBl c)) \<and>
     (\<forall>i \<in> set (chBl c). i < length No \<and> No ! i \<noteq> 0)"

definition nonzero :: "int list \<Rightarrow> nat \<Rightarrow> nat list" where
  "nonzero No n = filter (\<lambda>j. No ! j \<noteq> 0) [0..<n]"

text \<open>A run is maximal when neither the rank before it nor the rank after it is held.\<close>

definition starts_run :: "int list \<Rightarrow> nat list \<Rightarrow> bool" where
  "starts_run No js \<longleftrightarrow> hd js = 0 \<or> No ! (hd js - 1) = 0"

definition ends_run :: "int list \<Rightarrow> nat list \<Rightarrow> bool" where
  "ends_run No js \<longleftrightarrow> Suc (last js) = length No \<or> No ! Suc (last js) = 0"

definition scan_inv :: "int list \<Rightarrow> nat \<Rightarrow> scan_state \<Rightarrow> bool" where
  "scan_inv No n = (\<lambda>(child, Ch, sl, sw).
     concat (map chBl Ch) @ chBl child = nonzero No n \<and>
     (\<forall>c \<in> set (child # Ch). child_ok No c) \<and> (\<forall>c \<in> set Ch. chBl c \<noteq> [] \<and> starts_run No (chBl c) \<and> ends_run No (chBl c)) \<and>
     (if chBl child = [] then n = 0 \<or> No ! (n - 1) = 0
      else Suc (last (chBl child)) = n \<and> starts_run No (chBl child)) \<and>
     sl = sum_list (map chLen Ch) \<and> sw = sum_list (map Wei Ch))"

lemma ascending_Nil [simp]: "ascending []"
  by (simp add: ascending_def)

lemma ascending_snoc:
  assumes "ascending xs" and "xs = [] \<or> Suc (last xs) = j"
  shows "ascending (xs @ [j])"
  unfolding ascending_def
proof (intro allI impI)
  fix i assume "Suc i < length (xs @ [j])"
  then consider "Suc i < length xs" | "Suc i = length xs" by fastforce
  then show "(xs @ [j]) ! Suc i = Suc ((xs @ [j]) ! i)"
  proof cases
    case 1
    then show ?thesis using assms(1) by (simp add: ascending_def nth_append)
  next
    case 2
    then have "last xs = xs ! i" by (metis diff_Suc_1 last_conv_nth length_0_conv nat.distinct(1))
    with 2 assms(2) show ?thesis by (auto simp: nth_append)
  qed
qed

lemma child_ok_new: "child_ok No new_ChildBlock"
  by (simp add: child_ok_def new_ChildBlock_def ascending_def)

lemma nonzero_Suc: "nonzero No (Suc n) = nonzero No n @ (if No ! n = 0 then [] else [n])"
  by (simp add: nonzero_def)

lemma scan_inv_step:
  assumes "scan_inv No n s" and "n < length No"
  shows "scan_inv No (Suc n) (Update1 s (n, No ! n))"
proof -
  obtain child Ch sl sw where s: "s = (child, Ch, sl, sw)" by (cases s)
  have ok: "child_ok No child" and "Wei child = int (length (chBl child))"
    using assms(1) by (auto simp: s scan_inv_def child_ok_def)
  show ?thesis
  proof (cases "No ! n = 0")
    case True
    with assms(1) ok show ?thesis
      by (cases "chBl child = []")
        (auto simp: s scan_inv_def Update1_def nonzero_Suc child_ok_new new_ChildBlock_def child_ok_def ends_run_def)
  next
    case False
    have "ascending (chBl child)" "chBl child = [] \<or> Suc (last (chBl child)) = n"
      using assms(1) ok by (auto simp: s scan_inv_def child_ok_def split: if_splits)
    then have "ascending (chBl child @ [n])" by (rule ascending_snoc)
    moreover have "starts_run No (chBl child @ [n])"
      using assms(1) by (cases "chBl child") (auto simp: s scan_inv_def starts_run_def)
    ultimately show ?thesis using False assms ok
      by (auto simp: s scan_inv_def Update1_def nonzero_Suc child_ok_def)
  qed
qed

lemma scan_inv_prefix:
  "n \<le> length No \<Longrightarrow> scan_inv No n (foldl Update1 (new_ChildBlock, [], 0, 0) (take n (enumerate 0 No)))"
proof (induction n)
  case 0
  then show ?case
    by (simp add: scan_inv_def child_ok_new nonzero_def new_ChildBlock_def child_ok_def ascending_def)
next
  case (Suc n)
  then have "take (Suc n) (enumerate 0 No) = take n (enumerate 0 No) @ [(n, No ! n)]"
    by (simp add: take_Suc_conv_app_nth nth_enumerate_eq)
  with Suc scan_inv_step show ?case by simp
qed

text \<open>
  The children of a synced block: the maximal runs of ranks that are held, in ascending order. Each is a
  non-empty run of consecutive held ranks, no neighbour of a run is held, and together they are
  all held ranks.
\<close>

definition children_of :: "int list \<Rightarrow> ChildBlock list \<Rightarrow> bool" where
  "children_of No Ch \<longleftrightarrow> concat (map chBl Ch) = nonzero No (length No) \<and>
     (\<forall>c \<in> set Ch. child_ok No c \<and> chBl c \<noteq> [] \<and> starts_run No (chBl c) \<and> ends_run No (chBl c))"

lemma scan_result:
  obtains Ch where "NewBlock_Update No b = NewBlock_SetWeight No
      (b\<lparr>Child := Ch, SumLen := sum_list (map chLen Ch), SumWei := sum_list (map Wei Ch)\<rparr>)"
    and "children_of No Ch"
proof -
  obtain child Ch sl sw where
    s: "foldl Update1 (new_ChildBlock, [], 0, 0) (enumerate 0 No) = (child, Ch, sl, sw)"
    by (metis surj_pair)
  have inv: "scan_inv No (length No) (child, Ch, sl, sw)"
    using scan_inv_prefix [of "length No" No] s by simp
  then have "Wei child > 0 \<longleftrightarrow> chBl child \<noteq> []"
    by (auto simp: scan_inv_def child_ok_def)
  moreover define Ch' where "Ch' = (if Wei child > 0 then Ch @ [child] else Ch)"
  ultimately have "children_of No Ch'" and "sum_list (map chLen Ch') = (if Wei child > 0 then sl + chLen child else sl)"
    and "sum_list (map Wei Ch') = (if Wei child > 0 then sw + Wei child else sw)"
    using inv by (auto simp: scan_inv_def children_of_def ends_run_def)
  then show ?thesis
    using that [of Ch'] by (simp add: NewBlock_Update_def s Ch'_def Let_def split: if_splits)
qed

subsection \<open>The weight of a suit\<close>

definition counts_ok :: "int list \<Rightarrow> bool" where
  "counts_ok No \<longleftrightarrow> length No = 9 \<and> (\<forall>n \<in> set No. 0 \<le> n \<and> n \<le> 4)"

text \<open>The tiles of one suit as a rank-to-count function.\<close>

definition suit_tiles :: "int list \<Rightarrow> nat \<Rightarrow> int" where
  "suit_tiles No i = (if i < length No then No ! i else 0)"

lemma children_ranks:
  assumes "children_of No Ch" and "counts_ok No" and "c \<in> set Ch"
  shows "ranks No (chBl c)"
proof -
  have "distinct (concat (map chBl Ch))"
    using assms(1) by (simp add: children_of_def nonzero_def)
  then have "distinct (chBl c)"
    using assms(3) by (simp add: distinct_concat_iff)
  moreover have ok: "child_ok No c"
    using assms(1,3) by (simp add: children_of_def)
  moreover have "1 \<le> No ! i \<and> No ! i \<le> 4" if "i \<in> set (chBl c)" for i
  proof -
    have "i < length No" "No ! i \<noteq> 0" using ok that by (auto simp: child_ok_def)
    moreover from this(1) have "0 \<le> No ! i \<and> No ! i \<le> 4"
      using assms(2) by (auto simp: counts_ok_def nonzero_def upt_rec)
    ultimately show ?thesis by linarith
  qed
  ultimately show ?thesis by (auto simp: ranks_def child_ok_def)
qed

definition grain_ok :: "int list \<Rightarrow> nat \<Rightarrow> MJGrain \<Rightarrow> bool" where
  "grain_ok No i g \<longleftrightarrow> gr_H g = int i \<and>
     (\<exists>j. gr_N g = int j \<and> j < length No \<and> No ! j > 0) \<and> length (gr_O g) = 3"

lemma held_append:
  "distinct (xs @ ys) \<Longrightarrow> held No (xs @ ys) = (\<lambda>i. held No xs i + held No ys i)"
  by (auto simp: held_def fun_eq_iff)

lemma SetWeight_fold:
  assumes "\<forall>c \<in> set Ch. ranks No (chBl c)" and "distinct (concat (map chBl Ch))"
  shows "\<exists>k og. foldM (SetWeight1 No i) (w, we) Ch = Some (w + k, we @ og) \<and>
    deficit k (held No (concat (map chBl Ch))) \<and> (\<forall>g \<in> set og. grain_ok No i g)"
  using assms
proof (induction Ch arbitrary: w we)
  case Nil
  then show ?case by (auto simp: held_def intro: deficit.none)
next
  case (Cons c Ch)
  obtain k e where c: "GetWeightVal No (chBl c) = Some (k, e)" "deficit k (held No (chBl c))"
      "\<forall>g \<in> set e. left_ok (chBl c) g"
    using GetWeightVal_meaning [of No "chBl c"] Cons.prems(1) by auto
  define e' where "e' = map (\<lambda>g. g\<lparr>gr_H := int i, gr_O := gr_O g @ [Wei c, chLen c]\<rparr>) e"
  obtain k' og where IH: "foldM (SetWeight1 No i) (w + k, we @ e') Ch = Some (w + k + k', (we @ e') @ og)"
      "deficit k' (held No (concat (map chBl Ch)))" "\<forall>g \<in> set og. grain_ok No i g"
    using Cons.IH [of "w + k" "we @ e'"] Cons.prems by auto
  have "SetWeight1 No i (w, we) c = Some (w + k, we @ e')"
    using c(1) by (simp add: SetWeight1_def e'_def)
  moreover have "\<forall>g \<in> set e'. grain_ok No i g"
    using c(3) Cons.prems(1) by (fastforce simp: e'_def grain_ok_def left_ok_def ranks_def)
  moreover have "deficit (k + k') (held No (concat (map chBl (c # Ch))))"
    using deficit_add [OF c(2) IH(2)] Cons.prems(2)
    by (simp add: held_append del: held_def)
  ultimately show ?case
    using IH by (intro exI [of _ "k + k'"] exI [of _ "e' @ og"]) (auto simp: add.assoc)
qed

lemma set_nonzero: "set (nonzero No (length No)) = {j. j < length No \<and> No ! j \<noteq> 0}"
  by (auto simp: nonzero_def)

lemma held_nonzero: "held No (nonzero No (length No)) = suit_tiles No"
  by (auto simp: held_def suit_tiles_def set_nonzero fun_eq_iff)

lemma sum_nonzero: "sum_list (map (\<lambda>j. No ! j) (nonzero No n)) = sum_list (map (\<lambda>j. No ! j) [0..<n])"
  by (induction n) (auto simp: nonzero_def)

lemma children_sums:
  assumes "\<forall>c \<in> set Ch. child_ok No c"
  shows "sum_list (map chLen Ch) = sum_list (map (\<lambda>j. No ! j) (concat (map chBl Ch)))"
    and "sum_list (map Wei Ch) = int (length (concat (map chBl Ch)))"
  using assms by (induction Ch) (auto simp: child_ok_def)

lemma Update_facts:
  assumes "counts_ok No"
  shows "\<exists>b'. NewBlock_Update No b = Some b' \<and> nb_I b' = nb_I b \<and> children_of No (Child b') \<and>
    SumLen b' = sum_list No \<and> SumWei b' = int (length (nonzero No (length No))) \<and>
    deficit (nb_W b') (suit_tiles No) \<and> (\<forall>g \<in> set (We b'). grain_ok No (nb_I b) g)"
proof -
  obtain Ch where eq: "NewBlock_Update No b = NewBlock_SetWeight No
      (b\<lparr>Child := Ch, SumLen := sum_list (map chLen Ch), SumWei := sum_list (map Wei Ch)\<rparr>)"
    and ch: "children_of No Ch"
    by (rule scan_result)
  have concat: "concat (map chBl Ch) = nonzero No (length No)" and ok: "\<forall>c \<in> set Ch. child_ok No c"
    using ch by (auto simp: children_of_def)
  have "\<forall>c \<in> set Ch. ranks No (chBl c)"
    using children_ranks [OF ch assms] by blast
  moreover have "distinct (concat (map chBl Ch))"
    by (simp add: concat nonzero_def)
  ultimately obtain k og where fold: "foldM (SetWeight1 No (nb_I b)) (0, []) Ch = Some (k, og)"
      "deficit k (suit_tiles No)" "\<forall>g \<in> set og. grain_ok No (nb_I b) g"
    using SetWeight_fold [of Ch No "nb_I b" 0 "[]"] by (auto simp: concat held_nonzero)
  have "sum_list (map chLen Ch) = sum_list No"
    using children_sums(1) [OF ok] by (simp add: concat sum_nonzero map_nth)
  moreover have "sum_list (map Wei Ch) = int (length (nonzero No (length No)))"
    using children_sums(2) [OF ok] by (simp add: concat)
  ultimately show ?thesis
    using fold ch by (simp add: eq NewBlock_SetWeight_def)
qed

text \<open>
  \<open>Update\<close> overwrites every cached field, so its result depends on the row and the suit only.
\<close>

lemma NewBlock_Update_cong: "nb_I b = nb_I c \<Longrightarrow> NewBlock_Update No b = NewBlock_Update No c"
  by (cases b; cases c)
    (simp add: NewBlock_Update_def NewBlock_SetWeight_def Let_def split: prod.split if_split)

definition synced :: "int list \<Rightarrow> NewBlock \<Rightarrow> bool" where
  "synced No b \<longleftrightarrow> NewBlock_Update No b = Some b"

lemma Update_nb_I: "NewBlock_Update No b = Some b' \<Longrightarrow> nb_I b' = nb_I b"
  by (auto simp: NewBlock_Update_def NewBlock_SetWeight_def Let_def go_simps
      split: prod.splits if_splits)

lemma Update_synced: "NewBlock_Update No b = Some b' \<Longrightarrow> synced No b'"
  unfolding synced_def using NewBlock_Update_cong [OF Update_nb_I] by metis

lemma synced_facts:
  assumes "synced No b" and "counts_ok No"
  shows "children_of No (Child b)" and "SumLen b = sum_list No" and "deficit (nb_W b) (suit_tiles No)"
    and "SumWei b = int (length (nonzero No (length No)))" and "\<forall>g \<in> set (We b). grain_ok No (nb_I b) g"
  using Update_facts [OF assms(2), of b] assms(1) by (auto simp: synced_def)

lemma SetWeight_Child: "NewBlock_SetWeight No b = Some b' \<Longrightarrow> Child b' = Child b"
  by (auto simp: NewBlock_SetWeight_def go_simps)

lemma Update_Child:
  assumes "NewBlock_Update No b = Some b'"
  shows "Child b' = (case foldl Update1 (new_ChildBlock, [], 0, 0) (enumerate 0 No) of (child, Ch, _) \<Rightarrow>
    if Wei child > 0 then Ch @ [child] else Ch)"
  using assms by (auto simp: NewBlock_Update_def Let_def dest!: SetWeight_Child split: prod.splits if_splits)

text \<open>
  C24. Updating a suit whose counts are between 0 and 4 always succeeds; its children are exactly
  the maximal runs of ranks held, in ascending order, with the number of ranks and of tiles of each, \<open>SumLen\<close> and \<open>SumWei\<close> count tiles and distinct ranks, the
  weight is the penalty of a decomposition of the whole suit, and every discard candidate is a
  tile the suit holds.
\<close>

theorem NewBlock_Update_spec:
  assumes "counts_ok No"
  shows "\<exists>b'. NewBlock_Update No b = Some b' \<and> nb_I b' = nb_I b \<and> children_of No (Child b') \<and>
    SumLen b' = sum_list No \<and> SumWei b' = int (length (nonzero No (length No))) \<and>
    deficit (nb_W b') (suit_tiles No) \<and> (\<forall>g \<in> set (We b'). grain_ok No (nb_I b) g)"
  using assms by (rule Update_facts)

theorem NewBlock_Update_spec_witness:
  "\<exists>b'. NewBlock_Update [1, 1, 1, 0, 2, 0, 0, 0, 0] new_NewBlock = Some b' \<and> nb_I b' = nb_I new_NewBlock \<and>
    map chBl (Child b') = [[0, 1, 2], [4]] \<and>
    SumLen b' = 5 \<and> SumWei b' = 4 \<and>
    deficit (nb_W b') (suit_tiles [1, 1, 1, 0, 2, 0, 0, 0, 0])"
proof -
  obtain b' where b': "NewBlock_Update [1, 1, 1, 0, 2, 0, 0, 0, 0] new_NewBlock = Some b'" "nb_I b' = nb_I new_NewBlock"
      "SumLen b' = 5" "SumWei b' = 4" "deficit (nb_W b') (suit_tiles [1, 1, 1, 0, 2, 0, 0, 0, 0])"
    using NewBlock_Update_spec [of "[1, 1, 1, 0, 2, 0, 0, 0, 0]" new_NewBlock] by (auto simp: counts_ok_def nonzero_def upt_rec)
  have "map chBl (Child b') = [[0, 1, 2], [4]]"
    unfolding Update_Child [OF b'(1)] by (simp add: Update1_def new_ChildBlock_def)
  with b' show ?thesis by (intro exI [of _ b'] conjI)
qed

end
