(* ===== verification/Mjai.thy ===== *)
theory Mjai
  imports NewBlock Comm
begin

text \<open>
  The Mahjong player (\<^verbatim>\<open>src/mjai/Ai.go\<close>, lines 72--771): what it knows of the four seats, the
  cached evaluation of its own hand, and the decisions it takes (which suit to give up, which
  tiles to pass on, what to discard, how to answer another player's discard).

  State. \<open>Public[3]\<close> is the player itself. \<open>Blocks\<close> is the array of block pointers in the
  order that \<open>SortNewBlock\<close> leaves them, \<open>BlocksMap\<close> finds a block by suit; both hold the same
  three objects, so a pointer is modelled by the suit it was created for (\<open>None\<close> is nil) and the
  objects live in \<open>BlocksMap\<close>. The row \<open>No\<close> of block \<open>i\<close> is \<open>Public[3].Now[i]\<close> itself.
\<close>

type_synonym grid = "int list list"

record UserPublic =
  Now :: grid
  See :: grid
  Down :: grid
  Inv :: int
  IsF :: bool
  LastSee :: int
  NowVal :: int
  TmpNowVal :: int

record Ai =
  Public :: "UserPublic option list"
  BaseVal :: int
  SumVal :: int
  LastPublicId :: int
  ai_LastForData :: "byte list list"
  Blocks :: "nat option list"
  BlocksMap :: "nat \<rightharpoonup> NewBlock"
  Room :: int
  ai_BeginTime :: int
  ai_Property :: int
  ai_Host :: int
  SeeList :: "byte list list"

definition zero_grid :: grid where
  "zero_grid = replicate 3 (replicate 9 0)"

definition new_UserPublic :: UserPublic where
  "new_UserPublic = \<lparr>Now = zero_grid, See = zero_grid, Down = zero_grid, Inv = 0, IsF = False,
     LastSee = 0, NowVal = 0, TmpNowVal = 0\<rparr>"

definition new_Ai :: Ai where
  "new_Ai = \<lparr>Public = [None, None, None, None], BaseVal = 0, SumVal = 0, LastPublicId = 0,
     ai_LastForData = [[], []], Blocks = [None, None, None], BlocksMap = Map.empty, Room = 0,
     ai_BeginTime = 0, ai_Property = 0, ai_Host = 0, SeeList = []\<rparr>"

subsection \<open>Cells, seats and block pointers\<close>

definition cell :: "grid \<Rightarrow> int \<Rightarrow> int \<Rightarrow> int go" where
  "cell g h n = do { row \<leftarrow> idx g h; idx row n }"

definition set_cell :: "grid \<Rightarrow> int \<Rightarrow> int \<Rightarrow> int \<Rightarrow> grid go" where
  "set_cell g h n v = do { row \<leftarrow> idx g h; row' \<leftarrow> upd row n v; upd g h row' }"

definition seat :: "Ai \<Rightarrow> int \<Rightarrow> UserPublic go" where
  "seat a nid = do { p \<leftarrow> idx (Public a) nid; p }"

definition set_seat :: "Ai \<Rightarrow> int \<Rightarrow> UserPublic \<Rightarrow> Ai go" where
  "set_seat a nid p = do { ps \<leftarrow> upd (Public a) nid (Some p); Some (a\<lparr>Public := ps\<rparr>) }"

definition now_at :: "Ai \<Rightarrow> int \<Rightarrow> int \<Rightarrow> int go" where
  "now_at a h n = do { p \<leftarrow> seat a 3; cell (Now p) h n }"

definition set_now :: "Ai \<Rightarrow> int \<Rightarrow> int \<Rightarrow> int \<Rightarrow> Ai go" where
  "set_now a h n v = do {
     p \<leftarrow> seat a 3;
     g \<leftarrow> set_cell (Now p) h n v;
     set_seat a 3 (p\<lparr>Now := g\<rparr>) }"

definition block_at :: "Ai \<Rightarrow> int \<Rightarrow> NewBlock go" where
  "block_at a i = (if i < 0 then None else BlocksMap a (nat i))"

definition deref :: "Ai \<Rightarrow> nat option \<Rightarrow> NewBlock go" where
  "deref a p = do { i \<leftarrow> p; BlocksMap a i }"

definition block_No :: "Ai \<Rightarrow> nat \<Rightarrow> int list go" where
  "block_No a i = do { p \<leftarrow> seat a 3; idx (Now p) (int i) }"

text \<open>\<open>bl.Update()\<close> on the block of suit \<open>i\<close>.\<close>

definition update_block :: "Ai \<Rightarrow> nat \<Rightarrow> Ai go" where
  "update_block a i = do {
     b \<leftarrow> BlocksMap a i;
     No \<leftarrow> block_No a i;
     b' \<leftarrow> NewBlock_Update No b;
     Some (a\<lparr>BlocksMap := (BlocksMap a)(i \<mapsto> b')\<rparr>) }"

subsection \<open>Setting up\<close>

definition UserPublic_Init :: "UserPublic \<Rightarrow> UserPublic" where
  "UserPublic_Init p = p\<lparr>IsF := False, Inv := -1, LastSee := -1, NowVal := 0,
     See := zero_grid, Down := zero_grid, Now := zero_grid\<rparr>"

text \<open>\<open>SetNow\<close> also returns the bytes that are not tiles.\<close>

definition SetNow1 :: "grid \<times> int list \<Rightarrow> byte \<Rightarrow> (grid \<times> int list) go" where
  "SetNow1 = (\<lambda>(now, yu) s.
     let n = uint s in
     if n < 27 then do {
       v \<leftarrow> cell now (n div 9) (n mod 9);
       now' \<leftarrow> set_cell now (n div 9) (n mod 9) (v + 1);
       Some (now', yu) }
     else Some (now, yu @ [n]))"

definition SetNow :: "byte list \<Rightarrow> UserPublic \<Rightarrow> (int list \<times> UserPublic) go" where
  "SetNow str p = do {
     (now, yu) \<leftarrow> foldM SetNow1 (zero_grid, []) str;
     Some (yu, p\<lparr>Now := now\<rparr>) }"

definition Ai_Init :: "Ai \<Rightarrow> Ai" where
  "Ai_Init a = a\<lparr>
     Public := map (\<lambda>p. Some (UserPublic_Init (case p of None \<Rightarrow> new_UserPublic | Some q \<Rightarrow> q))) (Public a),
     LastPublicId := -1,
     SeeList := []\<rparr>"

definition GetDiscard :: "Ai \<Rightarrow> int go" where
  "GetDiscard a = do {
     p0 \<leftarrow> idx (Blocks a) 0;  b0 \<leftarrow> deref a p0;
     p1 \<leftarrow> idx (Blocks a) 1;  b1 \<leftarrow> deref a p1;
     Some (int (
       if SumLen b0 \<noteq> SumLen b1 then nb_I b0
       else if SumWei b0 > SumWei b1 then nb_I b0
       else if SumWei b0 < SumWei b1 then nb_I b1
       else if length (Child b0) > length (Child b1) then nb_I b0
       else if length (Child b0) < length (Child b1) then nb_I b1
       else nb_I b0)) }"

text \<open>One iteration of the loop of \<open>InitNow\<close>; \<open>bl\<close> comes from the copy of the array that
  \<open>range\<close> makes.\<close>

definition InitNow1 :: "Ai \<Rightarrow> nat \<times> nat option \<Rightarrow> Ai go" where
  "InitNow1 a = (\<lambda>(i, bl). do {
     a \<leftarrow> (case bl of
        None \<Rightarrow> do {
          No \<leftarrow> block_No a i;
          b \<leftarrow> NewBlock_Init No i new_NewBlock;
          bs \<leftarrow> upd (Blocks a) (int i) (Some i);
          Some (a\<lparr>Blocks := bs, BlocksMap := (BlocksMap a)(i \<mapsto> b)\<rparr>) }
      | Some k \<Rightarrow> update_block a k);
     bs \<leftarrow> SortNewBlock (deref a) (Blocks a) i;
     Some (a\<lparr>Blocks := bs\<rparr>) })"

definition choose_Inv :: "Ai \<Rightarrow> Ai go" where
  "choose_Inv a = do {
     p \<leftarrow> seat a 3;
     (if Inv p = -1 then do { v \<leftarrow> GetDiscard a; set_seat a 3 (p\<lparr>Inv := v\<rparr>) } else Some a) }"

definition InitNow :: "byte list \<Rightarrow> Ai \<Rightarrow> Ai go" where
  "InitNow str a = do {
     p \<leftarrow> seat a 3;
     (yu, p) \<leftarrow> SetNow str p;
     a \<leftarrow> set_seat a 3 p;
     a \<leftarrow> foldM InitNow1 a (enumerate 0 (Blocks a));
     choose_Inv a }"

definition ReloadSelfInv :: "Ai \<Rightarrow> Ai go" where
  "ReloadSelfInv a = do {
     v \<leftarrow> GetDiscard a;
     p \<leftarrow> seat a 3;
     set_seat a 3 (p\<lparr>Inv := v\<rparr>) }"

subsection \<open>Observations of the other players\<close>

definition SetLastSee :: "int \<Rightarrow> int \<Rightarrow> Ai \<Rightarrow> Ai go" where
  "SetLastSee uid n a = do {
     p \<leftarrow> seat a uid;
     a \<leftarrow> set_seat a uid (p\<lparr>LastSee := n\<rparr>);
     Some (a\<lparr>LastPublicId := uid\<rparr>) }"

definition GetLastSee :: "Ai \<Rightarrow> int go" where
  "GetLastSee a = (if LastPublicId a < 0 \<or> LastPublicId a > 2 then Some (-1)
     else do { p \<leftarrow> seat a (LastPublicId a); Some (LastSee p) })"

definition SetNowVal :: "int \<Rightarrow> int \<Rightarrow> Ai \<Rightarrow> Ai go" where
  "SetNowVal nid n a = do { p \<leftarrow> seat a nid; set_seat a nid (p\<lparr>NowVal := n\<rparr>) }"

definition GetNowVal :: "int \<Rightarrow> Ai \<Rightarrow> int go" where
  "GetNowVal nid a = do { p \<leftarrow> seat a nid; Some (NowVal p) }"

definition SetValid :: "int \<Rightarrow> int \<Rightarrow> Ai \<Rightarrow> Ai go" where
  "SetValid nid n a = do { p \<leftarrow> seat a nid; set_seat a nid (p\<lparr>Inv := n\<rparr>) }"

definition GetValid :: "int \<Rightarrow> Ai \<Rightarrow> int go" where
  "GetValid nid a = do { p \<leftarrow> seat a nid; Some (Inv p) }"

definition SetSumVal :: "int \<Rightarrow> Ai \<Rightarrow> Ai" where
  "SetSumVal n a = a\<lparr>SumVal := n\<rparr>"

definition SetBaseVal :: "int \<Rightarrow> Ai \<Rightarrow> Ai" where
  "SetBaseVal n a = a\<lparr>BaseVal := n\<rparr>"

text \<open>Callers pass \<open>0 \<le> n\<close>, where Go's \<open>/\<close> and \<open>%\<close> agree with \<open>div\<close> and \<open>mod\<close>.\<close>

definition SetPublicDown :: "int \<Rightarrow> int \<Rightarrow> int \<Rightarrow> Ai \<Rightarrow> Ai go" where
  "SetPublicDown nid n v a = do {
     p \<leftarrow> seat a nid;
     g \<leftarrow> set_cell (Down p) (n div 9) (n mod 9) v;
     set_seat a nid (p\<lparr>Down := g\<rparr>) }"

definition SetPublicSee :: "int \<Rightarrow> int \<Rightarrow> Ai \<Rightarrow> Ai go" where
  "SetPublicSee nid n a = do {
     p \<leftarrow> seat a nid;
     v \<leftarrow> cell (See p) (n div 9) (n mod 9);
     g \<leftarrow> set_cell (See p) (n div 9) (n mod 9) (v + 1);
     a \<leftarrow> set_seat a nid (p\<lparr>See := g\<rparr>);
     SetLastSee nid n a }"

text \<open>The backward scan for the last tile another seat discarded.\<close>

fun last_seen :: "byte \<Rightarrow> byte list list \<Rightarrow> byte list option" where
  "last_seen b0 [] = None"
| "last_seen b0 (e # es) = (if e ! 0 \<noteq> b0 \<and> e ! 2 < 27 then Some e else last_seen b0 es)"

definition SetSeeList :: "byte list \<Rightarrow> Ai \<Rightarrow> Ai go" where
  "SetSeeList b a = do {
     b0 \<leftarrow> idx b 0;
     b2 \<leftarrow> idx b 2;
     let n = uint b0;
     a \<leftarrow> (if b2 < 27 then SetPublicSee n (uint b2) a
          else (case last_seen b0 (rev (SeeList a)) of
                  None \<Rightarrow> Some a
                | Some lastDB \<Rightarrow>
                    if b ! 1 = lastDB ! 1 then SetPublicDown n (uint (lastDB ! 2)) 2 a else Some a));
     v \<leftarrow> slice_from b 3;
     a \<leftarrow> SetNowVal n (ByteToInt v) a;
     let a = SetSumVal (uint (b ! 1)) a;
     Some (a\<lparr>SeeList := SeeList a @ [b]\<rparr>) }"

definition GetFullVal :: "int \<Rightarrow> Ai \<Rightarrow> (int \<times> Ai) go" where
  "GetFullVal n a = do {
     p \<leftarrow> seat a 3;
     (if n = 0 \<or> BaseVal a = 0 \<or> NowVal p = 0 then Some (0, a)
      else do {
        a' \<leftarrow> set_seat a 3 (p\<lparr>TmpNowVal := n\<rparr>);
        val \<leftarrow> go_div (wrap64 (NowVal p - n)) (BaseVal a);
        Some (if val > 100 then 0 else val, a') }) }"

text \<open>Bookkeeping that no decision reads; \<open>now\<close> is the clock, \<open>peer\<close> the text of the peer's address.\<close>

definition Ai_SetHost :: "string \<Rightarrow> Ai \<Rightarrow> Ai" where
  "Ai_SetHost peer a = a\<lparr>ai_Host := StringIpToInt peer\<rparr>"

definition Ai_GetHost :: "Ai \<Rightarrow> int" where
  "Ai_GetHost a = ai_Host a"

definition GetProperty :: "Ai \<Rightarrow> int" where
  "GetProperty a = ai_Property a"

definition SetProperty :: "int \<Rightarrow> Ai \<Rightarrow> Ai" where
  "SetProperty v a = a\<lparr>ai_Property := v\<rparr>"

definition GetBeginTimeDiff :: "int \<Rightarrow> Ai \<Rightarrow> int" where
  "GetBeginTimeDiff now a = wrap64 (now - ai_BeginTime a)"

definition UpdateBeginTime :: "int \<Rightarrow> Ai \<Rightarrow> Ai" where
  "UpdateBeginTime now a = a\<lparr>ai_BeginTime := now\<rparr>"

definition SetLastUid :: "int \<Rightarrow> Ai \<Rightarrow> Ai" where
  "SetLastUid uid a = a\<lparr>LastPublicId := uid\<rparr>"

definition SetLastForData :: "int \<Rightarrow> byte list \<Rightarrow> Ai \<Rightarrow> Ai go" where
  "SetLastForData n s a = do { l \<leftarrow> upd (ai_LastForData a) n s; Some (a\<lparr>ai_LastForData := l\<rparr>) }"

definition GetLastForData :: "Ai \<Rightarrow> byte list list" where
  "GetLastForData a = ai_LastForData a"

text \<open>\<open>GetPublicNum\<close> adds up what is visible of a tile over all four seats.\<close>

definition public_num1 :: "MJGrain \<Rightarrow> int \<Rightarrow> UserPublic option \<Rightarrow> int go" where
  "public_num1 gr n pu = do {
     p \<leftarrow> pu;
     d \<leftarrow> cell (Down p) (gr_H gr) (gr_N gr);
     s \<leftarrow> cell (See p) (gr_H gr) (gr_N gr);
     Some (n + d + s) }"

definition GetPublicNum :: "MJGrain \<Rightarrow> bool \<Rightarrow> Ai \<Rightarrow> int go" where
  "GetPublicNum gr isNow a = do {
     n \<leftarrow> (if isNow then now_at a (gr_H gr) (gr_N gr) else Some 0);
     foldM (public_num1 gr) n (Public a) }"

end
