(* ===== verification/MjaiPlay.thy ===== *)
theory MjaiPlay
  imports Mjai
begin

text \<open>
  The decisions of the Mahjong player (\<^verbatim>\<open>src/mjai/Ai.go\<close>, lines 225--234 and 310--771, and
  \<open>RunFind\<close> and \<open>GetMJGrainList\<close> of \<^verbatim>\<open>src/mjai/NewBlock.go\<close>): is the hand complete, which tiles
  would complete it, what to discard, how to answer a discard.
\<close>

definition UpdateBlocksWeight :: "bool \<Rightarrow> nat \<Rightarrow> nat \<Rightarrow> int \<Rightarrow> Ai \<Rightarrow> Ai go" where
  "UpdateBlocksWeight add i j n a = do {
     v \<leftarrow> now_at a (int i) (int j);
     a \<leftarrow> set_now a (int i) (int j) (if add then v + n else v - n);
     update_block a i }"

subsection \<open>checkFull\<close>

record full_acc =
  fa_w :: int
  fa_dui :: int
  fa_dan :: int
  fa_qing :: int
  fa_f :: int

definition full_tile :: "int list \<Rightarrow> full_acc \<Rightarrow> nat \<Rightarrow> full_acc" where
  "full_tile No s j = (let n = No ! j in
     if n = 2 then s\<lparr>fa_dui := fa_dui s + 1\<rparr>
     else if n = 4 then s\<lparr>fa_dui := fa_dui s + 2, fa_f := fa_f s + 1\<rparr>
     else if n = 1 then s\<lparr>fa_dan := fa_dan s + 1\<rparr>
     else s)"

text \<open>One block of the first loop; \<open>Some ()\<close> is the early \<open>return 0\<close>.\<close>

definition full_block :: "UserPublic \<Rightarrow> Ai \<Rightarrow> full_acc \<Rightarrow> nat option \<Rightarrow> (unit option \<times> full_acc) go" where
  "full_block p a s ptr = do {
     b \<leftarrow> deref a ptr;
     (if int (nb_I b) = Inv p \<and> SumLen b > 0 then Some (Some (), s)
      else do {
        No \<leftarrow> idx (Now p) (int (nb_I b));
        let s = s\<lparr>fa_w := fa_w s + nb_W b\<rparr>;
        let s = foldl (full_tile No) s (concat (map chBl (Child b)));
        (if SumLen b > 0 then Some (None, s\<lparr>fa_qing := fa_qing s + 1\<rparr>)
         else do {
           row \<leftarrow> idx (Down p) (int (nb_I b));
           Some (None, if list_ex (\<lambda>n. n > 0) row then s\<lparr>fa_qing := fa_qing s + 1\<rparr> else s) }) }) }"

text \<open>The loop over the declared sets: three or more of a tile, or a pair that is still extended
  by a tile in hand, adds one.\<close>

definition down_row :: "int list \<Rightarrow> int list \<Rightarrow> int" where
  "down_row now down = int (length (filter (\<lambda>j. down ! j > 2 \<or> down ! j = 2 \<and> now ! j > 0) [0..<length down]))"

definition down_bonus :: "UserPublic \<Rightarrow> int" where
  "down_bonus p = sum_list (map (\<lambda>i. down_row (Now p ! i) (Down p ! i)) [0..<length (Down p)])"

definition max_bonus :: "int \<Rightarrow> UserPublic option list \<Rightarrow> int go" where
  "max_bonus f ps = foldM (\<lambda>f pu. do { p \<leftarrow> pu; Some (if IsF p then f + f else f) }) (f + 1) ps"

definition checkFull :: "bool \<Rightarrow> Ai \<Rightarrow> int go" where
  "checkFull isMax a = do {
     p \<leftarrow> seat a 3;
     (early, s) \<leftarrow> findM (full_block p a) \<lparr>fa_w = 0, fa_dui = 0, fa_dan = 0, fa_qing = 0, fa_f = 1\<rparr> (Blocks a);
     (if early \<noteq> None then Some 0
      else if fa_w s \<noteq> 1 \<and> fa_dui s \<noteq> 7 then Some 0
      else do {
        let f = (if fa_qing s = 1 \<or> fa_dui s = 7 then 4 else fa_f s);
        let f = (if fa_dan s = 0 \<and> fa_dui s = 1 then f * 2 else f);
        let f = f + down_bonus p;
        (if isMax then max_bonus f (take 3 (Public a)) else Some f) }) }"

subsection \<open>CheckJiao: which tiles complete the hand\<close>

definition jiao_rank :: "int \<Rightarrow> bool \<Rightarrow> nat \<Rightarrow> MJGrain list \<times> Ai \<Rightarrow> nat \<Rightarrow> (MJGrain list \<times> Ai) go" where
  "jiao_rank isf isM i = (\<lambda>(gr, a) j. do {
     n \<leftarrow> now_at a (int i) (int j);
     (if n = 4 then Some (gr, a)
      else do {
        a \<leftarrow> set_now a (int i) (int j) (n + 1);
        a \<leftarrow> update_block a i;
        fn \<leftarrow> checkFull isM a;
        gr \<leftarrow> (if fn > 0 \<and> fn \<ge> isf
              then SortdGrain (gr @ [\<lparr>gr_H = int i, gr_N = int j, gr_O = [fn]\<rparr>]) (length gr) 0
              else Some gr);
        v \<leftarrow> now_at a (int i) (int j);
        a \<leftarrow> set_now a (int i) (int j) (v - 1);
        Some (gr, a) }) })"

definition jiao_block ::
  "int \<Rightarrow> bool \<Rightarrow> MJGrain list \<times> Ai \<Rightarrow> nat option \<Rightarrow> (unit option \<times> MJGrain list \<times> Ai) go" where
  "jiao_block isf isM = (\<lambda>(gr, a) ptr. do {
     i \<leftarrow> ptr;
     b \<leftarrow> deref a ptr;
     p \<leftarrow> seat a 3;
     (if int (nb_I b) = Inv p
      then Some (if SumLen b > 0 then Some () else None, gr, a)
      else do {
        No \<leftarrow> block_No a i;
        (gr, a) \<leftarrow> foldM (jiao_rank isf isM i) (gr, a) [0..<length No];
        a \<leftarrow> update_block a i;
        Some (None, gr, a) }) })"

definition CheckJiao :: "int \<Rightarrow> bool \<Rightarrow> Ai \<Rightarrow> (MJGrain list \<times> Ai) go" where
  "CheckJiao isf isM a = do {
     (early, gr, a) \<leftarrow> findM (jiao_block isf isM) ([], a) (Blocks a);
     Some (if early \<noteq> None then [] else gr, a) }"

subsection \<open>CheckAllJiao: which discard leaves a hand one tile short of complete\<close>

type_synonym jiao_acc = "MJGrain list \<times> MJGrain list \<times> Ai"  \<comment> \<open>for4, jiao, state\<close>

definition remaining :: "Ai \<Rightarrow> int \<Rightarrow> MJGrain \<Rightarrow> int go" where
  "remaining a n1 g = do { v \<leftarrow> GetPublicNum g True a; Some (n1 + (4 - v)) }"

definition alljiao_rank :: "int \<Rightarrow> nat \<Rightarrow> jiao_acc \<Rightarrow> nat \<Rightarrow> jiao_acc go" where
  "alljiao_rank isf i = (\<lambda>(for4, jiao, a) j. do {
     n \<leftarrow> now_at a (int i) (int j);
     a \<leftarrow> set_now a (int i) (int j) (n - 1);
     a \<leftarrow> update_block a i;
     (gs, a) \<leftarrow> CheckJiao isf True a;
     v \<leftarrow> now_at a (int i) (int j);
     a \<leftarrow> set_now a (int i) (int j) (v + 1);
     (case gs of
        [] \<Rightarrow> Some (for4, jiao, a)
      | g0 # _ \<Rightarrow> do {
          n1 \<leftarrow> foldM (remaining a) 0 gs;
          pub \<leftarrow> GetPublicNum \<lparr>gr_H = int i, gr_N = int j, gr_O = []\<rparr> False a;
          best \<leftarrow> idx (gr_O g0) 0;
          cnt \<leftarrow> now_at a (int i) (int j);
          let gr = \<lparr>gr_H = int i, gr_N = int j,
                    gr_O = [int (length gs), n1, if pub > 0 then 1 else 0, best, cnt]\<rparr>;
          Some (if cnt > (if isf > 0 then 1 else 2) then (for4 @ [gr], jiao, a)
                else (for4, jiao @ [gr], a)) }) })"

definition alljiao_block :: "int \<Rightarrow> jiao_acc \<Rightarrow> nat option \<Rightarrow> jiao_acc go" where
  "alljiao_block isf = (\<lambda>(for4, jiao, a) ptr. do {
     i \<leftarrow> ptr;
     b \<leftarrow> deref a ptr;
     (for4, jiao, a) \<leftarrow> foldM (alljiao_rank isf i) (for4, jiao, a) (concat (map chBl (Child b)));
     a \<leftarrow> update_block a i;
     Some (for4, jiao, a) })"

definition CheckAllJiao :: "int \<Rightarrow> Ai \<Rightarrow> (MJGrain option \<times> Ai) go" where
  "CheckAllJiao isf a = do {
     (for4, jiao, a) \<leftarrow> foldM (alljiao_block isf) ([], [], a) (Blocks a);
     (if jiao \<noteq> [] then do {
        g \<leftarrow> SortGrainArrs jiao 0 [True, True, True, True, False]; Some (Some g, a) }
      else if for4 \<noteq> [] \<and> isf \<le> 0 then do {
        g \<leftarrow> SortGrainArrs for4 0 [True, True, True, True, False]; Some (Some g, a) }
      else Some (None, a)) }"

subsection \<open>SelfSee: declare a win or a fourth tile before discarding\<close>

definition selfsee_rank :: "int \<Rightarrow> nat \<Rightarrow> int list \<Rightarrow> Ai \<Rightarrow> nat \<Rightarrow> (int option \<times> Ai) go" where
  "selfsee_rank isf i no a j = (let n = no ! j in
     if n = 0 then Some (None, a)
     else if n = 4 then Some (Some 32, a)
     else do {
       p \<leftarrow> seat a 3;
       d \<leftarrow> cell (Down p) (int i) (int j);
       (if d = 0 then Some (None, a)
        else if n > 1 then do {
          g \<leftarrow> set_cell (Down p) (int i) (int j) 0;
          a \<leftarrow> set_seat a 3 (p\<lparr>Down := g\<rparr>);
          Some (None, a) }
        else do {
          (gr1, a) \<leftarrow> CheckJiao isf True a;
          (if gr1 = [] then Some (Some 32, a)
           else do {
             a \<leftarrow> UpdateBlocksWeight False i j n a;
             (gr2, a) \<leftarrow> CheckJiao isf True a;
             Some (if gr2 \<noteq> [] then Some 32 else None, a) }) }) })"

definition selfsee_suit :: "int \<Rightarrow> Ai \<Rightarrow> nat \<times> int list \<Rightarrow> (int option \<times> Ai) go" where
  "selfsee_suit isf a = (\<lambda>(i, no). do {
     p \<leftarrow> seat a 3;
     (if int i = Inv p then Some (None, a)
      else findM (selfsee_rank isf i no) a [0..<length no]) })"

definition SelfSee :: "int \<Rightarrow> int \<Rightarrow> Ai \<Rightarrow> (int \<times> Ai) go" where
  "SelfSee isf cOut a = do {
     f \<leftarrow> (if cOut = -1 then checkFull True a else Some 0);
     (if f > 0 then Some (33, a)
      else do {
        p \<leftarrow> seat a 3;
        (r, a) \<leftarrow> findM (selfsee_suit isf) a (enumerate 0 (Now p));
        Some (case r of Some v \<Rightarrow> v | None \<Rightarrow> cOut, a) }) }"

subsection \<open>EasyOuts and Outs: what to discard\<close>

definition grain_of :: "Ai \<Rightarrow> nat \<Rightarrow> int list \<Rightarrow> ChildBlock \<Rightarrow> MJGrain list \<Rightarrow> nat \<Rightarrow> MJGrain list go" where
  "grain_of a i No ch gs j = do {
     v \<leftarrow> GetPublicNum \<lparr>gr_H = int i, gr_N = int j, gr_O = []\<rparr> False a;
     Some (gs @ [\<lparr>gr_H = int i, gr_N = int j, gr_O = [No ! j, v, Wei ch, chLen ch]\<rparr>]) }"

definition GetMJGrainList :: "Ai \<Rightarrow> int list \<Rightarrow> NewBlock \<Rightarrow> MJGrain list go" where
  "GetMJGrainList a No b =
     foldM (\<lambda>gs ch. foldM (grain_of a (nb_I b) No ch) gs (chBl ch)) [] (Child b)"

definition EasyOuts :: "Ai \<Rightarrow> MJGrain go" where
  "EasyOuts a = do {
     grs \<leftarrow> foldM (\<lambda>grs ptr. do {
         b \<leftarrow> deref a ptr;
         No \<leftarrow> block_No a (nb_I b);
         gs \<leftarrow> GetMJGrainList a No b;
         Some (grs @ gs) }) [] (Blocks a);
     SortGrainArrs grs 0 [False, True, False, False] }"

text \<open>\<open>RunFind\<close> appends the visible count to the score columns of the block's own candidates.\<close>

definition RunFind :: "Ai \<Rightarrow> NewBlock \<Rightarrow> NewBlock go" where
  "RunFind a b = do {
     we \<leftarrow> foldM (\<lambda>gs g. do { v \<leftarrow> GetPublicNum g False a; Some (gs @ [g\<lparr>gr_O := gr_O g @ [v]\<rparr>]) }) [] (We b);
     Some (b\<lparr>We := we\<rparr>) }"

definition runfind_block :: "MJGrain list \<times> Ai \<Rightarrow> nat option \<Rightarrow> (MJGrain list \<times> Ai) go" where
  "runfind_block = (\<lambda>(grs, a) ptr. do {
     i \<leftarrow> ptr;
     b \<leftarrow> deref a ptr;
     (if SumLen b = 0 then Some (grs, a)
      else do {
        b' \<leftarrow> RunFind a b;
        Some (grs @ We b', a\<lparr>BlocksMap := (BlocksMap a)(i \<mapsto> b')\<rparr>) }) })"

text \<open>The loop that empties a short suit when \<open>isf > 0\<close>; \<open>Some None\<close> is falling out of it.\<close>

fun flush_suit :: "Ai \<Rightarrow> int \<Rightarrow> nat option list \<Rightarrow> int option go" where
  "flush_suit a invs [] = Some None"
| "flush_suit a invs (ptr # ptrs) = do {
     i \<leftarrow> ptr;
     b \<leftarrow> deref a ptr;
     (if int i = invs then flush_suit a invs ptrs
      else if SumLen b < 3 then do {
        p \<leftarrow> seat a 3;
        row \<leftarrow> idx (Down p) (int (nb_I b));
        (if list_ex (\<lambda>n. n > 0) row then Some None
         else (case concat (map chBl (Child b)) of
             [] \<Rightarrow> flush_suit a invs ptrs
           | j # _ \<Rightarrow> Some (Some (int (nb_I b) * 9 + int j)))) }
      else flush_suit a invs ptrs) }"

definition tile_no :: "MJGrain \<Rightarrow> int" where
  "tile_no g = gr_H g * 9 + gr_N g"

definition outs_rank :: "int \<Rightarrow> Ai \<Rightarrow> (int \<times> Ai) go" where
  "outs_rank isf a = do {
     (grs, a) \<leftarrow> foldM runfind_block ([], a) (Blocks a);
     (if grs \<noteq> [] then do {
        g \<leftarrow> SortGrainArrs grs 0 [False, False, False, True];
        cnt \<leftarrow> (if isf > 0 then now_at a (gr_H g) (gr_N g) else Some 0);
        (if cnt > 1 then do { g \<leftarrow> EasyOuts a; Some (tile_no g, a) }
         else Some (tile_no g, a)) }
      else do { g \<leftarrow> EasyOuts a; Some (tile_no g, a) }) }"

definition Outs :: "int \<Rightarrow> bool \<Rightarrow> Ai \<Rightarrow> (int \<times> Ai) go" where
  "Outs isf No30 a = do {
     invs \<leftarrow> GetValid 3 a;
     InvBl \<leftarrow> block_at a invs;
     let out = (if SumLen InvBl > 0
                then (case concat (map chBl (Child InvBl)) of
                        [] \<Rightarrow> -1 | j # _ \<Rightarrow> int (nb_I InvBl) * 9 + int j)
                else -1);
     (out, a) \<leftarrow> (if No30 then SelfSee isf out a else Some (out, a));
     (if out > -1 then Some (out, a)
      else do {
        (gr, a) \<leftarrow> CheckAllJiao isf a;
        (case gr of
           Some g \<Rightarrow> Some (tile_no g, a)
         | None \<Rightarrow> do {
             r \<leftarrow> (if isf > 0 then flush_suit a invs (Blocks a) else Some None);
             (case r of Some t \<Rightarrow> Some (t, a) | None \<Rightarrow> outs_rank isf a) }) }) }"

subsection \<open>OutDiscard: the tiles passed on at the start\<close>

type_synonym discard_acc = "byte list \<times> int \<times> Ai"  \<comment> \<open>o, num, state\<close>

text \<open>\<open>for i := 0; i < n; i++\<close>; \<open>Some ()\<close> is \<open>break G\<close>.\<close>

fun discard_copies :: "nat \<Rightarrow> nat \<Rightarrow> nat \<Rightarrow> discard_acc \<Rightarrow> (unit option \<times> discard_acc) go" where
  "discard_copies 0 i j s = Some (None, s)"
| "discard_copies (Suc n) i j (out, num, a) = do {
     v \<leftarrow> now_at a (int i) (int j);
     a \<leftarrow> set_now a (int i) (int j) (v - 1);
     let s = (out @ [of_int (int i * 9 + int j)], num - 1, a);
     (if num - 1 = 0 then Some (Some (), s) else discard_copies n i j s) }"

definition discard_rank :: "nat \<Rightarrow> discard_acc \<Rightarrow> nat \<Rightarrow> (unit option \<times> discard_acc) go" where
  "discard_rank i = (\<lambda>(out, num, a) j. do {
     n \<leftarrow> now_at a (int i) (int j);
     discard_copies (nat n) i j (out, num, a) })"

text \<open>The final loop: the block caches are not updated between two calls of \<open>EasyOuts\<close>.\<close>

fun discard_easy :: "nat \<Rightarrow> byte list \<Rightarrow> Ai \<Rightarrow> (byte list \<times> Ai) go" where
  "discard_easy 0 out a = Some (out, a)"
| "discard_easy (Suc n) out a = do {
     g \<leftarrow> EasyOuts a;
     v \<leftarrow> now_at a (gr_H g) (gr_N g);
     a \<leftarrow> set_now a (gr_H g) (gr_N g) (v - 1);
     discard_easy n (out @ [of_int (tile_no g)]) a }"

definition OutDiscard :: "int \<Rightarrow> Ai \<Rightarrow> (byte list \<times> Ai) go" where
  "OutDiscard num a = do {
     a \<leftarrow> choose_Inv a;
     invs \<leftarrow> GetValid 3 a;
     b \<leftarrow> block_at a invs;
     (_, out, num, a) \<leftarrow> findM (discard_rank (nb_I b)) ([], num, a) (concat (map chBl (Child b)));
     a \<leftarrow> update_block a (nb_I b);
     discard_easy (nat num) out a }"

subsection \<open>SeeOuts: answering another player's discard\<close>

definition order_keys :: "byte list \<Rightarrow> byte list" where
  "order_keys key = foldl (\<lambda>ks k. if k > 3 then ks else ks[3 - unat k := k]) [5, 5, 5, 5] key"

definition seeouts_key :: "int \<Rightarrow> nat \<Rightarrow> nat \<Rightarrow> Ai \<Rightarrow> byte \<Rightarrow> (byte option \<times> Ai) go" where
  "seeouts_key isf i j a k =
     (if k = 3 then do {
        v \<leftarrow> now_at a (int i) (int j);
        a \<leftarrow> set_now a (int i) (int j) (v + 1);
        a \<leftarrow> update_block a i;
        f \<leftarrow> checkFull False a;
        Some (if f = 0 \<or> f > 0 \<and> f \<ge> isf then Some k else None, a) }
      else if k = 2 then Some (Some k, a)
      else if k = 1 then do {
        ns \<leftarrow> now_at a (int i) (int j);
        (if ns < 2 then Some (Some k, a)
         else do {
           (gr1, a) \<leftarrow> CheckJiao isf True a;
           (if gr1 = [] then Some (Some k, a)
            else do {
              a \<leftarrow> set_now a (int i) (int j) 0;
              a \<leftarrow> update_block a i;
              (g, a) \<leftarrow> CheckAllJiao isf a;
              Some (if g \<noteq> None then Some k else None, a) }) }) }
      else if k = 0 then Some (Some 0, a)
      else Some (None, a))"

definition SeeOuts :: "int \<Rightarrow> byte list \<Rightarrow> int \<Rightarrow> Ai \<Rightarrow> (byte \<times> Ai) go" where
  "SeeOuts v key isf a =
     (if v < 0 \<or> v > 26 then Some (0, a)
      else do {
        (r, a) \<leftarrow> findM (seeouts_key isf (nat v div 9) (nat v mod 9)) a (order_keys key);
        Some (case r of Some k \<Rightarrow> k | None \<Rightarrow> 0, a) })"

end
