(* ===== verification/MjaiInv.thy ===== *)
theory MjaiInv
  imports MjaiPlay
begin

text \<open>
  The invariant of the Mahjong player and how its primitive state changes act on it.
  \<open>ai_shape\<close>: four seats with \<open>3 \<times> 9\<close> tables. \<open>blocks_ok\<close>: the array holds the three block
  pointers in some order and every block belongs to its suit. \<open>hand_ok\<close>: between 0 and 4 copies of
  every tile. \<open>in_sync\<close>: every block cache is what \<open>Update\<close> would compute. \<open>ready\<close> is their
  conjunction, the state in which decisions are taken.
\<close>

definition grid_ok :: "grid \<Rightarrow> bool" where
  "grid_ok g \<longleftrightarrow> length g = 3 \<and> (\<forall>row \<in> set g. length row = 9)"

definition public_ok :: "UserPublic \<Rightarrow> bool" where
  "public_ok p \<longleftrightarrow> grid_ok (Now p) \<and> grid_ok (See p) \<and> grid_ok (Down p)"

definition ai_shape :: "Ai \<Rightarrow> bool" where
  "ai_shape a \<longleftrightarrow> length (Public a) = 4 \<and> (\<forall>p \<in> set (Public a). \<exists>q. p = Some q \<and> public_ok q)"

definition blocks_ok :: "Ai \<Rightarrow> bool" where
  "blocks_ok a \<longleftrightarrow> mset (Blocks a) = {#Some 0, Some 1, Some 2#} \<and>
     (\<forall>i < 3. \<exists>b. BlocksMap a i = Some b \<and> nb_I b = i)"

text \<open>The player's own seat and hand, and one cell of the hand.\<close>

definition me :: "Ai \<Rightarrow> UserPublic" where
  "me a = the (Public a ! 3)"

definition hand :: "Ai \<Rightarrow> nat \<Rightarrow> nat \<Rightarrow> int" where
  "hand a i j = Now (me a) ! i ! j"

definition hand_ok :: "Ai \<Rightarrow> bool" where
  "hand_ok a \<longleftrightarrow> (\<forall>row \<in> set (Now (me a)). counts_ok row)"

definition in_sync :: "Ai \<Rightarrow> bool" where
  "in_sync a \<longleftrightarrow> (\<forall>i < 3. synced (Now (me a) ! i) (the (BlocksMap a i)))"

definition ready :: "Ai \<Rightarrow> bool" where
  "ready a \<longleftrightarrow> ai_shape a \<and> blocks_ok a \<and> hand_ok a \<and> in_sync a"

lemma ready_shape: "ready a \<Longrightarrow> ai_shape a" "ready a \<Longrightarrow> blocks_ok a" "ready a \<Longrightarrow> hand_ok a"
    "ready a \<Longrightarrow> in_sync a"
  by (auto simp: ready_def)

subsection \<open>Reading\<close>

lemma seat_ok:
  assumes "ai_shape a" and "0 \<le> nid" and "nid < 4"
  shows "\<exists>p. seat a nid = Some p \<and> Public a ! nat nid = Some p \<and> public_ok p"
proof -
  have "nat nid < length (Public a)" using assms by (simp add: ai_shape_def)
  then have "Public a ! nat nid \<in> set (Public a)" by simp
  with assms show ?thesis by (auto simp: seat_def idx_def ai_shape_def)
qed

lemma seat_me: "ai_shape a \<Longrightarrow> seat a 3 = Some (me a)"
  using seat_ok [of a 3] by (auto simp: me_def)

lemma me_ok: "ai_shape a \<Longrightarrow> public_ok (me a)"
  using seat_ok [of a 3] by (auto simp: me_def)

lemma grid_rows: "grid_ok g \<Longrightarrow> i < 3 \<Longrightarrow> length (g ! i) = 9"
  by (simp add: grid_ok_def)

lemma grid_length: "grid_ok g \<Longrightarrow> length g = 3"
  by (simp add: grid_ok_def)

lemma now_grid: "ai_shape a \<Longrightarrow> grid_ok (Now (me a))"
  using me_ok by (auto simp: public_ok_def)

lemma down_grid: "ai_shape a \<Longrightarrow> grid_ok (Down (me a))"
  using me_ok by (auto simp: public_ok_def)

lemma cell_ok: "grid_ok g \<Longrightarrow> i < 3 \<Longrightarrow> j < 9 \<Longrightarrow> cell g (int i) (int j) = Some (g ! i ! j)"
  by (simp add: cell_def grid_length grid_rows)

lemma set_cell_ok:
  "grid_ok g \<Longrightarrow> i < 3 \<Longrightarrow> j < 9 \<Longrightarrow> set_cell g (int i) (int j) v = Some (g[i := (g ! i)[j := v]])"
  by (simp add: set_cell_def grid_length grid_rows)

lemma grid_ok_update: "grid_ok g \<Longrightarrow> i < 3 \<Longrightarrow> grid_ok (g[i := (g ! i)[j := v]])"
  by (fastforce simp: grid_ok_def dest!: subsetD [OF set_update_subset_insert])

lemma now_at_ok: "ai_shape a \<Longrightarrow> i < 3 \<Longrightarrow> j < 9 \<Longrightarrow> now_at a (int i) (int j) = Some (hand a i j)"
  by (simp add: now_at_def seat_me cell_ok now_grid hand_def)

lemma block_No_ok: "ai_shape a \<Longrightarrow> i < 3 \<Longrightarrow> block_No a i = Some (Now (me a) ! i)"
  by (simp add: block_No_def seat_me grid_length now_grid)

lemma hand_row: "ai_shape a \<Longrightarrow> hand_ok a \<Longrightarrow> i < 3 \<Longrightarrow> counts_ok (Now (me a) ! i)"
  using grid_length [OF now_grid] by (auto simp: hand_ok_def)

lemma hand_bounds:
  assumes "ai_shape a" and "hand_ok a" and "i < 3" and "j < 9"
  shows "0 \<le> hand a i j" and "hand a i j \<le> 4"
  using hand_row [OF assms(1-3)] assms(4) by (auto simp: counts_ok_def hand_def)

lemma in_Blocks: "blocks_ok a \<Longrightarrow> ptr \<in> set (Blocks a) \<longleftrightarrow> (\<exists>i < 3. ptr = Some i)"
proof -
  assume "blocks_ok a"
  then have "set (Blocks a) = set_mset {#Some 0, Some 1, Some 2#}"
    by (metis blocks_ok_def set_mset_mset)
  then show ?thesis by (auto simp: less_Suc_eq numeral_3_eq_3 numeral_2_eq_2)
qed

lemma block_ok: "blocks_ok a \<Longrightarrow> i < 3 \<Longrightarrow> \<exists>b. BlocksMap a i = Some b \<and> nb_I b = i"
  by (simp add: blocks_ok_def)

lemma deref_ok: "blocks_ok a \<Longrightarrow> i < 3 \<Longrightarrow> \<exists>b. deref a (Some i) = Some b \<and> BlocksMap a i = Some b \<and> nb_I b = i"
  using block_ok [of a i] by (auto simp: deref_def)

lemma length_Blocks: "blocks_ok a \<Longrightarrow> length (Blocks a) = 3"
  by (metis blocks_ok_def size_mset size_add_mset size_empty numeral_3_eq_3)

subsection \<open>Writing\<close>

text \<open>\<open>put\<close> writes one cell of the hand, \<open>with_block\<close> replaces one block object.\<close>

definition set_me :: "Ai \<Rightarrow> UserPublic \<Rightarrow> Ai" where
  "set_me a p = a\<lparr>Public := (Public a)[3 := Some p]\<rparr>"

definition put :: "Ai \<Rightarrow> nat \<Rightarrow> nat \<Rightarrow> int \<Rightarrow> Ai" where
  "put a i j v = set_me a ((me a)\<lparr>Now := (Now (me a))[i := (Now (me a) ! i)[j := v]]\<rparr>)"

definition with_block :: "Ai \<Rightarrow> nat \<Rightarrow> NewBlock \<Rightarrow> Ai" where
  "with_block a i b = a\<lparr>BlocksMap := (BlocksMap a)(i \<mapsto> b)\<rparr>"

lemma me_set_me [simp]: "ai_shape a \<Longrightarrow> me (set_me a p) = p"
  by (simp add: me_def set_me_def ai_shape_def)

lemma set_me_set_me [simp]: "set_me (set_me a p) q = set_me a q"
  by (simp add: set_me_def)

lemma set_me_me: "ai_shape a \<Longrightarrow> set_me a (me a) = a"
proof -
  assume "ai_shape a"
  then have "Public a ! 3 = Some (me a)"
    using seat_ok [of a 3] by (auto simp: me_def)
  then have "(Public a)[3 := Some (me a)] = Public a" by (metis list_update_id)
  then show ?thesis by (simp add: set_me_def)
qed

lemma set_seat_me: "ai_shape a \<Longrightarrow> set_seat a 3 p = Some (set_me a p)"
  by (simp add: set_seat_def set_me_def upd_def ai_shape_def)

lemma ai_shape_set_me: "ai_shape a \<Longrightarrow> public_ok p \<Longrightarrow> ai_shape (set_me a p)"
  by (fastforce simp: ai_shape_def set_me_def dest!: subsetD [OF set_update_subset_insert])

lemma set_me_simps [simp]:
  "Blocks (set_me a p) = Blocks a" "BlocksMap (set_me a p) = BlocksMap a"
  "deref (set_me a p) = deref a" "blocks_ok (set_me a p) = blocks_ok a"
  by (simp_all add: set_me_def deref_def [abs_def] blocks_ok_def)

lemma with_block_simps [simp]:
  "Public (with_block a i b) = Public a" "Blocks (with_block a i b) = Blocks a"
  "me (with_block a i b) = me a" "ai_shape (with_block a i b) = ai_shape a"
  "hand (with_block a i b) = hand a" "hand_ok (with_block a i b) = hand_ok a"
  "with_block (with_block a i b) i c = with_block a i c"
  "BlocksMap (with_block a i b) k = (if k = i then Some b else BlocksMap a k)"
  by (simp_all add: with_block_def me_def ai_shape_def hand_def [abs_def] hand_ok_def)

lemma with_block_self: "BlocksMap a i = Some b \<Longrightarrow> with_block a i b = a"
  by (simp add: with_block_def map_upd_triv)

lemma blocks_ok_with_block: "blocks_ok a \<Longrightarrow> nb_I b = i \<Longrightarrow> blocks_ok (with_block a i b)"
  by (auto simp: blocks_ok_def)

lemma put_simps [simp]:
  "Blocks (put a i j v) = Blocks a" "BlocksMap (put a i j v) = BlocksMap a"
  "deref (put a i j v) = deref a" "blocks_ok (put a i j v) = blocks_ok a"
  by (simp_all add: put_def)

lemma put_with_block: "put (with_block a i b) k j v = with_block (put a k j v) i b"
  by (simp add: put_def set_me_def with_block_def me_def)

lemma set_now_ok:
  "ai_shape a \<Longrightarrow> i < 3 \<Longrightarrow> j < 9 \<Longrightarrow> set_now a (int i) (int j) v = Some (put a i j v)"
  by (simp add: set_now_def seat_me set_cell_ok now_grid set_seat_me put_def)

lemma me_put: "ai_shape a \<Longrightarrow> me (put a i j v) = (me a)\<lparr>Now := (Now (me a))[i := (Now (me a) ! i)[j := v]]\<rparr>"
  by (simp add: put_def)

lemma ai_shape_put: "ai_shape a \<Longrightarrow> i < 3 \<Longrightarrow> ai_shape (put a i j v)"
  unfolding put_def by (rule ai_shape_set_me) (use me_ok in \<open>auto simp: public_ok_def grid_ok_update\<close>)

lemma put_put: "ai_shape a \<Longrightarrow> i < 3 \<Longrightarrow> j < 9 \<Longrightarrow> put (put a i j v) i j w = put a i j w"
  using grid_length [OF now_grid] by (simp add: put_def)

lemma put_same: "ai_shape a \<Longrightarrow> put a i j (hand a i j) = a"
  by (simp add: put_def hand_def set_me_me)

lemma hand_put:
  "ai_shape a \<Longrightarrow> i < 3 \<Longrightarrow> j < 9 \<Longrightarrow> k < 3 \<Longrightarrow> m < 9 \<Longrightarrow>
     hand (put a i j v) k m = (if k = i \<and> m = j then v else hand a k m)"
  using grid_length [OF now_grid, of a] grid_rows [OF now_grid, of a i]
  by (simp add: hand_def me_put nth_list_update)

lemma counts_ok_update: "counts_ok row \<Longrightarrow> 0 \<le> v \<Longrightarrow> v \<le> 4 \<Longrightarrow> counts_ok (row[j := v])"
  by (auto simp: counts_ok_def dest!: subsetD [OF set_update_subset_insert])

lemma hand_ok_put:
  "ai_shape a \<Longrightarrow> hand_ok a \<Longrightarrow> i < 3 \<Longrightarrow> 0 \<le> v \<Longrightarrow> v \<le> 4 \<Longrightarrow> hand_ok (put a i j v)"
  using hand_row [of a i]
  by (auto simp: hand_ok_def me_put counts_ok_update dest!: subsetD [OF set_update_subset_insert])

text \<open>\<open>update_block\<close> on a hand within bounds always succeeds.\<close>

definition fresh_block :: "int list \<Rightarrow> nat \<Rightarrow> NewBlock" where
  "fresh_block No i = the (NewBlock_Update No (new_NewBlock\<lparr>nb_I := i\<rparr>))"

lemma Update_fresh:
  assumes "counts_ok No"
  shows "NewBlock_Update No b = Some (fresh_block No (nb_I b))"
    and "nb_I (fresh_block No i) = i" and "synced No (fresh_block No i)"
proof -
  have eq: "NewBlock_Update No c = NewBlock_Update No (new_NewBlock\<lparr>nb_I := nb_I c\<rparr>)" for c
    by (rule NewBlock_Update_cong) simp
  have some: "\<exists>b'. NewBlock_Update No c = Some b'" for c
    using Update_facts [OF assms, of c] by blast
  show *: "NewBlock_Update No b = Some (fresh_block No (nb_I b))" for b
    using eq [of b] some [of b] by (metis fresh_block_def option.sel)
  have "NewBlock_Update No (new_NewBlock\<lparr>nb_I := i\<rparr>) = Some (fresh_block No i)"
    using * [of "new_NewBlock\<lparr>nb_I := i\<rparr>"] by simp
  then show "nb_I (fresh_block No i) = i" and "synced No (fresh_block No i)"
    by (auto dest: Update_nb_I Update_synced)
qed

lemma synced_fresh: "counts_ok No \<Longrightarrow> synced No b \<Longrightarrow> b = fresh_block No (nb_I b)"
  using Update_fresh(1) [of No b] by (simp add: synced_def)

lemma update_block_ok:
  assumes "ai_shape a" and "blocks_ok a" and "i < 3" and "counts_ok (Now (me a) ! i)"
  shows "update_block a i = Some (with_block a i (fresh_block (Now (me a) ! i) i))"
  using assms block_ok [of a i]
  by (auto simp: update_block_def block_No_ok Update_fresh(1) with_block_def)

text \<open>A decision state is determined by its hand: its blocks are the fresh ones.\<close>

lemma ready_block:
  assumes "ready a" and "i < 3"
  shows "BlocksMap a i = Some (fresh_block (Now (me a) ! i) i)"
proof -
  obtain b where b: "BlocksMap a i = Some b" "nb_I b = i"
    using assms block_ok by (auto simp: ready_def)
  then have "synced (Now (me a) ! i) b" using assms by (auto simp: ready_def in_sync_def)
  moreover have "counts_ok (Now (me a) ! i)" using assms by (auto simp: ready_def hand_row)
  ultimately show ?thesis using b synced_fresh by metis
qed

text \<open>Changing a count and updating the block gives a decision state again.\<close>

definition place :: "Ai \<Rightarrow> nat \<Rightarrow> nat \<Rightarrow> int \<Rightarrow> Ai" where
  "place a i j v = with_block (put a i j v) i (fresh_block (Now (me (put a i j v)) ! i) i)"

lemma place_ok:
  assumes "ready a" and "i < 3" and "j < 9" and "0 \<le> v" and "v \<le> 4"
  shows "ready (place a i j v)" and "update_block (put a i j v) i = Some (place a i j v)"
proof -
  let ?a = "put a i j v"
  have shape: "ai_shape ?a" and hok: "hand_ok ?a" and bok: "blocks_ok ?a"
    using assms by (auto simp: ready_def ai_shape_put hand_ok_put)
  then have row: "counts_ok (Now (me ?a) ! k)" if "k < 3" for k using that hand_row by blast
  have same: "Now (me ?a) ! k = Now (me a) ! k" if "k \<noteq> i" for k
    using assms that by (simp add: ready_def me_put)
  show "update_block ?a i = Some (place a i j v)"
    using update_block_ok [OF shape bok assms(2) row [OF assms(2)]] by (simp add: place_def)
  have "in_sync (place a i j v)"
    using assms(1) row same Update_fresh(3)
    by (auto simp: in_sync_def place_def ready_def)
  then show "ready (place a i j v)"
    using shape hok bok row [OF assms(2)]
    by (auto simp: ready_def place_def blocks_ok_with_block Update_fresh(2))
qed

end
