(* ===== verification/MjaiFull.thy ===== *)
theory MjaiFull
  imports MjaiInv
begin

text \<open>
  What \<open>checkFull\<close> computes. In the code it reads the block caches in whatever order the array
  has them; here it is shown to be a function of the hand and the declared sets alone
  (\<open>hand_points\<close>), so the order and the history of the caches do not matter, and a positive
  answer is a complete hand.
\<close>

definition row_count :: "int \<Rightarrow> int list \<Rightarrow> int" where
  "row_count n row = int (count_list row n)"

definition row_pairs :: "int list \<Rightarrow> int" where
  "row_pairs row = row_count 2 row + 2 * row_count 4 row"

definition row_used :: "int list \<Rightarrow> int list \<Rightarrow> int" where
  "row_used now down = (if sum_list now > 0 \<or> list_ex (\<lambda>n. n > 0) down then 1 else 0)"

definition row_weight :: "int list \<Rightarrow> nat \<Rightarrow> int" where
  "row_weight row i = nb_W (fresh_block row i)"

definition suits :: "(nat \<Rightarrow> int) \<Rightarrow> int" where
  "suits f = f 0 + f 1 + f 2"

text \<open>The points of a complete hand, and the points of any hand: 0 when it is not complete.\<close>

definition win_points :: "UserPublic \<Rightarrow> int" where
  "win_points p =
     (let pairs = suits (\<lambda>i. row_pairs (Now p ! i));
          singles = suits (\<lambda>i. row_count 1 (Now p ! i));
          quads = suits (\<lambda>i. row_count 4 (Now p ! i));
          used = suits (\<lambda>i. row_used (Now p ! i) (Down p ! i)) in
      (if used = 1 \<or> pairs = 7 then 4 else 1 + quads) * (if singles = 0 \<and> pairs = 1 then 2 else 1)
      + down_bonus p)"

definition gives_up_held :: "UserPublic \<Rightarrow> bool" where
  "gives_up_held p \<longleftrightarrow> (\<exists>i < 3. int i = Inv p \<and> sum_list (Now p ! i) > 0)"

definition hand_points :: "UserPublic \<Rightarrow> int" where
  "hand_points p =
     (if gives_up_held p then 0
      else if suits (\<lambda>i. row_weight (Now p ! i) i) \<noteq> 1 \<and> suits (\<lambda>i. row_pairs (Now p ! i)) \<noteq> 7 then 0
      else win_points p)"

subsection \<open>The loop over the tiles of a suit\<close>

definition hits :: "int list \<Rightarrow> int \<Rightarrow> nat list \<Rightarrow> int" where
  "hits No n js = int (length (filter (\<lambda>j. No ! j = n) js))"

lemma full_tile_fold:
  "foldl (full_tile No) s js = s\<lparr>fa_dui := fa_dui s + hits No 2 js + 2 * hits No 4 js,
     fa_dan := fa_dan s + hits No 1 js, fa_f := fa_f s + hits No 4 js\<rparr>"
  by (induction js arbitrary: s) (auto simp: full_tile_def hits_def Let_def)

lemma hits_nonzero:
  assumes "n \<noteq> 0"
  shows "hits No n (nonzero No (length No)) = row_count n No"
proof -
  have "filter (\<lambda>j. No ! j = n) (nonzero No (length No)) = filter (\<lambda>j. No ! j = n) [0..<length No]"
    using assms by (simp add: nonzero_def) (rule filter_cong, auto)
  also have "length \<dots> = length (filter ((=) n) (map ((!) No) [0..<length No]))"
    by (simp add: filter_map comp_def eq_commute [of n])
  also have "\<dots> = count_list No n"
    by (simp add: map_nth count_list_eq_length_filter)
  finally show ?thesis by (simp add: hits_def row_count_def)
qed

definition add_suit :: "UserPublic \<Rightarrow> full_acc \<Rightarrow> nat option \<Rightarrow> full_acc" where
  "add_suit p s ptr = (let i = the ptr; row = Now p ! i in
     s\<lparr>fa_w := fa_w s + row_weight row i, fa_dui := fa_dui s + row_pairs row,
       fa_dan := fa_dan s + row_count 1 row, fa_f := fa_f s + row_count 4 row,
       fa_qing := fa_qing s + row_used row (Down p ! i)\<rparr>)"

definition forbidden :: "UserPublic \<Rightarrow> nat option \<Rightarrow> bool" where
  "forbidden p ptr \<longleftrightarrow> int (the ptr) = Inv p \<and> sum_list (Now p ! the ptr) > 0"

lemma fresh_facts:
  assumes "counts_ok No"
  shows "children_of No (Child (fresh_block No i))" and "SumLen (fresh_block No i) = sum_list No"
    and "deficit (row_weight No i) (suit_tiles No)"
    and "SumWei (fresh_block No i) = int (length (nonzero No (length No)))"
    and "\<forall>g \<in> set (We (fresh_block No i)). grain_ok No i g"
  using synced_facts [OF Update_fresh(3) [OF assms, of i] assms] Update_fresh(2) [OF assms, of i]
  by (auto simp: row_weight_def)

lemma full_block_ready:
  assumes "ready a" and "ptr \<in> set (Blocks a)"
  shows "full_block (me a) a s ptr =
    Some (if forbidden (me a) ptr then (Some (), s) else (None, add_suit (me a) s ptr))"
proof -
  obtain i where i: "ptr = Some i" "i < 3"
    using assms in_Blocks by (auto simp: ready_def)
  let ?No = "Now (me a) ! i" and ?b = "fresh_block (Now (me a) ! i) i"
  have ok: "counts_ok ?No" using assms(1) i hand_row by (auto simp: ready_def)
  have "deref a ptr = Some ?b" using ready_block [OF assms(1) i(2)] i by (simp add: deref_def)
  moreover have "nb_I ?b = i" using Update_fresh(2) [OF ok] .
  moreover have "idx (Now (me a)) (int i) = Some ?No" "idx (Down (me a)) (int i) = Some (Down (me a) ! i)"
    using assms(1) i now_grid down_grid by (auto simp: ready_def grid_length)
  moreover have "concat (map chBl (Child ?b)) = nonzero ?No (length ?No)"
    using fresh_facts(1) [OF ok] by (simp add: children_of_def)
  ultimately show ?thesis
    using fresh_facts(2) [OF ok] i
    by (auto simp: full_block_def forbidden_def add_suit_def full_tile_fold hits_nonzero row_pairs_def
        row_used_def row_weight_def Let_def)
qed

lemma add_suit_fold:
  "foldl (add_suit p) s ptrs = s\<lparr>
     fa_w := fa_w s + sum_list (map (\<lambda>q. row_weight (Now p ! the q) (the q)) ptrs),
     fa_dui := fa_dui s + sum_list (map (\<lambda>q. row_pairs (Now p ! the q)) ptrs),
     fa_dan := fa_dan s + sum_list (map (\<lambda>q. row_count 1 (Now p ! the q)) ptrs),
     fa_f := fa_f s + sum_list (map (\<lambda>q. row_count 4 (Now p ! the q)) ptrs),
     fa_qing := fa_qing s + sum_list (map (\<lambda>q. row_used (Now p ! the q) (Down p ! the q)) ptrs)\<rparr>"
  by (induction ptrs arbitrary: s) (simp_all add: add_suit_def Let_def)

lemma sum_Blocks:
  assumes "blocks_ok a"
  shows "sum_list (map (\<lambda>q. f (the q)) (Blocks a)) = suits f"
proof -
  have "sum_list (map (\<lambda>q. f (the q)) (Blocks a)) = sum_mset (image_mset (\<lambda>q. f (the q)) (mset (Blocks a)))"
    by (simp flip: sum_mset_sum_list)
  also have "\<dots> = suits f" using assms by (simp add: blocks_ok_def suits_def)
  finally show ?thesis .
qed

lemma max_bonus_pure:
  assumes "\<forall>p \<in> set ps. p \<noteq> None"
  shows "max_bonus f ps = Some ((f + 1) * 2 ^ length (filter (\<lambda>p. IsF (the p)) ps))"
proof -
  have "foldM (\<lambda>f pu. do { p \<leftarrow> pu; Some (if IsF p then f + f else f) }) v ps =
      Some (v * 2 ^ length (filter (\<lambda>p. IsF (the p)) ps))" for v :: int
    using assms by (induction ps arbitrary: v) auto
  then show ?thesis by (simp add: max_bonus_def)
qed

text \<open>The number of opponents that play for the flush, which double the value.\<close>

definition doublings :: "Ai \<Rightarrow> nat" where
  "doublings a = length (filter (\<lambda>p. IsF (the p)) (take 3 (Public a)))"

definition full_value :: "bool \<Rightarrow> Ai \<Rightarrow> int" where
  "full_value isMax a = (let f = hand_points (me a) in
     if f = 0 \<or> \<not> isMax then f else (f + 1) * 2 ^ doublings a)"

lemma down_bonus_nonneg: "0 \<le> down_bonus p"
  by (auto simp: down_bonus_def down_row_def intro!: sum_list_nonneg)

lemma win_points_pos: "0 < win_points p"
  using down_bonus_nonneg [of p] by (auto simp: win_points_def Let_def suits_def row_count_def)

lemma hand_points_pos_iff:
  "0 < hand_points p \<longleftrightarrow> \<not> gives_up_held p \<and>
     (suits (\<lambda>i. row_weight (Now p ! i) i) = 1 \<or> suits (\<lambda>i. row_pairs (Now p ! i)) = 7)"
  and hand_points_nonneg: "0 \<le> hand_points p"
  using win_points_pos [of p] by (auto simp: hand_points_def)

lemma checkFull_ready:
  assumes "ready a"
  shows "checkFull isMax a = Some (full_value isMax a)"
proof -
  have shape: "ai_shape a" and bok: "blocks_ok a" using assms by (auto simp: ready_def)
  let ?s = "\<lparr>fa_w = 0, fa_dui = 0, fa_dan = 0, fa_qing = 0, fa_f = 1\<rparr>" and ?p = "me a"
  obtain t where find: "findM (full_block ?p a) ?s (Blocks a) =
      Some (if \<exists>x \<in> set (Blocks a). forbidden ?p x then (Some (), t) else (None, foldl (add_suit ?p) ?s (Blocks a)))"
    using findM_early [of "Blocks a" "full_block ?p a" "forbidden ?p" "()" "add_suit ?p" ?s]
      full_block_ready [OF assms] by auto
  have forb: "(\<exists>x \<in> set (Blocks a). forbidden ?p x) \<longleftrightarrow> gives_up_held ?p"
    using in_Blocks [OF bok] unfolding forbidden_def gives_up_held_def by (metis option.sel)
  have sums: "foldl (add_suit ?p) ?s (Blocks a) = \<lparr>
      fa_w = suits (\<lambda>i. row_weight (Now ?p ! i) i), fa_dui = suits (\<lambda>i. row_pairs (Now ?p ! i)),
      fa_dan = suits (\<lambda>i. row_count 1 (Now ?p ! i)),
      fa_qing = suits (\<lambda>i. row_used (Now ?p ! i) (Down ?p ! i)),
      fa_f = 1 + suits (\<lambda>i. row_count 4 (Now ?p ! i))\<rparr>"
    using sum_Blocks [OF bok, of "\<lambda>i. row_weight (Now ?p ! i) i"]
      sum_Blocks [OF bok, of "\<lambda>i. row_pairs (Now ?p ! i)"]
      sum_Blocks [OF bok, of "\<lambda>i. row_count 1 (Now ?p ! i)"]
      sum_Blocks [OF bok, of "\<lambda>i. row_count 4 (Now ?p ! i)"]
      sum_Blocks [OF bok, of "\<lambda>i. row_used (Now ?p ! i) (Down ?p ! i)"]
    by (simp add: add_suit_fold)
  have "\<forall>p \<in> set (take 3 (Public a)). p \<noteq> None"
    using shape in_set_takeD by (fastforce simp: ai_shape_def)
  then have max: "max_bonus f (take 3 (Public a)) = Some ((f + 1) * 2 ^ doublings a)" for f
    by (simp add: max_bonus_pure doublings_def)
  show ?thesis
    unfolding checkFull_def full_value_def hand_points_def
    using win_points_pos [of ?p] down_bonus_nonneg [of ?p]
    by (simp add: seat_me [OF shape] find forb sums max win_points_def Let_def)
qed

lemma full_value_pos_iff: "0 < full_value isMax a \<longleftrightarrow> 0 < hand_points (me a)"
  and full_value_nonneg: "0 \<le> full_value isMax a"
  using hand_points_nonneg [of "me a"] by (auto simp: full_value_def Let_def)

text \<open>
  A complete hand in the sense of the game: nothing is held of the suit given up, and the tiles
  of the three suits split into melds and exactly one pair, or are seven pairs (four equal tiles
  count as two).
\<close>

definition complete_hand :: "UserPublic \<Rightarrow> bool" where
  "complete_hand p \<longleftrightarrow> (\<forall>i < 3. int i = Inv p \<longrightarrow> (\<forall>n \<in> set (Now p ! i). n = 0)) \<and>
     ((\<exists>k. suits k = 1 \<and> (\<forall>i < 3. deficit (k i) (suit_tiles (Now p ! i)))) \<or>
      suits (\<lambda>i. row_pairs (Now p ! i)) = 7)"

lemma sum_list_zero: "\<forall>n \<in> set ns. (0::int) \<le> n \<Longrightarrow> \<not> 0 < sum_list ns \<Longrightarrow> \<forall>n \<in> set ns. n = 0"
  by (metis linorder_not_less member_le_sum_list order_antisym order_trans)

lemma hand_points_complete:
  assumes "ready a" and "0 < hand_points (me a)"
  shows "complete_hand (me a)"
proof -
  have row: "counts_ok (Now (me a) ! i)" if "i < 3" for i
    using assms(1) that hand_row by (auto simp: ready_def)
  have "\<forall>i < 3. deficit (row_weight (Now (me a) ! i) i) (suit_tiles (Now (me a) ! i))"
    using row fresh_facts(3) by blast
  moreover have "\<forall>n \<in> set (Now (me a) ! i). n = 0" if "i < 3" "int i = Inv (me a)" for i
    using assms(2) that row [OF that(1)] sum_list_zero [of "Now (me a) ! i"]
    by (auto simp: hand_points_pos_iff gives_up_held_def counts_ok_def)
  ultimately show ?thesis
    using assms(2) unfolding complete_hand_def hand_points_pos_iff by blast
qed

end
