(* ===== verification/MjaiInit.thy ===== *)
theory MjaiInit
  imports MjaiFull
begin

text \<open>
  Starting a decision: \<open>InitNow\<close> reads the tiles of the hand from a packet, brings the three
  block caches up to date, sorts the block array and, when no suit is given up yet, chooses one.
\<close>

subsection \<open>Reading the tiles\<close>

definition grid_of :: "(nat \<Rightarrow> nat \<Rightarrow> int) \<Rightarrow> grid" where
  "grid_of f = map (\<lambda>i. map (f i) [0..<9]) [0..<3]"

definition copies :: "byte list \<Rightarrow> nat \<Rightarrow> int" where
  "copies str t = int (length (filter (\<lambda>b. unat b = t) str))"

definition tile_grid :: "byte list \<Rightarrow> grid" where
  "tile_grid str = grid_of (\<lambda>i j. copies str (9 * i + j))"

lemma grid_of_ok: "grid_ok (grid_of f)"
  by (auto simp: grid_ok_def grid_of_def)

lemma nth_grid_of: "i < 3 \<Longrightarrow> grid_of f ! i = map (f i) [0..<9]"
  by (simp add: grid_of_def)

lemma grid_eqI:
  assumes "grid_ok g" and "grid_ok h" and "\<And>i j. i < 3 \<Longrightarrow> j < 9 \<Longrightarrow> g ! i ! j = h ! i ! j"
  shows "g = h"
  by (intro nth_equalityI) (use assms in \<open>auto simp: grid_length grid_rows\<close>)

lemma grid_of_update:
  assumes "i < 3" and "j < 9"
  shows "set_cell (grid_of f) (int i) (int j) v = Some (grid_of (\<lambda>k m. if k = i \<and> m = j then v else f k m))"
proof -
  have "set_cell (grid_of f) (int i) (int j) v = Some ((grid_of f)[i := (grid_of f ! i)[j := v]])"
    by (rule set_cell_ok [OF grid_of_ok assms])
  moreover have "(grid_of f)[i := (grid_of f ! i)[j := v]] = grid_of (\<lambda>k m. if k = i \<and> m = j then v else f k m)"
    by (rule grid_eqI [OF grid_ok_update [OF grid_of_ok assms(1)] grid_of_ok])
      (use assms in \<open>auto simp: grid_length [OF grid_of_ok] nth_list_update nth_grid_of\<close>)
  ultimately show ?thesis by simp
qed

lemma SetNow_loop:
  "foldM SetNow1 (zero_grid, []) str = Some (tile_grid str, map uint (filter (\<lambda>b. \<not> b < 27) str))"
proof (induction str rule: rev_induct)
  case Nil
  have "zero_grid = grid_of (\<lambda>_ _. 0)"
    by (simp add: zero_grid_def grid_of_def map_replicate_const)
  then show ?case by (simp add: tile_grid_def copies_def)
next
  case (snoc s str)
  show ?case
  proof (cases "s < 27")
    case True
    define n where "n = unat s"
    have n: "n < 27" "uint s = int n" using True by (auto simp: n_def word_less_nat_alt)
    have dm: "int n div 9 = int (n div 9)" "int n mod 9 = int (n mod 9)" "n div 9 < 3" "n mod 9 < 9"
      using n by (auto simp: of_nat_div of_nat_mod)
    have inj: "9 * k + m = n \<longleftrightarrow> k = n div 9 \<and> m = n mod 9" if "m < 9" for k m
      using that by auto
    have "grid_of (\<lambda>k m. if k = n div 9 \<and> m = n mod 9 then copies str n + 1 else copies str (9 * k + m))
        = tile_grid (str @ [s])"
      unfolding tile_grid_def
      by (rule grid_eqI) (auto simp: grid_of_ok nth_grid_of copies_def inj n_def [symmetric])
    moreover have "cell (tile_grid str) (int (n div 9)) (int (n mod 9)) = Some (copies str n)"
      using cell_ok [OF grid_of_ok dm(3,4)] dm by (simp add: tile_grid_def nth_grid_of)
    ultimately show ?thesis
      using snoc n True dm grid_of_update [OF dm(3,4)]
      by (simp add: foldM_append SetNow1_def Let_def tile_grid_def)
  next
    case False
    then have "unat s \<ge> 27" by (simp add: word_less_nat_alt)
    then have "tile_grid (str @ [s]) = tile_grid str"
      unfolding tile_grid_def
      by (intro grid_eqI) (auto simp: grid_of_ok nth_grid_of copies_def)
    moreover have "\<not> uint s < 27" using False by (simp add: word_less_def)
    ultimately show ?thesis
      using snoc False by (simp add: foldM_append SetNow1_def Let_def)
  qed
qed

lemma SetNow_spec:
  "SetNow str p = Some (map uint (filter (\<lambda>b. \<not> b < 27) str), p\<lparr>Now := tile_grid str\<rparr>)"
  by (simp add: SetNow_def SetNow_loop)

subsection \<open>Linking and sorting the blocks\<close>

text \<open>The blocks are either not created yet or the three of them are in place.\<close>

definition linked :: "Ai \<Rightarrow> bool" where
  "linked a \<longleftrightarrow> Blocks a = [None, None, None] \<or> blocks_ok a"

definition slot :: "nat \<times> nat option \<Rightarrow> nat" where
  "slot = (\<lambda>(i, p). case p of None \<Rightarrow> i | Some k \<Rightarrow> k)"

definition suit_size :: "Ai \<Rightarrow> nat option \<Rightarrow> int" where
  "suit_size a ptr = sum_list (Now (me a) ! the ptr)"

definition is_fresh :: "Ai \<Rightarrow> nat option \<Rightarrow> bool" where
  "is_fresh a ptr \<longleftrightarrow> BlocksMap a (the ptr) = Some (fresh_block (Now (me a) ! the ptr) (the ptr))"

lemma Blocks_update_simps [simp]:
  "me (a\<lparr>Blocks := bs\<rparr>) = me a" "ai_shape (a\<lparr>Blocks := bs\<rparr>) = ai_shape a" "hand_ok (a\<lparr>Blocks := bs\<rparr>) = hand_ok a"
  "deref (a\<lparr>Blocks := bs\<rparr>) = deref a" "suit_size (a\<lparr>Blocks := bs\<rparr>) = suit_size a" "suit_size (with_block a k b) = suit_size a"
  by (simp_all add: me_def ai_shape_def hand_ok_def deref_def [abs_def] suit_size_def [abs_def])

lemma deref_BlocksMap: "deref (a\<lparr>Blocks := bs, BlocksMap := m\<rparr>) = deref (a\<lparr>BlocksMap := m\<rparr>)"
  by (simp add: deref_def [abs_def])

lemma SortNewBlock_fresh:
  assumes "\<forall>p \<in> set S. \<exists>k. p = Some k \<and> k < 3 \<and> is_fresh a p" and "sorted (map (suit_size a) S)"
    and "hand_ok a" and "ai_shape a" and "k < 3" and "is_fresh a (Some k)"
  shows "SortNewBlock (deref a) (S @ Some k # R) (length S) = Some (ins_after (suit_size a) (Some k) S @ R)"
proof -
  let ?key = "\<lambda>p. SumLen (the (deref a p))"
  have key: "deref a p \<noteq> None \<and> ?key p = suit_size a p" if p: "p \<in> insert (Some k) (set S)" for p
  proof -
    obtain m where m: "p = Some m" "m < 3" "is_fresh a p" using assms(1,5,6) p by auto
    then have "counts_ok (Now (me a) ! m)" using assms(3,4) hand_row by blast
    with m show ?thesis by (simp add: deref_def is_fresh_def fresh_facts(2) suit_size_def)
  qed
  have "\<forall>i \<le> length S. deref a ((S @ Some k # R) ! i) \<noteq> None"
    using key by (auto simp: nth_append le_less)
  then have 1: "SortNewBlock (deref a) (S @ Some k # R) (length S) = Some (pass ?key (S @ Some k # R) (length S))"
    by (intro blocks.step_pass_prefix) auto
  have keys: "map ?key S = map (suit_size a) S" using key by simp
  have 2: "pass ?key (S @ Some k # R) (length S) = ins_after ?key (Some k) S @ R"
    using assms(2) unfolding keys [symmetric] by (rule pass_insert)
  have "ins_after ?key (Some k) S = ins_after (suit_size a) (Some k) S"
    using key by (simp add: ins_after_def cong: filter_cong)
  with 1 2 show ?thesis by simp
qed

lemma InitNow1_step:
  assumes "ai_shape a" and "hand_ok a" and "Blocks a = S @ p # R"
    and "\<forall>q \<in> set S. \<exists>k. q = Some k \<and> k < 3 \<and> is_fresh a q" and "sorted (map (suit_size a) S)"
    and "length S < 3" and k: "k = slot (length S, p)" "k < 3" "Some k \<notin> set S"
    and old: "p = Some k \<Longrightarrow> \<exists>b. BlocksMap a k = Some b \<and> nb_I b = k"
  shows "InitNow1 a (length S, p) =
    Some ((with_block a k (fresh_block (Now (me a) ! k) k))\<lparr>Blocks := ins_after (suit_size a) (Some k) S @ R\<rparr>)"
proof -
  let ?row = "Now (me a) ! k"
  let ?a = "(with_block a k (fresh_block ?row k))\<lparr>Blocks := S @ Some k # R\<rparr>"
  have row: "counts_ok ?row" using assms hand_row by blast
  have new: "NewBlock_Init ?row k new_NewBlock = Some (fresh_block ?row k)"
    using Update_fresh(1) [OF row, of "new_NewBlock\<lparr>nb_I := k\<rparr>"] by (simp add: NewBlock_Init_def)
  have fresh: "\<forall>q \<in> set S. \<exists>k. q = Some k \<and> k < 3 \<and> is_fresh ?a q" and "is_fresh ?a (Some k)"
    using assms(4) k(3) by (auto simp: is_fresh_def)
  then have sort: "SortNewBlock (deref ?a) (S @ Some k # R) (length S) = Some (ins_after (suit_size a) (Some k) S @ R)"
    using SortNewBlock_fresh [of S ?a k R] assms by simp
  show ?thesis
  proof (cases p)
    case None
    then have "k = length S" using k by (simp add: slot_def)
    with None sort new assms show ?thesis
      by (simp add: InitNow1_def block_No_ok with_block_def deref_BlocksMap)
  next
    case (Some m)
    then have "m = k" using k by (simp add: slot_def)
    with Some old have "update_block a k = Some (with_block a k (fresh_block ?row k))"
      using assms row Update_fresh(1) by (auto simp: update_block_def block_No_ok with_block_def)
    moreover have "?a = with_block a k (fresh_block ?row k)"
      using assms(3) Some \<open>m = k\<close> by (simp add: with_block_def)
    ultimately show ?thesis
      using Some \<open>m = k\<close> sort assms(3) by (simp add: InitNow1_def)
  qed
qed

lemma mset_ins_after: "mset (ins_after key x ys) = add_mset x (mset ys)"
  by (simp add: ins_after_def not_le [symmetric])

lemma set_ins_after: "set (ins_after key x ys) = insert x (set ys)"
  by (auto simp: ins_after_def)

lemma sorted_ins_after: "sorted (map key ys) \<Longrightarrow> sorted (map key (ins_after key x ys))"
  by (auto simp: ins_after_def sorted_append sorted_filter)

lemma InitNow_fold:
  assumes "ai_shape a" and "hand_ok a" and "Blocks a = S @ R" and "length S + length R = 3"
    and "\<forall>q \<in> set S. \<exists>k. q = Some k \<and> k < 3 \<and> is_fresh a q" and "sorted (map (suit_size a) S)"
    and "distinct (S @ map (\<lambda>ip. Some (slot ip)) (enumerate (length S) R))"
    and "\<forall>ip \<in> set (enumerate (length S) R). slot ip < 3"
    and "\<forall>k. Some k \<in> set R \<longrightarrow> (\<exists>b. BlocksMap a k = Some b \<and> nb_I b = k)"
  shows "\<exists>a'. foldM InitNow1 a (enumerate (length S) R) = Some a' \<and> Public a' = Public a \<and>
    mset (Blocks a') = mset S + mset (map (\<lambda>ip. Some (slot ip)) (enumerate (length S) R)) \<and>
    sorted (map (suit_size a') (Blocks a')) \<and> (\<forall>q \<in> set (Blocks a'). is_fresh a' q)"
  using assms
proof (induction R arbitrary: a S)
  case Nil
  then show ?case by auto
next
  case (Cons p R)
  define k where "k = slot (length S, p)"
  define S' where "S' = ins_after (suit_size a) (Some k) S"
  define a' where "a' = (with_block a k (fresh_block (Now (me a) ! k) k))\<lparr>Blocks := S' @ R\<rparr>"
  have k: "k < 3" "Some k \<notin> set S" using Cons.prems(7,8) by (auto simp: k_def)
  have "\<exists>b. BlocksMap a k = Some b \<and> nb_I b = k" if "p = Some k" using Cons.prems(9) that by auto
  then have step: "InitNow1 a (length S, p) = Some a'"
    unfolding a'_def S'_def
    using InitNow1_step [OF Cons.prems(1-3,5,6) _ k_def k] Cons.prems(4) by auto
  have len: "length S' = Suc (length S)"
    using mset_ins_after [of "suit_size a" "Some k" S] by (metis S'_def size_add_mset size_mset)
  have fresh: "is_fresh a' q" if "q \<in> set S'" for q
    using that Cons.prems(5) k by (auto simp: S'_def set_ins_after is_fresh_def a'_def)
  have "\<exists>b. foldM InitNow1 a' (enumerate (length S') R) = Some b \<and> Public b = Public a' \<and>
    mset (Blocks b) = mset S' + mset (map (\<lambda>ip. Some (slot ip)) (enumerate (length S') R)) \<and>
    sorted (map (suit_size b) (Blocks b)) \<and> (\<forall>q \<in> set (Blocks b). is_fresh b q)"
  proof (rule Cons.IH)
    show "\<forall>q \<in> set S'. \<exists>k. q = Some k \<and> k < 3 \<and> is_fresh a' q"
      using Cons.prems(5) k fresh by (auto simp: S'_def set_ins_after)
    show "sorted (map (suit_size a') S')"
      using Cons.prems(6) by (simp add: a'_def S'_def sorted_ins_after)
    show "distinct (S' @ map (\<lambda>ip. Some (slot ip)) (enumerate (length S') R))"
      using Cons.prems(7) len mset_ins_after [of "suit_size a" "Some k" S] mset_eq_imp_distinct_iff [of S' "Some k # S"]
      by (auto simp: S'_def set_ins_after k_def)
    show "\<forall>j. Some j \<in> set R \<longrightarrow> (\<exists>b. BlocksMap a' j = Some b \<and> nb_I b = j)"
      using Cons.prems(9) k hand_row [OF Cons.prems(1,2)] Update_fresh(2) by (auto simp: a'_def)
  qed (use Cons.prems len in \<open>auto simp: a'_def\<close>)
  then show ?case
    using step len mset_ins_after [of "suit_size a" "Some k" S]
    by (auto simp: a'_def S'_def k_def [symmetric])
qed

lemma linked_slots:
  assumes "linked a"
  shows "mset (map (\<lambda>ip. Some (slot ip)) (enumerate 0 (Blocks a))) = {#Some 0, Some 1, Some 2#}"
    and "length (Blocks a) = 3" and "\<forall>k. Some k \<in> set (Blocks a) \<longrightarrow> (\<exists>b. BlocksMap a k = Some b \<and> nb_I b = k)"
proof -
  have "Blocks a = [None, None, None] \<or> map (\<lambda>ip. Some (slot ip)) (enumerate 0 (Blocks a)) = Blocks a \<and> blocks_ok a"
  proof (cases "blocks_ok a")
    case True
    have "Some (slot ip) = snd ip" if "ip \<in> set (enumerate 0 (Blocks a))" for ip
    proof -
      have "snd ip \<in> set (Blocks a)" using that nth_mem [of "fst ip" "Blocks a"] by (simp add: in_set_enumerate_eq)
      then show ?thesis using in_Blocks [OF True] by (auto simp: slot_def split: prod.split)
    qed
    then have "map (\<lambda>ip. Some (slot ip)) (enumerate 0 (Blocks a)) = map snd (enumerate 0 (Blocks a))"
      by (intro map_cong refl)
    with True show ?thesis by simp
  qed (use assms in \<open>simp add: linked_def\<close>)
  then consider (nil) "Blocks a = [None, None, None]"
    | (old) "map (\<lambda>ip. Some (slot ip)) (enumerate 0 (Blocks a)) = Blocks a" "blocks_ok a" by blast
  note cases = this
  show "mset (map (\<lambda>ip. Some (slot ip)) (enumerate 0 (Blocks a))) = {#Some 0, Some 1, Some 2#}"
    by (cases rule: cases) (simp_all add: slot_def blocks_ok_def numeral_2_eq_2)
  show "length (Blocks a) = 3"
    by (cases rule: cases) (simp_all add: length_Blocks)
  show "\<forall>k. Some k \<in> set (Blocks a) \<longrightarrow> (\<exists>b. BlocksMap a k = Some b \<and> nb_I b = k)"
  proof (cases rule: cases)
    case old
    then show ?thesis using in_Blocks [OF old(2)] block_ok [OF old(2)] by simp
  qed simp
qed

lemma InitNow_blocks:
  assumes "ai_shape a" and "hand_ok a" and "linked a"
  shows "\<exists>a'. foldM InitNow1 a (enumerate 0 (Blocks a)) = Some a' \<and> Public a' = Public a \<and> ready a' \<and>
    sorted (map (suit_size a') (Blocks a'))"
proof -
  note slots = linked_slots [OF assms(3)]
  let ?slots = "map (\<lambda>ip. Some (slot ip)) (enumerate 0 (Blocks a))"
  have "distinct ?slots" using mset_eq_imp_distinct_iff [of ?slots "[Some 0, Some 1, Some 2]"] slots(1) by simp
  moreover have "set ?slots = {Some 0, Some 1, Some 2}" using arg_cong [OF slots(1), of set_mset] by simp
  then have "Some (slot ip) \<in> {Some 0, Some 1, Some 2}" if "ip \<in> set (enumerate 0 (Blocks a))" for ip
    using that by (metis image_eqI list.set_map)
  then have "\<forall>ip \<in> set (enumerate 0 (Blocks a)). slot ip < 3" by fastforce
  ultimately obtain a' where a': "foldM InitNow1 a (enumerate 0 (Blocks a)) = Some a'" "Public a' = Public a"
      "mset (Blocks a') = {#Some 0, Some 1, Some 2#}" "sorted (map (suit_size a') (Blocks a'))"
      "\<forall>q \<in> set (Blocks a'). is_fresh a' q"
    using InitNow_fold [OF assms(1,2), of "[]" "Blocks a"] slots by (auto simp del: One_nat_def)
  then have same: "me a' = me a" "ai_shape a'" "hand_ok a'"
    using assms by (simp_all add: me_def ai_shape_def hand_ok_def)
  have "set (Blocks a') = {Some 0, Some 1, Some 2}" using a'(3) by (metis set_mset_mset set_mset_add_mset_insert set_mset_empty)
  then have fresh: "is_fresh a' (Some i)" if "i < 3" for i
    using a'(5) that by (auto simp: numeral_3_eq_3 less_Suc_eq numeral_2_eq_2)
  have row: "counts_ok (Now (me a') ! i)" if "i < 3" for i using same that hand_row by blast
  have "blocks_ok a'"
    using a'(3) fresh row Update_fresh(2) by (simp add: blocks_ok_def is_fresh_def)
  moreover have "in_sync a'"
    using fresh row Update_fresh(3) by (simp add: in_sync_def is_fresh_def)
  ultimately have "ready a'" using same by (simp add: ready_def)
  with a' show ?thesis by blast
qed

subsection \<open>Choosing the suit to give up\<close>

text \<open>\<open>GetDiscard\<close> answers one of the first two suits of the sorted array, the second only when it
  holds as few tiles: always a suit with the fewest tiles.\<close>

lemma GetDiscard_ready:
  assumes "ready a" and "sorted (map (suit_size a) (Blocks a))"
  shows "\<exists>i < 3. GetDiscard a = Some (int i) \<and> (\<forall>k < 3. sum_list (Now (me a) ! i) \<le> sum_list (Now (me a) ! k))"
proof -
  have bok: "blocks_ok a" using assms by (simp add: ready_def)
  then obtain p0 p1 p2 where B: "Blocks a = [p0, p1, p2]"
    using length_Blocks [of a] by (auto simp: numeral_3_eq_3 length_Suc_conv)
  then obtain i0 i1 i2 where p: "p0 = Some i0" "p1 = Some i1" "p2 = Some i2" "i0 < 3" "i1 < 3" "i2 < 3"
    using in_Blocks [OF bok] by (metis list.set_intros)
  have sorted: "sum_list (Now (me a) ! i0) \<le> sum_list (Now (me a) ! i1)" "sum_list (Now (me a) ! i1) \<le> sum_list (Now (me a) ! i2)"
    using assms(2) by (auto simp: B p suit_size_def)
  have set: "k \<in> {i0, i1, i2}" if "k < 3" for k
    using in_Blocks [OF bok, of "Some k"] that by (simp add: B p)
  have row: "counts_ok (Now (me a) ! i)" if "i < 3" for i using assms that hand_row by (auto simp: ready_def)
  have d: "deref a (Some i) = Some (fresh_block (Now (me a) ! i) i)" "nb_I (fresh_block (Now (me a) ! i) i) = i"
    "SumLen (fresh_block (Now (me a) ! i) i) = sum_list (Now (me a) ! i)" if "i < 3" for i
    using ready_block [OF assms(1) that] Update_fresh(2) fresh_facts(2) row [OF that] by (auto simp: deref_def)
  have "GetDiscard a = Some (int i0) \<or> GetDiscard a = Some (int i1) \<and> sum_list (Now (me a) ! i0) = sum_list (Now (me a) ! i1)"
    using d p by (simp add: GetDiscard_def B idx_def)
  moreover have "sum_list (Now (me a) ! i0) \<le> sum_list (Now (me a) ! k)" if "k < 3" for k
    using set [OF that] sorted by auto
  ultimately show ?thesis using p by metis
qed

lemma choose_Inv_set: "ai_shape a \<Longrightarrow> GetDiscard a = Some v \<Longrightarrow>
    choose_Inv a = Some (if Inv (me a) = -1 then set_me a ((me a)\<lparr>Inv := v\<rparr>) else a)"
  by (simp add: choose_Inv_def seat_me set_seat_me)

lemma ready_set_Inv:
  assumes "ready a"
  shows "ready (set_me a ((me a)\<lparr>Inv := v\<rparr>))"
proof -
  have "ai_shape a" using assms by (simp add: ready_def)
  moreover from this have "ai_shape (set_me a ((me a)\<lparr>Inv := v\<rparr>))"
    using me_ok by (intro ai_shape_set_me) (auto simp: public_ok_def)
  ultimately show ?thesis using assms by (simp add: ready_def hand_ok_def in_sync_def)
qed

lemma tile_grid_counts:
  assumes "\<forall>t < 27. copies str t \<le> 4" and "row \<in> set (tile_grid str)"
  shows "counts_ok row"
  using assms by (auto simp: tile_grid_def grid_of_def counts_ok_def copies_def)

lemma InitNow_ready:
  assumes "ai_shape a" and "linked a" and "\<forall>t < 27. copies str t \<le> 4"
  shows "\<exists>a'. InitNow str a = Some a' \<and> ready a' \<and> Now (me a') = tile_grid str \<and>
    Down (me a') = Down (me a) \<and> See (me a') = See (me a) \<and>
    (if Inv (me a) = -1
     then \<exists>i < 3. Inv (me a') = int i \<and> (\<forall>k < 3. sum_list (tile_grid str ! i) \<le> sum_list (tile_grid str ! k))
     else Inv (me a') = Inv (me a))"
proof -
  define a1 where "a1 = set_me a ((me a)\<lparr>Now := tile_grid str\<rparr>)"
  have "ai_shape a1"
    unfolding a1_def using assms(1) me_ok [OF assms(1)]
    by (intro ai_shape_set_me) (auto simp: public_ok_def tile_grid_def grid_of_ok)
  moreover have me1: "me a1 = (me a)\<lparr>Now := tile_grid str\<rparr>" using assms(1) by (simp add: a1_def)
  moreover from this have "hand_ok a1" using assms(3) tile_grid_counts by (simp add: hand_ok_def)
  moreover have "linked a1" using assms(2) by (simp add: a1_def linked_def)
  ultimately obtain a2 where a2: "foldM InitNow1 a1 (enumerate 0 (Blocks a1)) = Some a2" "Public a2 = Public a1"
      "ready a2" "sorted (map (suit_size a2) (Blocks a2))"
    using InitNow_blocks by blast
  have me2: "me a2 = me a1" using a2(2) by (simp add: me_def)
  obtain i where i: "i < 3" "GetDiscard a2 = Some (int i)"
      "\<forall>k < 3. sum_list (tile_grid str ! i) \<le> sum_list (tile_grid str ! k)"
    using GetDiscard_ready [OF a2(3,4)] by (auto simp: me2 me1)
  define a3 where "a3 = (if Inv (me a2) = -1 then set_me a2 ((me a2)\<lparr>Inv := int i\<rparr>) else a2)"
  have "choose_Inv a2 = Some a3"
    unfolding a3_def using a2(3) i(2) by (intro choose_Inv_set) (auto simp: ready_def)
  then have "InitNow str a = Some a3"
    using assms(1) a2(1) by (simp add: InitNow_def seat_me SetNow_spec set_seat_me a1_def)
  moreover have "ready a3" using a2(3) ready_set_Inv by (simp add: a3_def)
  moreover have "me a3 = (if Inv (me a) = -1 then (me a1)\<lparr>Inv := int i\<rparr> else me a1)"
    using a2(3) me2 me1 by (auto simp: a3_def ready_def)
  ultimately show ?thesis using me1 i by auto
qed

subsection \<open>From a fresh seat to a decision state\<close>

definition valid_hand :: "byte list \<Rightarrow> bool" where
  "valid_hand str \<longleftrightarrow> list_all (\<lambda>b. b < 27 \<longrightarrow> copies str (unat b) \<le> 4) str"

lemma valid_hand_copies:
  assumes "valid_hand str" and "t < 27"
  shows "copies str t \<le> 4"
proof (cases "\<exists>b \<in> set str. unat b = t")
  case True
  with assms show ?thesis by (auto simp: valid_hand_def list_all_iff word_less_nat_alt)
next
  case False
  then have "filter (\<lambda>b. unat b = t) str = []" by (auto simp: filter_empty_conv)
  then show ?thesis by (simp add: copies_def)
qed

lemma Ai_Init_shape:
  assumes "length (Public a) = 4"
  shows "ai_shape (Ai_Init a)" and "linked (Ai_Init a) = linked a" and "Inv (me (Ai_Init a)) = -1"
proof -
  have "grid_ok zero_grid" by (simp add: grid_ok_def zero_grid_def)
  then show "ai_shape (Ai_Init a)"
    using assms by (auto simp: ai_shape_def Ai_Init_def public_ok_def UserPublic_Init_def)
  show "linked (Ai_Init a) = linked a" by (simp add: linked_def blocks_ok_def Ai_Init_def)
  show "Inv (me (Ai_Init a)) = -1" using assms by (simp add: me_def Ai_Init_def UserPublic_Init_def)
qed

lemma ready_linked: "ready a \<Longrightarrow> linked a"
  by (simp add: ready_def linked_def)

text \<open>
  C18. Starting a decision: if no tile occurs more than four times among the bytes of the packet, \<open>InitNow\<close>
  returns a decision state (all caches current) whose hand is exactly the tiles of the packet,
  with the declared and seen tiles untouched; and when no suit had been given up, the suit it
  gives up has the fewest tiles of the three.
\<close>

theorem InitNow_spec:
  assumes "ai_shape a" and "linked a" and "valid_hand str"
  shows "\<exists>a'. InitNow str a = Some a' \<and> ready a' \<and> Now (me a') = tile_grid str \<and>
    Down (me a') = Down (me a) \<and> See (me a') = See (me a) \<and>
    (if Inv (me a) = -1
     then \<exists>i < 3. Inv (me a') = int i \<and> (\<forall>k < 3. sum_list (tile_grid str ! i) \<le> sum_list (tile_grid str ! k))
     else Inv (me a') = Inv (me a))"
  using InitNow_ready [OF assms(1,2)] valid_hand_copies [OF assms(3)] by blast

text \<open>A hand for the concrete instances: twelve tiles of four runs and a single tile.\<close>

definition demo_tiles :: "byte list" where
  "demo_tiles = [0, 1, 2, 3, 4, 5, 6, 7, 8, 9, 10, 11, 13]"

definition demo_seat :: Ai where
  "demo_seat = Ai_Init new_Ai"

lemma demo_seat_ok: "ai_shape demo_seat" "linked demo_seat" "Inv (me demo_seat) = -1"
  unfolding demo_seat_def using Ai_Init_shape [of new_Ai] by (auto simp: new_Ai_def linked_def)

lemma demo_tiles_valid: "valid_hand demo_tiles" "valid_hand (demo_tiles @ [13])"
  by (simp_all add: valid_hand_def demo_tiles_def copies_def)

theorem InitNow_spec_witness:
  "\<exists>a' i. InitNow demo_tiles demo_seat = Some a' \<and> ready a' \<and> Now (me a') = tile_grid demo_tiles \<and>
    Down (me a') = Down (me demo_seat) \<and> See (me a') = See (me demo_seat) \<and>
    i < 3 \<and> Inv (me a') = int i \<and> sum_list (tile_grid demo_tiles ! i) \<le> sum_list (tile_grid demo_tiles ! 2)"
  using InitNow_spec [OF demo_seat_ok(1,2) demo_tiles_valid(1)] demo_seat_ok(3) by auto

text \<open>A concrete decision state.\<close>

definition demo_ai :: Ai where
  "demo_ai = the (InitNow demo_tiles demo_seat)"

lemma demo_ai_ready: "ready demo_ai" "Now (me demo_ai) = tile_grid demo_tiles"
  using InitNow_ready [OF demo_seat_ok(1,2), of demo_tiles] valid_hand_copies [OF demo_tiles_valid(1)]
  by (auto simp: demo_ai_def)

lemma demo_rows: "tile_grid demo_tiles ! 0 = [1, 1, 1, 1, 1, 1, 1, 1, 1]"
    "tile_grid demo_tiles ! Suc 0 = [1, 1, 1, 0, 1, 0, 0, 0, 0]" "tile_grid demo_tiles ! 2 = [0, 0, 0, 0, 0, 0, 0, 0, 0]"
  by (simp_all add: tile_grid_def nth_grid_of upt_rec copies_def demo_tiles_def)

lemma demo_ai_Inv: "Inv (me demo_ai) = 2" and demo_ai_Down: "Down (me demo_ai) = zero_grid"
proof -
  have "Down (me demo_seat) = zero_grid" by (simp add: demo_seat_def me_def Ai_Init_def new_Ai_def UserPublic_Init_def)
  then obtain i where i: "i < 3" "Inv (me demo_ai) = int i" "Down (me demo_ai) = zero_grid"
      "\<forall>k < 3. sum_list (tile_grid demo_tiles ! i) \<le> sum_list (tile_grid demo_tiles ! k)"
    using InitNow_ready [OF demo_seat_ok(1,2), of demo_tiles] valid_hand_copies [OF demo_tiles_valid(1)]
    by (auto simp: demo_ai_def demo_seat_ok(3))
  moreover have "i = 0 \<or> i = 1 \<or> i = 2" using i(1) by linarith
  ultimately show "Inv (me demo_ai) = 2" "Down (me demo_ai) = zero_grid"
    using i(4) [rule_format, of 2] by (auto simp: demo_rows)
qed

text \<open>
  C3. On a decision state \<open>checkFull\<close> always returns \<open>full_value\<close>: the points of the hand, the
  declared sets and the given-up suit of the player's own seat, and with \<open>isMax\<close> one more than
  that, doubled for each of the first three seats whose flag \<open>IsF\<close> is set. The order of the block array and the way
  the caches were reached have no influence. A positive answer means that the hand is complete;
  the converse fails (\<open>GetWeightVal_misses_win\<close>).
\<close>

theorem checkFull_sound:
  assumes "ready a"
  shows "checkFull isMax a = Some (full_value isMax a) \<and> (0 < full_value isMax a \<longrightarrow> complete_hand (me a))"
  using checkFull_ready [OF assms] hand_points_complete [OF assms] by (simp add: full_value_pos_iff)

text \<open>Seven pairs of the first suit.\<close>

definition pairs_hand :: "byte list" where
  "pairs_hand = [0, 0, 1, 1, 2, 2, 3, 3, 4, 4, 5, 5, 6, 6]"

theorem checkFull_sound_witness:
  "\<exists>a. InitNow pairs_hand demo_seat = Some a \<and> checkFull True a = Some (full_value True a) \<and>
    0 < full_value True a \<and> complete_hand (me a)"
proof -
  have valid: "valid_hand pairs_hand" by (simp add: valid_hand_def pairs_hand_def copies_def)
  obtain a i where a: "InitNow pairs_hand demo_seat = Some a" "ready a" "Now (me a) = tile_grid pairs_hand"
      "i < 3" "Inv (me a) = int i" "\<forall>k < 3. sum_list (tile_grid pairs_hand ! i) \<le> sum_list (tile_grid pairs_hand ! k)"
    using InitNow_ready [OF demo_seat_ok(1,2), of pairs_hand] valid_hand_copies [OF valid] demo_seat_ok(3) by auto
  have rows: "tile_grid pairs_hand ! 0 = [2, 2, 2, 2, 2, 2, 2, 0, 0]"
      "tile_grid pairs_hand ! Suc 0 = [0, 0, 0, 0, 0, 0, 0, 0, 0]" "tile_grid pairs_hand ! 2 = [0, 0, 0, 0, 0, 0, 0, 0, 0]"
    by (simp_all add: tile_grid_def nth_grid_of upt_rec copies_def pairs_hand_def)
  have "sum_list (tile_grid pairs_hand ! i) \<le> 0" using a(6) [rule_format, of 2] by (simp add: rows)
  then have "0 < full_value True a"
    using a(3,5) by (simp add: full_value_pos_iff hand_points_pos_iff gives_up_held_def suits_def row_pairs_def row_count_def rows)
  with checkFull_sound [OF a(2), of True] a(1) show ?thesis by blast
qed

end
