(* ===== verification/MjaiJiao.thy ===== *)
theory MjaiJiao
  imports MjaiInit
begin

text \<open>
  \<open>CheckJiao\<close> and \<open>CheckAllJiao\<close> try tiles by changing the hand in place and changing it back.
  On a decision state both are shown to restore the whole state, so they are functions of it:
  \<open>jiao\<close> lists the tiles that complete the hand, best first.
\<close>

definition by_value :: "MJGrain list \<Rightarrow> MJGrain list" where
  "by_value = sort_key (col_key True 0)"

text \<open>The value of the hand with one more tile \<open>(i, j)\<close>.\<close>

definition drawn_value :: "bool \<Rightarrow> Ai \<Rightarrow> nat \<Rightarrow> nat \<Rightarrow> int" where
  "drawn_value isM a i j = full_value isM (place a i j (hand a i j + 1))"

definition wait_grain :: "bool \<Rightarrow> Ai \<Rightarrow> nat \<Rightarrow> nat \<Rightarrow> MJGrain" where
  "wait_grain isM a i j = \<lparr>gr_H = int i, gr_N = int j, gr_O = [drawn_value isM a i j]\<rparr>"

definition is_wait :: "int \<Rightarrow> bool \<Rightarrow> Ai \<Rightarrow> nat \<Rightarrow> nat \<Rightarrow> bool" where
  "is_wait isf isM a i j \<longleftrightarrow> hand a i j \<noteq> 4 \<and> drawn_value isM a i j > 0 \<and> drawn_value isM a i j \<ge> isf"

definition suit_waits :: "int \<Rightarrow> bool \<Rightarrow> Ai \<Rightarrow> nat option \<Rightarrow> MJGrain list" where
  "suit_waits isf isM a ptr = (if int (the ptr) = Inv (me a) then []
     else map (wait_grain isM a (the ptr)) (filter (is_wait isf isM a (the ptr)) [0..<9]))"

definition jiao :: "int \<Rightarrow> bool \<Rightarrow> Ai \<Rightarrow> MJGrain list" where
  "jiao isf isM a = (if gives_up_held (me a) then []
     else by_value (concat (map (suit_waits isf isM a) (Blocks a))))"

lemma by_value_insert:
  assumes "\<forall>g \<in> set gs. has_col 0 g" and "has_col 0 g"
  shows "SortdGrain (by_value gs @ [g]) (length gs) 0 = Some (by_value (gs @ [g]))"
proof -
  have "SortdGrain (by_value gs @ [g]) (length gs) 0 = Some (pass (col_key True 0) (by_value gs @ [g]) (length (by_value gs)))"
    using assms desc.step_pass [of "length gs" "by_value gs @ [g]" 0] by (simp add: by_value_def)
  also have "pass (col_key True 0) (by_value gs @ [g]) (length (by_value gs)) = ins_after (col_key True 0) g (by_value gs)"
    using pass_insert [of "col_key True 0" "by_value gs" g "[]"] by (simp add: by_value_def)
  finally show ?thesis by (simp add: by_value_def ins_after_sort_key)
qed

subsection \<open>Trying a tile and taking it back\<close>

text \<open>While suit \<open>i\<close> is being tried the state is the original one but for that block.\<close>

lemma try_tile:
  assumes "ready a" and "i < 3" and "j < 9" and "nb_I b = i" and "0 \<le> v" and "v \<le> 4"
  shows "set_now (with_block a i b) (int i) (int j) v = Some (with_block (put a i j v) i b)"
    and "update_block (with_block (put a i j v) i b) i = Some (place a i j v)"
    and "now_at (place a i j v) (int i) (int j) = Some v"
    and "set_now (place a i j v) (int i) (int j) (hand a i j) =
      Some (with_block a i (fresh_block (Now (me (put a i j v)) ! i) i))"
    and "nb_I (fresh_block (Now (me (put a i j v)) ! i) i) = i"
proof -
  have a: "ai_shape a" "blocks_ok a" "hand_ok a" using assms by (auto simp: ready_def)
  have p: "ai_shape (put a i j v)" "hand_ok (put a i j v)"
    using a assms by (auto simp: ai_shape_put hand_ok_put)
  then have row: "counts_ok (Now (me (put a i j v)) ! i)" using assms hand_row by blast
  show "set_now (with_block a i b) (int i) (int j) v = Some (with_block (put a i j v) i b)"
    using a assms by (simp add: set_now_ok put_with_block)
  show "update_block (with_block (put a i j v) i b) i = Some (place a i j v)"
    using p assms row a blocks_ok_with_block [of "put a i j v" b i]
    by (simp add: update_block_ok place_def)
  show "now_at (place a i j v) (int i) (int j) = Some v"
    using p assms a by (simp add: place_def now_at_ok hand_put)
  show "set_now (place a i j v) (int i) (int j) (hand a i j) =
      Some (with_block a i (fresh_block (Now (me (put a i j v)) ! i) i))"
    using p assms a by (simp add: place_def set_now_ok put_with_block put_put put_same)
  show "nb_I (fresh_block (Now (me (put a i j v)) ! i) i) = i" using Update_fresh(2) [OF row] .
qed

lemma settle:
  assumes "ready a" and "i < 3" and "nb_I b = i"
  shows "update_block (with_block a i b) i = Some a"
proof -
  have "counts_ok (Now (me a) ! i)" using assms hand_row by (auto simp: ready_def)
  then have "update_block (with_block a i b) i = Some (with_block a i (fresh_block (Now (me a) ! i) i))"
    using assms blocks_ok_with_block [of a b i] by (simp add: ready_def update_block_ok)
  then show ?thesis using ready_block [OF assms(1,2)] by (simp add: with_block_self)
qed

lemma hand_range: "ready a \<Longrightarrow> i < 3 \<Longrightarrow> j < 9 \<Longrightarrow> 0 \<le> hand a i j \<and> hand a i j \<le> 4"
  using hand_bounds by (auto simp: ready_def)

lemma now_at_ready: "ready a \<Longrightarrow> i < 3 \<Longrightarrow> j < 9 \<Longrightarrow> now_at (with_block a i b) (int i) (int j) = Some (hand a i j)"
  by (simp add: now_at_ok ready_def)

subsection \<open>CheckJiao\<close>

lemma jiao_rank_step:
  assumes "ready a" and "i < 3" and "j < 9" and "nb_I b = i" and "\<forall>g \<in> set gs. has_col 0 g"
  shows "\<exists>b'. nb_I b' = i \<and> jiao_rank isf isM i (by_value gs, with_block a i b) j =
    Some (by_value (gs @ (if is_wait isf isM a i j then [wait_grain isM a i j] else [])), with_block a i b')"
proof (cases "hand a i j = 4")
  case True
  then show ?thesis
    using assms by (auto simp: jiao_rank_def now_at_ready is_wait_def)
next
  case False
  then have v: "0 \<le> hand a i j + 1" "hand a i j + 1 \<le> 4" using hand_range assms by fastforce+
  note tried = try_tile [OF assms(1-4) v]
  have "checkFull isM (place a i j (hand a i j + 1)) = Some (drawn_value isM a i j)"
    using checkFull_ready [OF place_ok(1) [OF assms(1-3) v]] by (simp add: drawn_value_def)
  moreover have "SortdGrain (by_value gs @ [wait_grain isM a i j]) (length gs) 0 = Some (by_value (gs @ [wait_grain isM a i j]))"
    using assms(5) by (intro by_value_insert) (simp_all add: has_col_def wait_grain_def)
  moreover have "length (by_value gs) = length gs" by (simp add: by_value_def)
  ultimately show ?thesis
    using tried False assms(1-3)
    by (auto simp: jiao_rank_def now_at_ready is_wait_def wait_grain_def)
qed

lemma jiao_ranks:
  assumes "ready a" and "i < 3" and "n \<le> 9" and "nb_I b = i" and "\<forall>g \<in> set gs. has_col 0 g"
  shows "\<exists>b'. nb_I b' = i \<and> foldM (jiao_rank isf isM i) (by_value gs, with_block a i b) [0..<n] =
    Some (by_value (gs @ map (wait_grain isM a i) (filter (is_wait isf isM a i) [0..<n])), with_block a i b')"
  using assms(3)
proof (induction n)
  case 0
  then show ?case using assms by auto
next
  case (Suc n)
  let ?w = "map (wait_grain isM a i) (filter (is_wait isf isM a i) [0..<n])"
  obtain b1 where b1: "nb_I b1 = i" "foldM (jiao_rank isf isM i) (by_value gs, with_block a i b) [0..<n] =
      Some (by_value (gs @ ?w), with_block a i b1)"
    using Suc by auto
  have "\<forall>g \<in> set (gs @ ?w). has_col 0 g" using assms(5) by (auto simp: has_col_def wait_grain_def)
  then show ?case
    using jiao_rank_step [OF assms(1,2) _ b1(1), of n "gs @ ?w" isf isM] Suc.prems b1(2)
    by (auto simp: foldM_append)
qed

lemma jiao_block_ready:
  assumes "ready a" and "ptr \<in> set (Blocks a)" and "\<forall>g \<in> set gs. has_col 0 g"
  shows "jiao_block isf isM (by_value gs, a) ptr = Some (if forbidden (me a) ptr then (Some (), by_value gs, a)
    else (None, by_value (gs @ suit_waits isf isM a ptr), a))"
proof -
  obtain i where i: "ptr = Some i" "i < 3" using assms in_Blocks by (auto simp: ready_def)
  let ?b = "fresh_block (Now (me a) ! i) i"
  have shape: "ai_shape a" and row: "counts_ok (Now (me a) ! i)" using assms i hand_row by (auto simp: ready_def)
  have b: "BlocksMap a i = Some ?b" "nb_I ?b = i" "SumLen ?b = sum_list (Now (me a) ! i)"
    using ready_block [OF assms(1) i(2)] Update_fresh(2) fresh_facts(2) row by auto
  obtain b' where b': "nb_I b' = i" "foldM (jiao_rank isf isM i) (by_value gs, a) [0..<9] =
      Some (by_value (gs @ map (wait_grain isM a i) (filter (is_wait isf isM a i) [0..<9])), with_block a i b')"
    using jiao_ranks [OF assms(1) i(2) order_refl b(2) assms(3), of isf isM] with_block_self [OF b(1)] by auto
  show ?thesis
    using b b' i settle [OF assms(1) i(2) b'(1)] row
    by (auto simp: jiao_block_def deref_def seat_me [OF shape] block_No_ok [OF shape] forbidden_def
        suit_waits_def counts_ok_def)
qed

lemma jiao_blocks:
  assumes "ready a"
  shows "set ptrs \<subseteq> set (Blocks a) \<Longrightarrow> \<forall>g \<in> set gs. has_col 0 g \<Longrightarrow>
    \<exists>gr. findM (jiao_block isf isM) (by_value gs, a) ptrs = Some (if \<exists>p \<in> set ptrs. forbidden (me a) p then (Some (), gr, a)
      else (None, by_value (gs @ concat (map (suit_waits isf isM a) ptrs)), a))"
proof (induction ptrs arbitrary: gs)
  case Nil
  then show ?case by simp
next
  case (Cons p ptrs)
  have "\<forall>g \<in> set (gs @ suit_waits isf isM a p). has_col 0 g"
    using Cons.prems(2) by (auto simp: suit_waits_def has_col_def wait_grain_def)
  then show ?case
    using Cons.IH [of "gs @ suit_waits isf isM a p"] Cons.prems jiao_block_ready [OF assms, of p gs isf isM]
    by (cases "forbidden (me a) p") auto
qed

lemma forbidden_Blocks:
  assumes "blocks_ok a"
  shows "(\<exists>p \<in> set (Blocks a). forbidden q p) \<longleftrightarrow> gives_up_held q"
  using in_Blocks [OF assms] unfolding forbidden_def gives_up_held_def by (metis option.sel)

lemma CheckJiao_ready:
  assumes "ready a"
  shows "CheckJiao isf isM a = Some (jiao isf isM a, a)"
proof -
  have eq: "by_value [] = []" by (simp add: by_value_def)
  show ?thesis
    using jiao_blocks [OF assms, of "Blocks a" "[]" isf isM] assms
    by (auto simp: CheckJiao_def jiao_def forbidden_Blocks ready_def eq)
qed

lemma set_jiao:
  assumes "ready a"
  shows "g \<in> set (jiao isf isM a) \<longleftrightarrow> \<not> gives_up_held (me a) \<and>
    (\<exists>i < 3. \<exists>j < 9. int i \<noteq> Inv (me a) \<and> is_wait isf isM a i j \<and> g = wait_grain isM a i j)"
proof -
  have "g \<in> set (jiao isf isM a) \<longleftrightarrow> \<not> gives_up_held (me a) \<and> (\<exists>p \<in> set (Blocks a). g \<in> set (suit_waits isf isM a p))"
    by (auto simp: jiao_def by_value_def)
  also have "(\<exists>p \<in> set (Blocks a). g \<in> set (suit_waits isf isM a p)) \<longleftrightarrow> (\<exists>i < 3. g \<in> set (suit_waits isf isM a (Some i)))"
    using assms in_Blocks by (auto simp: ready_def)
  finally show ?thesis by (auto simp: suit_waits_def)
qed

lemma jiao_sorted: "sorted_wrt (\<lambda>g h. gr_O h ! 0 \<le> gr_O g ! 0) (jiao isf isM a)"
proof -
  have "sorted (map (col_key True 0) (by_value gs))" for gs by (simp add: by_value_def)
  then have "sorted_wrt (\<lambda>g h. gr_O h ! 0 \<le> gr_O g ! 0) (by_value gs)" for gs
    by (simp add: sorted_map col_key_def)
  then show ?thesis by (simp add: jiao_def)
qed

lemma wait_completes:
  assumes "ready a" and "i < 3" and "j < 9" and "is_wait isf isM a i j"
  shows "complete_hand (me (place a i j (hand a i j + 1)))"
proof -
  have v: "0 \<le> hand a i j + 1" "hand a i j + 1 \<le> 4"
    using hand_range [OF assms(1-3)] assms(4) by (auto simp: is_wait_def)
  show ?thesis
    using hand_points_complete [OF place_ok(1) [OF assms(1-3) v]] assms(4)
    by (simp add: is_wait_def drawn_value_def full_value_pos_iff)
qed

text \<open>
  C7. \<open>CheckJiao\<close> tries every tile by changing the hand in place; on a decision state it always
  returns and leaves the whole state as it was. While a tile of the given-up suit is held its
  answer is empty. Otherwise the answer is exactly the tiles outside the given-up suit, not already
  held four times, whose draw the evaluator \<open>checkFull\<close> values above 0 and at least \<open>isf\<close>, in
  descending order of that value. Each tile listed really completes the hand. A tile that
  completes the hand may be missing: when its value is below \<open>isf\<close>, or when the evaluator does
  not see the complete hand (\<open>GetWeightVal_misses_win\<close>).
\<close>

theorem CheckJiao_spec:
  assumes "ready a"
  shows "\<exists>gr. CheckJiao isf isM a = Some (gr, a) \<and>
    (\<forall>g. g \<in> set gr \<longleftrightarrow> \<not> gives_up_held (me a) \<and>
       (\<exists>i < 3. \<exists>j < 9. int i \<noteq> Inv (me a) \<and> is_wait isf isM a i j \<and> g = wait_grain isM a i j)) \<and>
    (\<forall>i < 3. \<forall>j < 9. is_wait isf isM a i j \<longrightarrow> complete_hand (me (place a i j (hand a i j + 1)))) \<and>
    sorted_wrt (\<lambda>g h. gr_O h ! 0 \<le> gr_O g ! 0) gr"
  using CheckJiao_ready [OF assms, of isf isM] set_jiao [OF assms, of _ isf isM] jiao_sorted [of isf isM a]
    wait_completes [OF assms, of _ _ isf isM] by blast

theorem CheckJiao_spec_witness:
  "\<exists>gr. CheckJiao 0 True demo_ai = Some (gr, demo_ai) \<and> sorted_wrt (\<lambda>g h. gr_O h ! 0 \<le> gr_O g ! 0) gr"
  using CheckJiao_spec [OF demo_ai_ready(1), of 0 True] by blast

subsection \<open>CheckAllJiao\<close>

definition visible :: "Ai \<Rightarrow> nat \<Rightarrow> nat \<Rightarrow> int" where
  "visible a i j = sum_list (map (\<lambda>p. Down (the p) ! i ! j + See (the p) ! i ! j) (Public a))"

lemma public_num_fold:
  assumes "\<forall>p \<in> set ps. \<exists>q. p = Some q \<and> public_ok q" and "i < 3" and "j < 9"
    and "gr_H g = int i" and "gr_N g = int j"
  shows "foldM (public_num1 g) n ps = Some (n + sum_list (map (\<lambda>p. Down (the p) ! i ! j + See (the p) ! i ! j) ps))"
  using assms(1)
  by (induction ps arbitrary: n) (use assms(2-5) in \<open>auto simp: public_num1_def public_ok_def cell_ok\<close>)

lemma GetPublicNum_ok:
  assumes "ai_shape a" and "i < 3" and "j < 9" and "gr_H g = int i" and "gr_N g = int j"
  shows "GetPublicNum g isNow a = Some ((if isNow then hand a i j else 0) + visible a i j)"
  using assms public_num_fold [of "Public a" i j g]
  by (simp add: GetPublicNum_def now_at_ok visible_def ai_shape_def)

text \<open>The hand after discarding a tile.\<close>

definition without :: "Ai \<Rightarrow> nat \<Rightarrow> nat \<Rightarrow> Ai" where
  "without a i j = place a i j (hand a i j - 1)"

lemma without_ready: "ready a \<Longrightarrow> i < 3 \<Longrightarrow> j < 9 \<Longrightarrow> 0 < hand a i j \<Longrightarrow> ready (without a i j)"
  unfolding without_def using hand_range [of a i j] by (intro place_ok(1)) auto

text \<open>A discard candidate: its first column is the number of tiles the remaining hand waits for.\<close>

definition candidate :: "int \<Rightarrow> Ai \<Rightarrow> MJGrain \<Rightarrow> bool" where
  "candidate isf a g \<longleftrightarrow> (\<exists>i < 3. \<exists>j < 9. gr_H g = int i \<and> gr_N g = int j \<and> 0 < hand a i j \<and>
     jiao isf True (without a i j) \<noteq> [] \<and> length (gr_O g) = 5 \<and>
     gr_O g ! 0 = int (length (jiao isf True (without a i j))) \<and> gr_O g ! 4 = hand a i j)"

definition copies_kept :: "int \<Rightarrow> int" where
  "copies_kept isf = (if isf > 0 then 1 else 2)"

lemma remaining_total:
  assumes "ai_shape a" and "\<forall>g \<in> set gs. \<exists>i < 3. \<exists>j < 9. gr_H g = int i \<and> gr_N g = int j"
  shows "\<exists>n. foldM (remaining a) m gs = Some n"
proof -
  have "\<exists>n. remaining a m g = Some n" if "g \<in> set gs" for m g
    using assms that GetPublicNum_ok by (fastforce simp: remaining_def)
  then show ?thesis using foldM_total [of "\<lambda>_. True" m gs "remaining a"] by blast
qed

lemma alljiao_rank_step:
  assumes "ready a" and "i < 3" and "j < 9" and "nb_I b = i" and "0 < hand a i j"
  shows "\<exists>b' new. nb_I b' = i \<and> alljiao_rank isf i (for4, ji, with_block a i b) j =
      Some (for4 @ (if hand a i j > copies_kept isf then new else []),
            ji @ (if hand a i j > copies_kept isf then [] else new), with_block a i b') \<and>
    (if jiao isf True (without a i j) = [] then new = []
     else \<exists>g. new = [g] \<and> gr_H g = int i \<and> gr_N g = int j \<and> candidate isf a g)"
proof -
  have v: "0 \<le> hand a i j - 1" "hand a i j - 1 \<le> 4" using hand_range [OF assms(1-3)] assms(5) by auto
  let ?n = "hand a i j" and ?gs = "jiao isf True (without a i j)"
  note tried = try_tile [OF assms(1-4) v]
  let ?b = "fresh_block (Now (me (put a i j (?n - 1))) ! i) i" and ?a = "with_block a i (fresh_block (Now (me (put a i j (?n - 1))) ! i) i)"
  have wr: "ready (without a i j)" using assms without_ready by blast
  have jiao: "CheckJiao isf True (place a i j (?n - 1)) = Some (?gs, place a i j (?n - 1))"
    using CheckJiao_ready [OF wr] by (simp add: without_def)
  have shape: "ai_shape ?a" using assms by (simp add: ready_def)
  obtain n1 where n1: "foldM (remaining ?a) 0 ?gs = Some n1"
    using remaining_total [OF shape, of ?gs 0] set_jiao [OF wr] by (fastforce simp: wait_grain_def)
  have pub: "GetPublicNum \<lparr>gr_H = int i, gr_N = int j, gr_O = []\<rparr> False ?a = Some (visible ?a i j)"
    using GetPublicNum_ok [OF shape assms(2,3)] by simp
  have hd: "idx (gr_O g) 0 = Some (gr_O g ! 0)" if "g \<in> set ?gs" for g
    using that set_jiao [OF wr] by (auto simp: wait_grain_def idx_def)
  show ?thesis
  proof (cases ?gs)
    case Nil
    then show ?thesis
      using tried jiao assms(1-3) by (auto simp: alljiao_rank_def now_at_ready)
  next
    case (Cons g0 rest)
    let ?g = "\<lparr>gr_H = int i, gr_N = int j,
      gr_O = [int (length ?gs), n1, if visible ?a i j > 0 then 1 else 0, gr_O g0 ! 0, ?n]\<rparr>"
    have "candidate isf a ?g" using assms Cons by (auto simp: candidate_def)
    moreover have "alljiao_rank isf i (for4, ji, with_block a i b) j =
      Some (if ?n > copies_kept isf then (for4 @ [?g], ji, ?a) else (for4, ji @ [?g], ?a))"
      using tried jiao assms(1-3) n1 pub hd [of g0] Cons
      by (simp add: alljiao_rank_def now_at_ready copies_kept_def del: foldM.simps)
    ultimately show ?thesis using Cons tried(5)
      by (intro exI [of _ ?b] exI [of _ "[?g]"]) auto
  qed
qed

text \<open>What has been collected once the tiles in \<open>seen\<close> have been tried.\<close>

definition collected :: "int \<Rightarrow> Ai \<Rightarrow> (nat \<times> nat) set \<Rightarrow> MJGrain list \<Rightarrow> MJGrain list \<Rightarrow> bool" where
  "collected isf a seen for4 ji \<longleftrightarrow>
     (\<forall>g \<in> set for4. candidate isf a g \<and> gr_O g ! 4 > copies_kept isf) \<and>
     (\<forall>g \<in> set ji. candidate isf a g \<and> gr_O g ! 4 \<le> copies_kept isf) \<and>
     (\<forall>(i, j) \<in> seen. jiao isf True (without a i j) \<noteq> [] \<longrightarrow>
        (\<exists>g \<in> set (if hand a i j > copies_kept isf then for4 else ji). gr_H g = int i \<and> gr_N g = int j))"

lemma alljiao_ranks:
  assumes "ready a" and "i < 3"
  shows "collected isf a seen for4 ji \<Longrightarrow> nb_I b = i \<Longrightarrow> \<forall>j \<in> set js. j < 9 \<and> 0 < hand a i j \<Longrightarrow>
    \<exists>for4' ji' b'. foldM (alljiao_rank isf i) (for4, ji, with_block a i b) js = Some (for4', ji', with_block a i b') \<and>
      nb_I b' = i \<and> collected isf a (seen \<union> {i} \<times> set js) for4' ji'"
proof (induction js arbitrary: seen for4 ji b)
  case Nil
  then show ?case by auto
next
  case (Cons j js)
  then have j: "j < 9" "0 < hand a i j" by auto
  obtain b1 new where step: "nb_I b1 = i" "alljiao_rank isf i (for4, ji, with_block a i b) j =
      Some (for4 @ (if hand a i j > copies_kept isf then new else []),
            ji @ (if hand a i j > copies_kept isf then [] else new), with_block a i b1)"
      "if jiao isf True (without a i j) = [] then new = []
       else \<exists>g. new = [g] \<and> gr_H g = int i \<and> gr_N g = int j \<and> candidate isf a g"
    using alljiao_rank_step [OF assms j(1) Cons.prems(2) j(2)] by metis
  let ?for4 = "for4 @ (if hand a i j > copies_kept isf then new else [])"
    and ?ji = "ji @ (if hand a i j > copies_kept isf then [] else new)"
  have "gr_O g ! 4 = hand a i j" if "g \<in> set new" for g
    using step(3) that by (auto simp: candidate_def split: if_splits)
  then have "collected isf a (insert (i, j) seen) ?for4 ?ji"
    using Cons.prems(1) step(3) by (fastforce simp: collected_def split: if_splits)
  from Cons.IH [OF this step(1)] Cons.prems(3) step(2) show ?case by fastforce
qed

lemma held_ranks:
  assumes "ai_shape a" and "hand_ok a" and "i < 3"
  shows "set (nonzero (Now (me a) ! i) (length (Now (me a) ! i))) = {j. j < 9 \<and> 0 < hand a i j}"
  using hand_row [OF assms] hand_bounds [OF assms]
  unfolding nonzero_def by (auto simp: counts_ok_def hand_def le_less)

lemma alljiao_block_ready:
  assumes "ready a" and "i < 3" and "collected isf a seen for4 ji"
  shows "\<exists>for4' ji'. alljiao_block isf (for4, ji, a) (Some i) = Some (for4', ji', a) \<and>
    collected isf a (seen \<union> {i} \<times> {j. j < 9 \<and> 0 < hand a i j}) for4' ji'"
proof -
  let ?b = "fresh_block (Now (me a) ! i) i" and ?row = "Now (me a) ! i"
  have row: "counts_ok ?row" using assms hand_row by (auto simp: ready_def)
  have b: "BlocksMap a i = Some ?b" "nb_I ?b = i" "concat (map chBl (Child ?b)) = nonzero ?row (length ?row)"
    using ready_block [OF assms(1,2)] Update_fresh(2) fresh_facts(1) row by (auto simp: children_of_def)
  have set: "set (nonzero ?row (length ?row)) = {j. j < 9 \<and> 0 < hand a i j}"
    using assms held_ranks by (simp add: ready_def)
  obtain for4' ji' b' where "foldM (alljiao_rank isf i) (for4, ji, a) (nonzero ?row (length ?row)) = Some (for4', ji', with_block a i b')"
      "nb_I b' = i" "collected isf a (seen \<union> {i} \<times> {j. j < 9 \<and> 0 < hand a i j}) for4' ji'"
    using alljiao_ranks [OF assms(1-3) b(2), of "nonzero ?row (length ?row)"] set with_block_self [OF b(1)] by auto
  then show ?thesis
    using b settle [OF assms(1,2)] by (auto simp: alljiao_block_def deref_def)
qed

definition held_tiles :: "Ai \<Rightarrow> (nat \<times> nat) set" where
  "held_tiles a = {(i, j). i < 3 \<and> j < 9 \<and> 0 < hand a i j}"

lemma alljiao_blocks:
  assumes "ready a"
  shows "\<exists>for4 ji. foldM (alljiao_block isf) ([], [], a) (Blocks a) = Some (for4, ji, a) \<and>
    collected isf a (held_tiles a) for4 ji"
proof -
  have bok: "blocks_ok a" using assms by (simp add: ready_def)
  have step: "\<exists>for4' ji'. foldM (alljiao_block isf) (for4, ji, a) ptrs = Some (for4', ji', a) \<and>
      collected isf a (seen \<union> {(i, j). Some i \<in> set ptrs \<and> j < 9 \<and> 0 < hand a i j}) for4' ji'"
    if "set ptrs \<subseteq> set (Blocks a)" "collected isf a seen for4 ji" for ptrs seen for4 ji
    using that
  proof (induction ptrs arbitrary: seen for4 ji)
    case Nil
    then show ?case by simp
  next
    case (Cons p ptrs)
    then obtain i where i: "p = Some i" "i < 3" using in_Blocks [OF bok] by auto
    obtain for4' ji' where 1: "alljiao_block isf (for4, ji, a) p = Some (for4', ji', a)"
        "collected isf a (seen \<union> {i} \<times> {j. j < 9 \<and> 0 < hand a i j}) for4' ji'"
      using alljiao_block_ready [OF assms i(2) Cons.prems(2)] i by blast
    have "seen \<union> {i} \<times> {j. j < 9 \<and> 0 < hand a i j} \<union> {(i, j). Some i \<in> set ptrs \<and> j < 9 \<and> 0 < hand a i j} =
        seen \<union> {(i, j). Some i \<in> set (p # ptrs) \<and> j < 9 \<and> 0 < hand a i j}"
      using i by auto
    with Cons.IH [OF _ 1(2)] Cons.prems(1) 1(1) show ?case by auto
  qed
  have "collected isf a {} [] []" by (simp add: collected_def)
  moreover have "{(i, j). Some i \<in> set (Blocks a) \<and> j < 9 \<and> 0 < hand a i j} = held_tiles a"
    using in_Blocks [OF bok] by (auto simp: held_tiles_def)
  ultimately show ?thesis using step [of "Blocks a" "{}" "[]" "[]"] by simp
qed

text \<open>The discards \<open>CheckAllJiao\<close> considers: held tiles whose loss leaves a waiting hand; playing
  for at least \<open>isf > 0\<close> points it never breaks a pair.\<close>

definition ready_discards :: "int \<Rightarrow> Ai \<Rightarrow> (nat \<times> nat) set" where
  "ready_discards isf a = {(i, j) \<in> held_tiles a. jiao isf True (without a i j) \<noteq> [] \<and> (isf > 0 \<longrightarrow> hand a i j = 1)}"

lemma CheckAllJiao_ready:
  assumes "ready a"
  shows "\<exists>r. CheckAllJiao isf a = Some (r, a) \<and>
    (case r of None \<Rightarrow> ready_discards isf a = {}
     | Some g \<Rightarrow> \<exists>(i, j) \<in> ready_discards isf a. gr_H g = int i \<and> gr_N g = int j)"
proof -
  let ?isd = "[True, True, True, True, False]"
  obtain for4 ji where f: "foldM (alljiao_block isf) ([], [], a) (Blocks a) = Some (for4, ji, a)"
      and c: "collected isf a (held_tiles a) for4 ji"
    using alljiao_blocks [OF assms] by blast
  have pick: "\<exists>g. SortGrainArrs gs 0 ?isd = Some g \<and> g \<in> set gs" if "gs \<noteq> []" "\<forall>g \<in> set gs. candidate isf a g" for gs
    using that by (intro SortGrainArrs_in) (auto simp: candidate_def)
  have mem: "\<exists>(i, j) \<in> ready_discards isf a. gr_H g = int i \<and> gr_N g = int j"
    if "candidate isf a g" "isf > 0 \<longrightarrow> gr_O g ! 4 = 1" for g
    using that by (force simp: candidate_def ready_discards_def held_tiles_def)
  have ji1: "\<exists>(i, j) \<in> ready_discards isf a. gr_H g = int i \<and> gr_N g = int j" if "g \<in> set ji" for g
  proof (rule mem)
    show "candidate isf a g" using c that by (auto simp: collected_def)
    then show "isf > 0 \<longrightarrow> gr_O g ! 4 = 1"
      using c that by (fastforce simp: collected_def copies_kept_def candidate_def split: if_splits)
  qed
  show ?thesis
  proof (cases "ji = []")
    case False
    then show ?thesis using f pick [of ji] c ji1 by (fastforce simp: CheckAllJiao_def collected_def)
  next
    case True
    show ?thesis
    proof (cases "for4 \<noteq> [] \<and> isf \<le> 0")
      case 2: True
      obtain g where g: "SortGrainArrs for4 0 ?isd = Some g" "g \<in> set for4"
        using pick [of for4] 2 c by (auto simp: collected_def)
      then have "\<exists>(i, j) \<in> ready_discards isf a. gr_H g = int i \<and> gr_N g = int j"
        using c 2 by (intro mem) (auto simp: collected_def)
      then show ?thesis using f True 2 g by (simp add: CheckAllJiao_def)
    next
      case 3: False
      have "ready_discards isf a = {}"
        using c True 3 by (fastforce simp: collected_def ready_discards_def copies_kept_def split: if_splits)
      then show ?thesis using f True 3 by (auto simp: CheckAllJiao_def)
    qed
  qed
qed

text \<open>
  C15. \<open>CheckAllJiao\<close> discards every held tile in turn and asks \<open>CheckJiao\<close> about the rest, all by
  changing the hand in place. On a decision state it always returns and restores the whole
  state. A held tile counts as a candidate when \<open>CheckJiao isf\<close> lists some tile for the rest of the
  hand and, for \<open>isf > 0\<close>, when it is also the only one of its kind in the hand (a hand that waits
  only after breaking up a pair has no candidate then). It answers a tile exactly when there is a candidate, and the tile
  it answers is one.
\<close>

theorem CheckAllJiao_spec:
  assumes "ready a"
  shows "\<exists>r. CheckAllJiao isf a = Some (r, a) \<and>
    (case r of None \<Rightarrow> ready_discards isf a = {}
     | Some g \<Rightarrow> \<exists>(i, j) \<in> ready_discards isf a. gr_H g = int i \<and> gr_N g = int j)"
  using assms by (rule CheckAllJiao_ready)

theorem CheckAllJiao_spec_witness:
  "\<exists>r. CheckAllJiao 0 demo_ai = Some (r, demo_ai) \<and>
    (case r of None \<Rightarrow> ready_discards 0 demo_ai = {}
     | Some g \<Rightarrow> \<exists>(i, j) \<in> ready_discards 0 demo_ai. gr_H g = int i \<and> gr_N g = int j)"
  by (rule CheckAllJiao_spec [OF demo_ai_ready(1)])

end
