(* ===== verification/MjaiOuts.thy ===== *)
theory MjaiOuts
  imports MjaiJiao
begin

text \<open>
  Discarding. \<open>EasyOuts\<close> ranks the held tiles; \<open>SelfSee\<close> looks for a win or a fourth tile;
  \<open>Outs\<close> puts them together. The theorems say when a discard is found, that it is a tile the
  player holds, and what the two special answers (33 a win, 32 a fourth tile) mean.
\<close>

subsection \<open>EasyOuts\<close>

text \<open>\<open>Outs\<close> ranks tiles after \<open>RunFind\<close> has extended the candidates in \<open>We\<close>; the runs are still
  those of the hand.\<close>

definition children_current :: "Ai \<Rightarrow> bool" where
  "children_current a \<longleftrightarrow> ai_shape a \<and> blocks_ok a \<and> hand_ok a \<and>
     (\<forall>i < 3. children_of (Now (me a) ! i) (Child (the (BlocksMap a i))))"

lemma ready_children: "ready a \<Longrightarrow> children_current a"
  using ready_block [of a] hand_row [of a] fresh_facts(1)
  by (simp add: children_current_def ready_def)

definition easy_grain :: "Ai \<Rightarrow> nat \<Rightarrow> ChildBlock \<Rightarrow> nat \<Rightarrow> MJGrain" where
  "easy_grain a i ch j = \<lparr>gr_H = int i, gr_N = int j, gr_O = [hand a i j, visible a i j, Wei ch, chLen ch]\<rparr>"

definition easy_grains :: "Ai \<Rightarrow> nat option \<Rightarrow> MJGrain list" where
  "easy_grains a ptr = (let b = the (BlocksMap a (the ptr)) in
     concat (map (\<lambda>ch. map (easy_grain a (the ptr) ch) (chBl ch)) (Child b)))"

lemma GetMJGrainList_ok:
  assumes "ai_shape a" and "i < 3" and "nb_I b = i" and "\<forall>ch \<in> set (Child b). \<forall>j \<in> set (chBl ch). j < 9"
  shows "GetMJGrainList a (Now (me a) ! i) b = Some (concat (map (\<lambda>ch. map (easy_grain a i ch) (chBl ch)) (Child b)))"
proof -
  have "grain_of a i (Now (me a) ! i) ch gs j = Some (gs @ [easy_grain a i ch j])" if "j < 9" for ch gs j
    using GetPublicNum_ok [OF assms(1,2) that] by (simp add: grain_of_def easy_grain_def hand_def)
  then have "foldM (grain_of a i (Now (me a) ! i) ch) gs (chBl ch) = Some (gs @ map (easy_grain a i ch) (chBl ch))"
    if "ch \<in> set (Child b)" for ch gs
    using foldM_collect [of "chBl ch" "grain_of a i (Now (me a) ! i) ch" "\<lambda>j. [easy_grain a i ch j]" gs] assms(4) that
    by auto
  then show ?thesis
    using foldM_collect [of "Child b" "\<lambda>gs ch. foldM (grain_of a (nb_I b) (Now (me a) ! i) ch) gs (chBl ch)"
        "\<lambda>ch. map (easy_grain a i ch) (chBl ch)" "[]"] assms(3)
    by (simp add: GetMJGrainList_def)
qed

lemma child_ranks:
  assumes "children_current a" and "i < 3"
  shows "set (concat (map chBl (Child (the (BlocksMap a i))))) = {j. j < 9 \<and> 0 < hand a i j}"
  using assms held_ranks [of a i] by (simp add: children_current_def children_of_def)

text \<open>\<open>EasyOuts\<close> ranks the tiles in the cached runs; they need not be those of the hand.\<close>

definition cached_tiles :: "Ai \<Rightarrow> (nat \<times> nat) set" where
  "cached_tiles a = {(i, j). i < 3 \<and> j \<in> set (concat (map chBl (Child (the (BlocksMap a i)))))}"

definition rankable :: "Ai \<Rightarrow> bool" where
  "rankable a \<longleftrightarrow> ai_shape a \<and> blocks_ok a \<and> (\<forall>(i, j) \<in> cached_tiles a. j < 9)"

lemma easy_all:
  assumes "rankable a"
  shows "EasyOuts a = SortGrainArrs (concat (map (easy_grains a) (Blocks a))) 0 [False, True, False, False]"
proof -
  have ok: "ai_shape a" "blocks_ok a" using assms by (auto simp: rankable_def)
  have "(do { b \<leftarrow> deref a p; No \<leftarrow> block_No a (nb_I b); gs \<leftarrow> GetMJGrainList a No b; Some (grs @ gs) }) =
      Some (grs @ easy_grains a p)" if p: "p \<in> set (Blocks a)" for p grs
  proof -
    obtain i where i: "p = Some i" "i < 3" using in_Blocks [OF ok(2)] p by auto
    then obtain b where b: "BlocksMap a i = Some b" "nb_I b = i" using block_ok [OF ok(2)] by blast
    have "\<forall>ch \<in> set (Child b). \<forall>j \<in> set (chBl ch). j < 9"
      using assms b i by (fastforce simp: rankable_def cached_tiles_def)
    then show ?thesis
      using i b GetMJGrainList_ok [OF ok(1) i(2) b(2)]
      by (simp add: deref_def block_No_ok [OF ok(1)] easy_grains_def)
  qed
  then show ?thesis
    using foldM_collect [of "Blocks a" "\<lambda>grs ptr. do { b \<leftarrow> deref a ptr; No \<leftarrow> block_No a (nb_I b);
        gs \<leftarrow> GetMJGrainList a No b; Some (grs @ gs) }" "easy_grains a" "[]"]
    by (simp add: EasyOuts_def)
qed

definition grain_at :: "Ai \<Rightarrow> nat \<Rightarrow> nat \<Rightarrow> MJGrain \<Rightarrow> bool" where
  "grain_at a i j g \<longleftrightarrow> gr_H g = int i \<and> gr_N g = int j \<and> length (gr_O g) = 4 \<and> gr_O g ! 0 = hand a i j"

lemma easy_grains_mem:
  assumes "blocks_ok a"
  shows "g \<in> set (concat (map (easy_grains a) (Blocks a))) \<Longrightarrow> \<exists>(i, j) \<in> cached_tiles a. grain_at a i j g"
    and "(i, j) \<in> cached_tiles a \<Longrightarrow> \<exists>g \<in> set (concat (map (easy_grains a) (Blocks a))). grain_at a i j g"
proof -
  show "g \<in> set (concat (map (easy_grains a) (Blocks a))) \<Longrightarrow> \<exists>(i, j) \<in> cached_tiles a. grain_at a i j g"
    using in_Blocks [OF assms] by (fastforce simp: easy_grains_def easy_grain_def cached_tiles_def grain_at_def)
  assume h: "(i, j) \<in> cached_tiles a"
  then obtain ch where "ch \<in> set (Child (the (BlocksMap a i)))" "j \<in> set (chBl ch)" "i < 3"
    by (auto simp: cached_tiles_def)
  then have "easy_grain a i ch j \<in> set (easy_grains a (Some i))" "Some i \<in> set (Blocks a)"
    using in_Blocks [OF assms] by (auto simp: easy_grains_def)
  then have "easy_grain a i ch j \<in> set (concat (map (easy_grains a) (Blocks a)))" by auto
  then show "\<exists>g \<in> set (concat (map (easy_grains a) (Blocks a))). grain_at a i j g"
    by (rule rev_bexI) (simp add: easy_grain_def grain_at_def)
qed

lemma EasyOuts_cached:
  assumes "rankable a"
  shows "if cached_tiles a = {} then EasyOuts a = None
    else \<exists>g i j. EasyOuts a = Some g \<and> (i, j) \<in> cached_tiles a \<and> gr_H g = int i \<and> gr_N g = int j \<and>
      (\<forall>(k, m) \<in> cached_tiles a. hand a i j \<le> hand a k m)"
proof -
  let ?gs = "concat (map (easy_grains a) (Blocks a))" and ?isd = "[False, True, False, False]"
  have bok: "blocks_ok a" using assms by (simp add: rankable_def)
  note mem = easy_grains_mem [OF bok]
  show ?thesis
  proof (cases "cached_tiles a = {}")
    case True
    have "?gs = []"
    proof (rule ccontr)
      assume "?gs \<noteq> []"
      then have "hd ?gs \<in> set ?gs" by (rule hd_in_set)
      with mem(1) True show False by blast
    qed
    then have "EasyOuts a = SortGrainArrs [] 0 ?isd" unfolding easy_all [OF assms] by (rule arg_cong)
    with True show ?thesis by (simp add: SortGrainArrs.simps)
  next
    case False
    then have ne: "?gs \<noteq> []" using mem(2) by fastforce
    have "\<forall>g \<in> set ?gs. length ?isd \<le> length (gr_O g)" using mem(1) by (fastforce simp: grain_at_def)
    then obtain g where g: "SortGrainArrs ?gs 0 ?isd = Some g" "g \<in> set ?gs" "\<forall>h \<in> set ?gs. gr_O g ! 0 \<le> gr_O h ! 0"
      using SortGrainArrs_best [OF ne, of ?isd] by auto
    obtain i j where ij: "(i, j) \<in> cached_tiles a" "grain_at a i j g" using mem(1) [OF g(2)] by blast
    have "hand a i j \<le> hand a k m" if "(k, m) \<in> cached_tiles a" for k m
      using mem(2) [OF that] g(3) ij(2) by (fastforce simp: grain_at_def)
    then show ?thesis using False g(1) ij unfolding easy_all [OF assms] grain_at_def by auto
  qed
qed

lemma current_cached:
  assumes "children_current a"
  shows "cached_tiles a = held_tiles a" and "rankable a"
proof -
  show eq: "cached_tiles a = held_tiles a"
    using child_ranks [OF assms] unfolding cached_tiles_def held_tiles_def by auto
  show "rankable a"
    using assms unfolding rankable_def eq by (auto simp: children_current_def held_tiles_def)
qed

lemma EasyOuts_ok:
  assumes "children_current a"
  shows "if held_tiles a = {} then EasyOuts a = None
    else \<exists>g i j. EasyOuts a = Some g \<and> (i, j) \<in> held_tiles a \<and> gr_H g = int i \<and> gr_N g = int j \<and>
      (\<forall>(k, m) \<in> held_tiles a. hand a i j \<le> hand a k m)"
  using EasyOuts_cached [OF current_cached(2) [OF assms]] unfolding current_cached(1) [OF assms] .

text \<open>
  \<open>EasyOuts\<close> answers a tile the player holds, one with the fewest copies in hand; with no tile
  in hand at all it indexes an empty slice and panics.
\<close>

lemma EasyOuts_spec:
  assumes "ready a"
  shows "if held_tiles a = {} then EasyOuts a = None
    else \<exists>g i j. EasyOuts a = Some g \<and> (i, j) \<in> held_tiles a \<and> gr_H g = int i \<and> gr_N g = int j \<and>
      (\<forall>(k, m) \<in> held_tiles a. hand a i j \<le> hand a k m)"
  using assms by (intro EasyOuts_ok ready_children)

lemma EasyOuts_spec_witness:
  "\<exists>g i j. EasyOuts demo_ai = Some g \<and> (i, j) \<in> held_tiles demo_ai \<and> gr_H g = int i \<and> gr_N g = int j \<and>
    hand demo_ai i j \<le> hand demo_ai 0 0"
proof -
  have "(0, 0) \<in> held_tiles demo_ai" by (simp add: held_tiles_def hand_def demo_ai_ready(2) demo_rows)
  with EasyOuts_spec [OF demo_ai_ready(1)] show ?thesis by (fastforce split: if_splits)
qed

subsection \<open>SelfSee\<close>

text \<open>
  \<open>SelfSee\<close> walks over a copy of the hand. \<open>seen_inv a0 V a\<close>: after the tiles in \<open>V\<close> the state is a
  decision state again; a count is unchanged, or it was a single tile of a declared set and has
  been taken out; nothing has changed at the tiles not visited yet.
\<close>

definition lone_declared :: "Ai \<Rightarrow> nat \<Rightarrow> nat \<Rightarrow> bool" where
  "lone_declared a i j \<longleftrightarrow> int i \<noteq> Inv (me a) \<and> hand a i j = 1 \<and> Down (me a) ! i ! j \<noteq> 0"

definition seen_inv :: "Ai \<Rightarrow> (nat \<times> nat) set \<Rightarrow> Ai \<Rightarrow> bool" where
  "seen_inv a0 V a \<longleftrightarrow> ready a \<and> Inv (me a) = Inv (me a0) \<and>
     (\<forall>i < 3. \<forall>j < 9. hand a i j = hand a0 i j \<or> hand a i j = 0 \<and> lone_declared a0 i j) \<and>
     (\<forall>i < 3. \<forall>j < 9. (i, j) \<notin> V \<longrightarrow> hand a i j = hand a0 i j \<and> Down (me a) ! i ! j = Down (me a0) ! i ! j)"

definition fourth_tile :: "Ai \<Rightarrow> nat \<Rightarrow> nat \<Rightarrow> bool" where
  "fourth_tile a i j \<longleftrightarrow> i < 3 \<and> j < 9 \<and> int i \<noteq> Inv (me a) \<and> (hand a i j = 4 \<or> lone_declared a i j)"

definition declares :: "Ai \<Rightarrow> int \<Rightarrow> Ai \<Rightarrow> bool" where
  "declares a0 v a \<longleftrightarrow> v = 32 \<and> ready a \<and> (\<exists>i j. fourth_tile a0 i j)"

lemma seen_inv_mono: "seen_inv a0 V a \<Longrightarrow> V \<subseteq> W \<Longrightarrow> seen_inv a0 W a"
  unfolding seen_inv_def by blast

lemma seen_inv_down:
  assumes "seen_inv a0 V a" and "i < 3"
  shows "seen_inv a0 (insert (i, j) V) (set_me a ((me a)\<lparr>Down := (Down (me a))[i := (Down (me a) ! i)[j := v]]\<rparr>))"
proof -
  let ?p = "(me a)\<lparr>Down := (Down (me a))[i := (Down (me a) ! i)[j := v]]\<rparr>"
  have ra: "ready a" "ai_shape a" using assms by (auto simp: seen_inv_def ready_def)
  then have "ai_shape (set_me a ?p)"
    using me_ok [of a] assms(2) by (intro ai_shape_set_me) (auto simp: public_ok_def grid_ok_update)
  then have "ready (set_me a ?p)" using ra by (simp add: ready_def hand_ok_def in_sync_def)
  moreover have "hand (set_me a ?p) = hand a" using ra by (simp add: hand_def [abs_def])
  moreover have "Down ?p ! k ! m = Down (me a) ! k ! m" if "(k, m) \<noteq> (i, j)" "k < 3" for k m
    using that grid_length [OF down_grid [OF ra(2)]] by (cases "k = i") auto
  ultimately show ?thesis using assms ra by (auto simp: seen_inv_def)
qed

lemma me_place: "ai_shape a \<Longrightarrow> me (place a i j v) = (me a)\<lparr>Now := (Now (me a))[i := (Now (me a) ! i)[j := v]]\<rparr>"
  by (simp add: place_def me_put)

lemma hand_place: "ai_shape a \<Longrightarrow> i < 3 \<Longrightarrow> j < 9 \<Longrightarrow> k < 3 \<Longrightarrow> m < 9 \<Longrightarrow>
    hand (place a i j v) k m = (if k = i \<and> m = j then v else hand a k m)"
  by (simp add: place_def hand_put)

lemma seen_inv_take:
  assumes "seen_inv a0 V a" and "i < 3" and "j < 9" and "(i, j) \<notin> V" and "lone_declared a0 i j"
  shows "UpdateBlocksWeight False i j 1 a = Some (place a i j 0)" and "seen_inv a0 (insert (i, j) V) (place a i j 0)"
proof -
  have ra: "ready a" "ai_shape a" using assms by (auto simp: seen_inv_def ready_def)
  have h: "hand a i j = 1" using assms by (auto simp: seen_inv_def lone_declared_def)
  show "UpdateBlocksWeight False i j 1 a = Some (place a i j 0)"
    using ra h assms place_ok(2) [OF ra(1) assms(2,3), of 0]
    by (simp add: UpdateBlocksWeight_def now_at_ok set_now_ok)
  show "seen_inv a0 (insert (i, j) V) (place a i j 0)"
    using assms ra place_ok(1) [OF ra(1) assms(2,3), of 0]
    by (simp add: seen_inv_def me_place hand_place)
qed

lemma selfsee_rank_step:
  assumes "seen_inv a0 V a" and "i < 3" and "j < 9" and "(i, j) \<notin> V" and "int i \<noteq> Inv (me a0)" and "ai_shape a0"
  shows "\<exists>r a'. selfsee_rank isf i (Now (me a0) ! i) a j = Some (r, a') \<and>
    (case r of None \<Rightarrow> seen_inv a0 (insert (i, j) V) a' | Some v \<Rightarrow> declares a0 v a')"
proof -
  have ra: "ready a" "ai_shape a" using assms by (auto simp: seen_inv_def ready_def)
  have n: "Now (me a0) ! i ! j = hand a0 i j" by (simp add: hand_def)
  have down: "cell (Down (me a)) (int i) (int j) = Some (Down (me a0) ! i ! j)"
    using assms down_grid [OF ra(2)] by (simp add: cell_ok seen_inv_def)
  have rng: "0 \<le> hand a0 i j" using assms hand_range [OF ra(1), of i j] by (auto simp: seen_inv_def)
  have mono: "seen_inv a0 (insert (i, j) V) a" using assms(1) seen_inv_mono by blast
  consider "hand a0 i j = 0" | "hand a0 i j = 4" | "hand a0 i j \<notin> {0, 4}" "Down (me a0) ! i ! j = 0"
    | "hand a0 i j > 1" "hand a0 i j \<noteq> 4" "Down (me a0) ! i ! j \<noteq> 0" | "lone_declared a0 i j"
    using rng assms(5) unfolding lone_declared_def by fastforce
  then show ?thesis
  proof cases
    case 1
    with mono show ?thesis by (simp add: selfsee_rank_def n)
  next
    case 2
    then have "declares a0 32 a" using ra assms by (auto simp: declares_def fourth_tile_def)
    with 2 show ?thesis by (simp add: selfsee_rank_def n)
  next
    case 3
    with mono down show ?thesis by (simp add: selfsee_rank_def n seat_me [OF ra(2)])
  next
    case 4
    with down seen_inv_down [OF assms(1,2), of j 0] show ?thesis
      using down_grid [OF ra(2)] assms(2,3)
      by (simp add: selfsee_rank_def n seat_me [OF ra(2)] set_cell_ok set_seat_me [OF ra(2)])
  next
    case 5
    note taken = seen_inv_take [OF assms(1-4) 5]
    have "declares a0 32 a" "declares a0 32 (place a i j 0)"
      using ra 5 taken(2) assms by (auto simp: declares_def fourth_tile_def seen_inv_def)
    moreover have "CheckJiao isf True (place a i j 0) = Some (jiao isf True (place a i j 0), place a i j 0)"
      using taken(2) by (intro CheckJiao_ready) (simp add: seen_inv_def)
    ultimately show ?thesis
      using 5 down taken CheckJiao_ready [OF ra(1), of isf True]
      by (auto simp: selfsee_rank_def n seat_me [OF ra(2)] lone_declared_def)
  qed
qed

lemma selfsee_ranks:
  assumes "seen_inv a0 ({k. k < i} \<times> UNIV) a" and "i < 3" and "int i \<noteq> Inv (me a0)" and "ai_shape a0"
  shows "\<exists>r a'. findM (selfsee_rank isf i (Now (me a0) ! i)) a [0..<9] = Some (r, a') \<and>
    (case r of None \<Rightarrow> seen_inv a0 ({k. k < Suc i} \<times> UNIV) a' | Some v \<Rightarrow> declares a0 v a')"
proof -
  let ?V = "\<lambda>ys. {k. k < i} \<times> UNIV \<union> {i} \<times> set ys"
  have "\<exists>r a'. findM (selfsee_rank isf i (Now (me a0) ! i)) a [0..<9] = Some (r, a') \<and>
      (case r of None \<Rightarrow> seen_inv a0 (?V [0..<9]) a' | Some v \<Rightarrow> declares a0 v a')"
  proof (rule findM_prefix [where P = "\<lambda>ys. seen_inv a0 (?V ys)"])
    fix ys j zs s
    assume split: "[0..<9] = ys @ j # zs" and s: "seen_inv a0 (?V ys) s"
    from split have "distinct (ys @ j # zs)" and "j \<in> set [0..<9]" by (metis distinct_upt, simp)
    then have "(i, j) \<notin> ?V ys" "j < 9" by auto
    moreover have "insert (i, j) (?V ys) = ?V (ys @ [j])" by auto
    ultimately show "\<exists>r s'. selfsee_rank isf i (Now (me a0) ! i) s j = Some (r, s') \<and>
        (case r of None \<Rightarrow> seen_inv a0 (?V (ys @ [j])) s' | Some v \<Rightarrow> declares a0 v s')"
      using selfsee_rank_step [OF s assms(2) _ _ assms(3,4), of j isf] by metis
  qed (use assms in simp)
  moreover have "?V [0..<9] \<subseteq> {k. k < Suc i} \<times> UNIV" by auto
  ultimately show ?thesis using seen_inv_mono by (metis (no_types, lifting) option.case_eq_if)
qed

lemma selfsee_suits:
  assumes "ready a0"
  shows "\<exists>r a'. findM (selfsee_suit isf) a0 (enumerate 0 (Now (me a0))) = Some (r, a') \<and>
    (case r of None \<Rightarrow> seen_inv a0 UNIV a' | Some v \<Rightarrow> declares a0 v a')"
proof -
  let ?N = "Now (me a0)"
  have shape: "ai_shape a0" and grid: "grid_ok ?N" using assms now_grid by (auto simp: ready_def)
  have "\<exists>r a'. findM (selfsee_suit isf) a0 (enumerate 0 ?N) = Some (r, a') \<and>
      (case r of None \<Rightarrow> seen_inv a0 ({k. k < length (enumerate 0 ?N)} \<times> UNIV) a' | Some v \<Rightarrow> declares a0 v a')"
  proof (rule findM_prefix [where P = "\<lambda>ys. seen_inv a0 ({k. k < length ys} \<times> UNIV)"])
    show "seen_inv a0 ({k. k < length []} \<times> UNIV) a0" using assms by (simp add: seen_inv_def)
  next
    fix ys x zs s
    assume split: "enumerate 0 ?N = ys @ x # zs" and s: "seen_inv a0 ({k. k < length ys} \<times> UNIV) s"
    let ?i = "length ys"
    have i: "?i < 3" using arg_cong [OF split, of length] grid_length [OF grid] by simp
    have "x = enumerate 0 ?N ! ?i" using split by (simp add: nth_append)
    then have x: "x = (?i, ?N ! ?i)" using i grid_length [OF grid] by (simp add: nth_enumerate_eq)
    have ra: "ai_shape s" "Inv (me s) = Inv (me a0)" using s by (auto simp: seen_inv_def ready_def)
    show "\<exists>r s'. selfsee_suit isf s x = Some (r, s') \<and>
        (case r of None \<Rightarrow> seen_inv a0 ({k. k < length (ys @ [x])} \<times> UNIV) s' | Some v \<Rightarrow> declares a0 v s')"
    proof (cases "int ?i = Inv (me a0)")
      case True
      have "seen_inv a0 ({k. k < Suc ?i} \<times> UNIV) s" by (rule seen_inv_mono [OF s]) auto
      with True ra show ?thesis by (simp add: selfsee_suit_def x seat_me)
    next
      case False
      with selfsee_ranks [OF s i False shape, of isf] ra grid_rows [OF grid i] show ?thesis
        unfolding length_append_singleton by (simp add: selfsee_suit_def x seat_me)
    qed
  qed
  moreover have "seen_inv a0 UNIV a'" if "seen_inv a0 W a'" for W a' using that seen_inv_mono by blast
  ultimately show ?thesis by (metis (no_types, lifting) option.case_eq_if)
qed

lemma SelfSee_ready:
  assumes "ready a"
  shows "\<exists>v a'. SelfSee isf cOut a = Some (v, a') \<and>
    (v = 33 \<and> cOut = -1 \<and> complete_hand (me a) \<and> a' = a \<or> declares a v a' \<or> v = cOut \<and> seen_inv a UNIV a')"
proof -
  obtain r a' where r: "findM (selfsee_suit isf) a (enumerate 0 (Now (me a))) = Some (r, a')"
      "case r of None \<Rightarrow> seen_inv a UNIV a' | Some v \<Rightarrow> declares a v a'"
    using selfsee_suits [OF assms] by blast
  have "seat a 3 = Some (me a)" using assms by (simp add: seat_me ready_def)
  then show ?thesis
    using r checkFull_ready [OF assms, of True] hand_points_complete [OF assms]
    by (cases "cOut = -1 \<and> 0 < full_value True a")
      (auto simp: SelfSee_def full_value_pos_iff split: option.splits)
qed

subsection \<open>Outs\<close>

definition tile_held :: "Ai \<Rightarrow> int \<Rightarrow> bool" where
  "tile_held a t \<longleftrightarrow> (\<exists>(i, j) \<in> held_tiles a. t = int (9 * i + j))"

lemma tile_heldI: "(i, j) \<in> held_tiles a \<Longrightarrow> tile_held a (int i * 9 + int j)"
  unfolding tile_held_def by (rule bexI [of _ "(i, j)"]) simp_all

lemma block_tiles:
  assumes "ready a" and "i < 3"
  obtains b where "BlocksMap a i = Some b" and "nb_I b = i" and "SumLen b = sum_list (Now (me a) ! i)"
    and "set (concat (map chBl (Child b))) = {j. j < 9 \<and> 0 < hand a i j}"
    and "\<forall>g \<in> set (We b). grain_ok (Now (me a) ! i) i g"
proof -
  have row: "counts_ok (Now (me a) ! i)" using assms hand_row by (auto simp: ready_def)
  show ?thesis
    using that [OF ready_block [OF assms] Update_fresh(2) [OF row] fresh_facts(2) [OF row] _ fresh_facts(5) [OF row]]
      child_ranks [OF ready_children [OF assms(1)] assms(2)] ready_block [OF assms] by simp
qed

lemma flush_suit_ok:
  assumes "ready a"
  shows "set ptrs \<subseteq> set (Blocks a) \<Longrightarrow> \<exists>r. flush_suit a invs ptrs = Some r \<and> (\<forall>t. r = Some t \<longrightarrow> tile_held a t)"
proof (induction ptrs)
  case Nil
  then show ?case by simp
next
  case (Cons p ptrs)
  then obtain i where i: "p = Some i" "i < 3" using assms in_Blocks by (auto simp: ready_def)
  obtain b where b: "BlocksMap a i = Some b" "nb_I b = i" "set (concat (map chBl (Child b))) = {j. j < 9 \<and> 0 < hand a i j}"
    using block_tiles [OF assms i(2)] by metis
  have shape: "ai_shape a" using assms by (simp add: ready_def)
  then have down: "idx (Down (me a)) (int i) = Some (Down (me a) ! i)" using i grid_length [OF down_grid] by simp
  obtain r where r: "flush_suit a invs ptrs = Some r" "\<forall>t. r = Some t \<longrightarrow> tile_held a t" using Cons by auto
  have "tile_held a (int i * 9 + int j)" if "concat (map chBl (Child b)) = j # js" for j js
  proof -
    have "j \<in> set (concat (map chBl (Child b)))" using that by simp
    then have "j < 9 \<and> 0 < hand a i j" unfolding b(3) by simp
    then show ?thesis using i by (intro tile_heldI) (simp add: held_tiles_def)
  qed
  then show ?case
    using i b r down by (auto simp: deref_def seat_me [OF shape] split: list.split)
qed

text \<open>Ranking the candidates: \<open>RunFind\<close> adds the fourth column.\<close>

definition ranked :: "Ai \<Rightarrow> MJGrain \<Rightarrow> bool" where
  "ranked a g \<longleftrightarrow> length (gr_O g) = 4 \<and> (\<exists>(i, j) \<in> held_tiles a. gr_H g = int i \<and> gr_N g = int j)"

lemma RunFind_ok:
  assumes "ai_shape a" and "i < 3" and "\<forall>g \<in> set (We b). grain_ok (Now (me a) ! i) i g"
  shows "\<exists>we. RunFind a b = Some (b\<lparr>We := we\<rparr>) \<and> (\<forall>g \<in> set we. ranked a g)"
proof -
  have len: "length (Now (me a) ! i) = 9" using grid_rows [OF now_grid [OF assms(1)] assms(2)] .
  have grain: "\<exists>j < 9. gr_H g = int i \<and> gr_N g = int j \<and> 0 < hand a i j \<and> length (gr_O g) = 3" if "g \<in> set (We b)" for g
    using assms(3) that len by (auto simp: grain_ok_def hand_def)
  let ?g = "\<lambda>g. g\<lparr>gr_O := gr_O g @ [visible a i (nat (gr_N g))]\<rparr>"
  have num: "GetPublicNum g False a = Some (visible a i (nat (gr_N g)))" if "g \<in> set (We b)" for g
    using grain [OF that] GetPublicNum_ok [OF assms(1,2)] by force
  have "foldM (\<lambda>gs g. do { v \<leftarrow> GetPublicNum g False a; Some (gs @ [g\<lparr>gr_O := gr_O g @ [v]\<rparr>]) }) [] (We b) = Some ([] @ concat (map (\<lambda>g. [?g g]) (We b)))"
    by (rule foldM_collect) (simp add: num)
  moreover have "\<forall>g \<in> set (concat (map (\<lambda>g. [?g g]) (We b))). ranked a g"
    using grain assms(2) by (fastforce simp: ranked_def held_tiles_def)
  ultimately show ?thesis
    by (intro exI [of _ "concat (map (\<lambda>g. [?g g]) (We b))"]) (simp add: RunFind_def)
qed

lemma runfind_blocks:
  assumes "ready a"
  shows "set ptrs \<subseteq> set (Blocks a) \<Longrightarrow> distinct ptrs \<Longrightarrow> children_current a' \<Longrightarrow> Public a' = Public a \<Longrightarrow> Blocks a' = Blocks a \<Longrightarrow>
    \<forall>i. Some i \<in> set ptrs \<longrightarrow> BlocksMap a' i = BlocksMap a i \<Longrightarrow> \<forall>g \<in> set grs. ranked a g \<Longrightarrow>
    \<exists>grs' a''. foldM runfind_block (grs, a') ptrs = Some (grs', a'') \<and> children_current a'' \<and> Public a'' = Public a \<and>
      (\<forall>g \<in> set grs'. ranked a g)"
proof (induction ptrs arbitrary: grs a')
  case Nil
  then show ?case by simp
next
  case (Cons p ptrs)
  obtain i where i: "p = Some i" "i < 3" using Cons.prems(1) assms in_Blocks by (auto simp: ready_def)
  obtain b where b: "BlocksMap a i = Some b" "nb_I b = i" "\<forall>g \<in> set (We b). grain_ok (Now (me a) ! i) i g"
    using block_tiles [OF assms i(2)] by metis
  have b': "BlocksMap a' i = Some b" using Cons.prems(6) i b by simp
  have me: "me a' = me a" using Cons.prems(4) by (simp add: me_def)
  have ra: "ranked a' g = ranked a g" for g by (simp add: ranked_def held_tiles_def hand_def me)
  obtain we where we: "RunFind a' b = Some (b\<lparr>We := we\<rparr>)" "\<forall>g \<in> set we. ranked a g"
    using RunFind_ok [of a' i b] Cons.prems(3) i b me ra by (auto simp: children_current_def)
  let ?a = "with_block a' i (b\<lparr>We := we\<rparr>)"
  have cur: "children_current ?a"
    using Cons.prems(3) b b' by (auto simp: children_current_def blocks_ok_with_block)
  have step: "runfind_block (grs, a') p = Some (if SumLen b = 0 then (grs, a') else (grs @ we, ?a))"
    using i b' we by (simp add: runfind_block_def deref_def with_block_def)
  have rest: "\<forall>k. Some k \<in> set ptrs \<longrightarrow> k \<noteq> i" using Cons.prems(2) i by auto
  show ?case
  proof (cases "SumLen b = 0")
    case True
    then show ?thesis using Cons.IH [of a' grs] Cons.prems step by auto
  next
    case False
    have "\<exists>grs' a''. foldM runfind_block (grs @ we, ?a) ptrs = Some (grs', a'') \<and> children_current a'' \<and> Public a'' = Public a \<and>
      (\<forall>g \<in> set grs'. ranked a g)"
      using Cons.prems rest we(2) cur by (intro Cons.IH) auto
    with step False show ?thesis by simp
  qed
qed

lemma distinct_Blocks: "blocks_ok a \<Longrightarrow> distinct (Blocks a)"
  using mset_eq_imp_distinct_iff [of "Blocks a" "[Some 0, Some 1, Some 2]"] by (simp add: blocks_ok_def)

lemma outs_rank_ok:
  assumes "ready a" and "held_tiles a \<noteq> {}"
  shows "\<exists>v a'. outs_rank isf a = Some (v, a') \<and> tile_held a v"
proof -
  obtain grs a1 where run: "foldM runfind_block ([], a) (Blocks a) = Some (grs, a1)" "children_current a1"
      "Public a1 = Public a" "\<forall>g \<in> set grs. ranked a g"
    using runfind_blocks [OF assms(1), of "Blocks a" a "[]"] ready_children [OF assms(1)] distinct_Blocks assms(1)
    by (auto simp: ready_def)
  have h1: "held_tiles a1 = held_tiles a" using run(3) by (simp add: held_tiles_def hand_def me_def)
  obtain g i j where g: "EasyOuts a1 = Some g" "(i, j) \<in> held_tiles a" "gr_H g = int i" "gr_N g = int j"
    using EasyOuts_ok [OF run(2)] assms(2) by (auto simp: h1)
  then have easy: "EasyOuts a1 = Some g" "tile_held a (tile_no g)"
    using tile_heldI by (auto simp: tile_no_def)
  show ?thesis
  proof (cases "grs = []")
    case True
    then show ?thesis using run easy by (simp add: outs_rank_def)
  next
    case False
    obtain h where h: "SortGrainArrs grs 0 [False, False, False, True] = Some h" "h \<in> set grs"
      using SortGrainArrs_in [OF False, of "[False, False, False, True]" 0] run(4) by (auto simp: ranked_def)
    then obtain i j where ij: "(i, j) \<in> held_tiles a" "gr_H h = int i" "gr_N h = int j"
      using run(4) by (auto simp: ranked_def)
    then have "tile_held a (tile_no h)" using tile_heldI by (simp add: tile_no_def)
    moreover have "\<exists>n. now_at a1 (gr_H h) (gr_N h) = Some n"
      using run(2) ij by (auto simp: children_current_def held_tiles_def now_at_ok)
    ultimately show ?thesis using run h easy False by (auto simp: outs_rank_def)
  qed
qed

text \<open>A tile that no step of \<open>SelfSee\<close> can take out of the hand.\<close>

definition spare_tile :: "Ai \<Rightarrow> bool" where
  "spare_tile a \<longleftrightarrow> (\<exists>(i, j) \<in> held_tiles a. \<not> lone_declared a i j)"

lemma seen_inv_held:
  assumes "seen_inv a V a'"
  shows "tile_held a' t \<Longrightarrow> tile_held a t" and "spare_tile a \<Longrightarrow> held_tiles a' \<noteq> {}"
proof -
  have sub: "held_tiles a' \<subseteq> held_tiles a" using assms by (force simp: seen_inv_def held_tiles_def)
  then show "tile_held a' t \<Longrightarrow> tile_held a t" by (auto simp: tile_held_def)
  assume "spare_tile a"
  then obtain i j where "(i, j) \<in> held_tiles a" "\<not> lone_declared a i j" by (auto simp: spare_tile_def)
  then have "(i, j) \<in> held_tiles a'" using assms by (force simp: seen_inv_def held_tiles_def)
  then show "held_tiles a' \<noteq> {}" by blast
qed

definition outs_tail :: "int \<Rightarrow> int \<Rightarrow> Ai \<Rightarrow> (int \<times> Ai) go" where
  "outs_tail isf invs a = do {
     (gr, a) \<leftarrow> CheckAllJiao isf a;
     (case gr of
        Some g \<Rightarrow> Some (tile_no g, a)
      | None \<Rightarrow> do {
          r \<leftarrow> (if isf > 0 then flush_suit a invs (Blocks a) else Some None);
          (case r of Some t \<Rightarrow> Some (t, a) | None \<Rightarrow> outs_rank isf a) }) }"

lemma outs_tail_ok:
  assumes "ready a" and "held_tiles a \<noteq> {}"
  shows "\<exists>v a'. outs_tail isf invs a = Some (v, a') \<and> tile_held a v"
proof -
  obtain r where r: "CheckAllJiao isf a = Some (r, a)" "case r of None \<Rightarrow> ready_discards isf a = {}
     | Some g \<Rightarrow> \<exists>(i, j) \<in> ready_discards isf a. gr_H g = int i \<and> gr_N g = int j"
    using CheckAllJiao_ready [OF assms(1)] by blast
  show ?thesis
  proof (cases r)
    case (Some g)
    then obtain i j where "(i, j) \<in> held_tiles a" "gr_H g = int i" "gr_N g = int j"
      using r(2) by (auto simp: ready_discards_def)
    then have "tile_held a (tile_no g)" using tile_heldI by (simp add: tile_no_def)
    then show ?thesis using r(1) Some by (simp add: outs_tail_def)
  next
    case None
    obtain f where f: "flush_suit a invs (Blocks a) = Some f" "\<forall>t. f = Some t \<longrightarrow> tile_held a t"
      using flush_suit_ok [OF assms(1)] by blast
    obtain v a' where "outs_rank isf a = Some (v, a')" "tile_held a v" using outs_rank_ok [OF assms] by blast
    then show ?thesis using r(1) None f by (cases f) (auto simp: outs_tail_def)
  qed
qed

lemma Outs_unfold:
  "Outs isf No30 a = do {
     invs \<leftarrow> GetValid 3 a;
     InvBl \<leftarrow> block_at a invs;
     let out = (if SumLen InvBl > 0
                then (case concat (map chBl (Child InvBl)) of [] \<Rightarrow> -1 | j # _ \<Rightarrow> int (nb_I InvBl) * 9 + int j)
                else -1);
     (out, a) \<leftarrow> (if No30 then SelfSee isf out a else Some (out, a));
     (if out > -1 then Some (out, a) else outs_tail isf invs a) }"
  unfolding Outs_def outs_tail_def ..

text \<open>The tile of the given-up suit that \<open>Outs\<close> looks for first.\<close>

lemma given_up_first:
  assumes "ready a" and "Inv (me a) = int i" and "i < 3"
  obtains b where "BlocksMap a i = Some b" and
    "if gives_up_held (me a) then \<exists>j. (i, j) \<in> held_tiles a \<and>
       (if SumLen b > 0 then (case concat (map chBl (Child b)) of [] \<Rightarrow> -1 | j # _ \<Rightarrow> int (nb_I b) * 9 + int j) else -1) = int (9 * i + j)
     else SumLen b = 0"
proof -
  obtain b where b: "BlocksMap a i = Some b" "nb_I b = i" "SumLen b = sum_list (Now (me a) ! i)"
      "set (concat (map chBl (Child b))) = {j. j < 9 \<and> 0 < hand a i j}"
    using block_tiles [OF assms(1,3)] by metis
  have row: "length (Now (me a) ! i) = 9" "\<forall>n \<in> set (Now (me a) ! i). 0 \<le> n"
    using assms hand_row [of a i] by (auto simp: ready_def counts_ok_def)
  have held: "gives_up_held (me a) \<longleftrightarrow> SumLen b > 0" using assms b(3) by (auto simp: gives_up_held_def)
  have "\<exists>j. (i, j) \<in> held_tiles a \<and> (case concat (map chBl (Child b)) of [] \<Rightarrow> -1 | j # _ \<Rightarrow> int (nb_I b) * 9 + int j) = int (9 * i + j)"
    if "SumLen b > 0"
  proof (cases "concat (map chBl (Child b))")
    case Nil
    then have "{j. j < 9 \<and> 0 < hand a i j} = {}" using b(4) by simp
    then have "\<forall>n \<in> set (Now (me a) ! i). n \<le> 0" using row(1) by (force simp: in_set_conv_nth hand_def)
    then have "sum_list (Now (me a) ! i) \<le> 0" by (simp add: sum_list_nonpos)
    with that b(3) show ?thesis by simp
  next
    case (Cons j js)
    then have "j \<in> {j. j < 9 \<and> 0 < hand a i j}" unfolding b(4) [symmetric] by simp
    then show ?thesis using assms(3) Cons b(2) by (intro exI [of _ j]) (simp add: held_tiles_def)
  qed
  moreover have "0 \<le> SumLen b" using row(2) b(3) by (simp add: sum_list_nonneg)
  ultimately show ?thesis using that [OF b(1)] held by (cases "SumLen b > 0") auto
qed

lemma Outs_ready:
  assumes "ready a" and "Inv (me a) = int i" and "i < 3" and "if No30 then spare_tile a else held_tiles a \<noteq> {}"
  shows "\<exists>v a'. Outs isf No30 a = Some (v, a') \<and>
    (tile_held a v \<or> No30 \<and> v = 33 \<and> complete_hand (me a) \<or> No30 \<and> v = 32 \<and> (\<exists>k m. fourth_tile a k m)) \<and>
    (\<not> No30 \<and> gives_up_held (me a) \<longrightarrow> (\<exists>j. (i, j) \<in> held_tiles a \<and> v = int (9 * i + j)))"
proof -
  obtain b where b: "BlocksMap a i = Some b" "if gives_up_held (me a) then \<exists>j. (i, j) \<in> held_tiles a \<and>
       (if SumLen b > 0 then (case concat (map chBl (Child b)) of [] \<Rightarrow> -1 | j # _ \<Rightarrow> int (nb_I b) * 9 + int j) else -1) = int (9 * i + j)
     else SumLen b = 0"
    using given_up_first [OF assms(1-3)] by blast
  define out where "out = (if SumLen b > 0 then (case concat (map chBl (Child b)) of [] \<Rightarrow> -1 | j # _ \<Rightarrow> int (nb_I b) * 9 + int j) else -1)"
  have out: "if gives_up_held (me a) then \<exists>j. (i, j) \<in> held_tiles a \<and> out = int (9 * i + j) else out = -1"
    using b(2) by (auto simp: out_def)
  have shape: "ai_shape a" using assms by (simp add: ready_def)
  have eq: "Outs isf No30 a = do {
     (out, a) \<leftarrow> (if No30 then SelfSee isf out a else Some (out, a));
     (if out > -1 then Some (out, a) else outs_tail isf (int i) a) }"
    using b(1) assms(2) by (simp add: Outs_unfold GetValid_def seat_me [OF shape] block_at_def out_def)
  have held_out: "tile_held a out" if "out > -1"
    using out that by (auto simp: tile_held_def split: if_splits)
  show ?thesis
  proof (cases No30)
    case False
    have "\<exists>v a'. outs_tail isf (int i) a = Some (v, a') \<and> tile_held a v"
      using assms(1,4) False by (intro outs_tail_ok) auto
    then show ?thesis using False eq out held_out by (cases "gives_up_held (me a)") auto
  next
    case True
    obtain v a' where see: "SelfSee isf out a = Some (v, a')"
        "v = 33 \<and> out = -1 \<and> complete_hand (me a) \<and> a' = a \<or> declares a v a' \<or> v = out \<and> seen_inv a UNIV a'"
      using SelfSee_ready [OF assms(1)] by blast
    show ?thesis
    proof (cases "v = out \<and> seen_inv a UNIV a' \<and> out = -1")
      case False
      then have "v > -1" "tile_held a v \<or> v = 33 \<and> complete_hand (me a) \<or> v = 32 \<and> (\<exists>k m. fourth_tile a k m)"
        using see(2) out held_out by (auto simp: declares_def split: if_splits)
      then show ?thesis using True eq see(1) by simp
    next
      case tail: True
      then have "\<exists>w a''. outs_tail isf (int i) a' = Some (w, a'') \<and> tile_held a' w"
        using seen_inv_held(2) [of a UNIV a'] assms(4) True by (intro outs_tail_ok) (auto simp: seen_inv_def)
      then show ?thesis using True eq see(1) tail seen_inv_held(1) by fastforce
    qed
  qed
qed

text \<open>
  C16. The discard decision. On a decision state with a given-up suit and at least one tile (for the
  self-check one that is not the single remainder of a declared set) \<open>Outs\<close> always answers. The answer is a tile the
  player holds, or 33 and the hand is complete, or 32 and there is a tile the player can declare
  as a fourth. Without the self-check (\<open>No30\<close> false) it is always a held tile, one of the given-up
  suit as long as there is any.
\<close>

theorem Outs_spec:
  assumes "ready a" and "Inv (me a) = int i" and "i < 3" and "if No30 then spare_tile a else held_tiles a \<noteq> {}"
  shows "\<exists>v a'. Outs isf No30 a = Some (v, a') \<and>
    (tile_held a v \<or> No30 \<and> v = 33 \<and> complete_hand (me a) \<or> No30 \<and> v = 32 \<and> (\<exists>k m. fourth_tile a k m)) \<and>
    (\<not> No30 \<and> gives_up_held (me a) \<longrightarrow> (\<exists>j. (i, j) \<in> held_tiles a \<and> v = int (9 * i + j)))"
  using assms by (rule Outs_ready)

lemma demo_spare: "spare_tile demo_ai"
proof -
  have "(0, 0) \<in> held_tiles demo_ai"
    by (simp add: held_tiles_def hand_def demo_ai_ready(2) demo_rows)
  moreover have "\<not> lone_declared demo_ai 0 0"
    by (simp add: lone_declared_def demo_ai_Down zero_grid_def)
  ultimately show ?thesis by (auto simp: spare_tile_def)
qed

theorem Outs_spec_witness:
  "\<exists>v a'. Outs 0 True demo_ai = Some (v, a') \<and>
    (tile_held demo_ai v \<or> v = 33 \<and> complete_hand (me demo_ai) \<or> v = 32 \<and> (\<exists>k m. fourth_tile demo_ai k m))"
  using Outs_spec [OF demo_ai_ready(1), of 2 True 0] by (auto simp: demo_ai_Inv demo_spare)

subsection \<open>A hand without tiles\<close>

lemma deficit_zero:
  assumes "deficit k c" and zero: "\<forall>i. c i = 0"
  shows "k = 0"
  using assms(1)
proof cases
  case (triplet c' i)
  then show ?thesis using deficit_counts_nonneg [of k c' i] zero [rule_format, of i] by simp
next
  case (quad c' i)
  then show ?thesis using deficit_counts_nonneg [of k c' i] zero [rule_format, of i] by simp
next
  case (run c' i)
  then show ?thesis using deficit_counts_nonneg [of k c' i] zero [rule_format, of i] by simp
next
  case (pair k' c' i)
  then show ?thesis using deficit_counts_nonneg [of k' c' i] zero [rule_format, of i] by simp
next
  case (single k' c' i)
  then show ?thesis using deficit_counts_nonneg [of k' c' i] zero [rule_format, of i] by simp
qed

lemma empty_not_complete:
  assumes "ready a" and "held_tiles a = {}"
  shows "\<not> complete_hand (me a)"
proof -
  have zero: "hand a i j = 0" if "i < 3" "j < 9" for i j
    using assms(2) hand_range [OF assms(1) that] that by (force simp: held_tiles_def)
  have len: "length (Now (me a) ! i) = 9" if "i < 3" for i
    using assms(1) that now_grid grid_rows by (auto simp: ready_def)
  then have "suit_tiles (Now (me a) ! i) j = 0" if "i < 3" for i j
    using zero that by (simp add: suit_tiles_def hand_def)
  then have k0: "k i = 0" if "\<forall>i < 3. deficit (k i) (suit_tiles (Now (me a) ! i))" "i < 3" for k i
    using deficit_zero that by blast
  have "\<not> (suits k = 1 \<and> (\<forall>i < 3. deficit (k i) (suit_tiles (Now (me a) ! i))))" for k
  proof
    assume k: "suits k = 1 \<and> (\<forall>i < 3. deficit (k i) (suit_tiles (Now (me a) ! i)))"
    then have "k 0 = 0" "k 1 = 0" "k 2 = 0" using k0 by auto
    with k show False by (simp add: suits_def)
  qed
  moreover have "row_pairs (Now (me a) ! i) = 0" if "i < 3" for i
  proof -
    have "\<forall>n \<in> set (Now (me a) ! i). n = 0" using zero that len by (auto simp: in_set_conv_nth hand_def)
    then have "2 \<notin> set (Now (me a) ! i)" "4 \<notin> set (Now (me a) ! i)" by auto
    then show ?thesis by (simp add: row_pairs_def row_count_def count_list_0_iff)
  qed
  ultimately show ?thesis by (simp add: complete_hand_def suits_def)
qed

lemma outs_tail_empty:
  assumes "ready a" and "held_tiles a = {}"
  shows "outs_tail isf invs a = None"
proof -
  have none: "CheckAllJiao isf a = Some (None, a)"
    using CheckAllJiao_ready [OF assms(1), of isf] assms(2) by (auto simp: ready_discards_def split: option.splits)
  obtain f where f: "flush_suit a invs (Blocks a) = Some f" "\<forall>t. f = Some t \<longrightarrow> tile_held a t"
    using flush_suit_ok [OF assms(1)] by blast
  then have "f = None" using assms(2) by (cases f) (auto simp: tile_held_def)
  obtain grs a1 where run: "foldM runfind_block ([], a) (Blocks a) = Some (grs, a1)" "children_current a1"
      "Public a1 = Public a" "\<forall>g \<in> set grs. ranked a g"
    using runfind_blocks [OF assms(1), of "Blocks a" a "[]"] ready_children [OF assms(1)] distinct_Blocks assms(1)
    by (auto simp: ready_def)
  have "grs = []" using run(4) assms(2) by (cases grs) (auto simp: ranked_def)
  moreover have "held_tiles a1 = {}" using run(3) assms(2) by (simp add: held_tiles_def hand_def me_def)
  then have "EasyOuts a1 = None" using EasyOuts_ok [OF run(2)] by simp
  ultimately have "outs_rank isf a = None" using run(1) by (simp add: outs_rank_def)
  then show ?thesis using none f(1) \<open>f = None\<close> by (simp add: outs_tail_def)
qed

lemma Outs_empty:
  assumes "ready a" and "Inv (me a) = int i" and "i < 3" and "held_tiles a = {}"
  shows "Outs isf No30 a = None"
proof -
  obtain b where b: "BlocksMap a i = Some b" "SumLen b = 0"
    using given_up_first [OF assms(1-3)] assms(4) by (metis empty_iff)
  have shape: "ai_shape a" using assms by (simp add: ready_def)
  have eq: "Outs isf No30 a = do {
     (out, a) \<leftarrow> (if No30 then SelfSee isf (-1) a else Some (-1, a));
     (if out > -1 then Some (out, a) else outs_tail isf (int i) a) }"
    using b assms(2) by (simp add: Outs_unfold GetValid_def seat_me [OF shape] block_at_def Let_def)
  obtain v a' where see: "SelfSee isf (-1) a = Some (v, a')"
      "v = 33 \<and> complete_hand (me a) \<or> declares a v a' \<or> v = -1 \<and> seen_inv a UNIV a'"
    using SelfSee_ready [OF assms(1), of isf "-1"] by blast
  moreover have "\<not> declares a v a'"
    using assms(4) by (force simp: declares_def fourth_tile_def lone_declared_def held_tiles_def)
  ultimately have "v = -1" "seen_inv a UNIV a'" using empty_not_complete [OF assms(1,4)] by auto
  moreover from this(2) have "ready a'" "held_tiles a' = {}"
    using assms(4) by (auto simp: seen_inv_def held_tiles_def) (metis less_irrefl)+
  ultimately show ?thesis
    using eq see(1) outs_tail_empty assms(1,4) by simp
qed

text \<open>
  A decision state whose hand has no tile at all makes \<open>Outs\<close> panic, with or without the
  self-check: every ranking list is empty and \<open>EasyOuts\<close> indexes \<open>grs[0]\<close>.
\<close>

lemma Outs_empty_hand_panics:
  assumes "ready a" and "Inv (me a) = int i" and "i < 3" and "held_tiles a = {}"
  shows "Outs isf No30 a = None"
  using assms by (rule Outs_empty)

lemma Outs_empty_hand_panics_witness:
  "\<exists>a i. InitNow [] demo_seat = Some a \<and> Inv (me a) = int i \<and> Outs 0 True a = None"
proof -
  obtain a i where a: "InitNow [] demo_seat = Some a" "ready a" "Now (me a) = tile_grid []" "i < 3" "Inv (me a) = int i"
    using InitNow_ready [OF demo_seat_ok(1,2), of "[]"] by (auto simp: demo_seat_ok(3) copies_def)
  have "held_tiles a = {}"
    using a(3) by (auto simp: held_tiles_def hand_def tile_grid_def nth_grid_of copies_def)
  with Outs_empty_hand_panics [OF a(2,5,4)] a show ?thesis by blast
qed

end
