(* ===== verification/MjaiDiscard.thy ===== *)
theory MjaiDiscard
  imports MjaiOuts
begin

text \<open>
  Passing tiles on at the start of a game (\<open>OutDiscard\<close>) and answering another player's discard
  (\<open>SeeOuts\<close>). As long as the given-up suit has enough tiles, \<open>OutDiscard\<close> passes its first tiles;
  when it has none, the block caches go stale between two calls of \<open>EasyOuts\<close> and the same single
  tile is passed twice.
\<close>

subsection \<open>The tiles of the given-up suit\<close>

definition tile_byte :: "nat \<Rightarrow> nat \<Rightarrow> byte" where
  "tile_byte i j = of_nat (9 * i + j)"

definition suit_bytes :: "Ai \<Rightarrow> nat \<Rightarrow> nat list \<Rightarrow> byte list" where
  "suit_bytes a i js = concat (map (\<lambda>j. replicate (nat (hand a i j)) (tile_byte i j)) js)"

text \<open>The state while the given-up suit is being emptied: only counts of that suit change.\<close>

definition loose :: "Ai \<Rightarrow> bool" where
  "loose a \<longleftrightarrow> ai_shape a \<and> blocks_ok a \<and> hand_ok a"

lemma loose_put: "loose a \<Longrightarrow> i < 3 \<Longrightarrow> 0 \<le> v \<Longrightarrow> v \<le> 4 \<Longrightarrow> loose (put a i j v)"
  by (simp add: loose_def ai_shape_put hand_ok_put)

lemma discard_copies_ok:
  assumes "i < 3" and "j < 9"
  shows "loose a \<Longrightarrow> int n \<le> hand a i j \<Longrightarrow> 0 < num \<Longrightarrow>
    \<exists>a'. discard_copies n i j (out, num, a) =
      Some (if num \<le> int n then Some () else None, out @ replicate (min n (nat num)) (tile_byte i j), num - min (int n) num, a') \<and>
      loose a' \<and> BlocksMap a' = BlocksMap a \<and> Blocks a' = Blocks a \<and>
      (\<forall>m < 9. m \<noteq> j \<longrightarrow> hand a' i m = hand a i m)"
proof (induction n arbitrary: out num a)
  case 0
  then show ?case by auto
next
  case (Suc n)
  let ?a = "put a i j (hand a i j - 1)"
  have rng: "0 \<le> hand a i j" "hand a i j \<le> 4" using Suc.prems(1) hand_bounds assms by (auto simp: loose_def)
  have shape: "ai_shape a" using Suc.prems by (simp add: loose_def)
  have loose: "loose ?a" using Suc.prems rng assms by (intro loose_put) auto
  have hand: "hand ?a i j = hand a i j - 1" "\<forall>m < 9. m \<noteq> j \<longrightarrow> hand ?a i m = hand a i m"
    using shape assms by (auto simp: hand_put)
  have byte: "of_int (int i * 9 + int j) = tile_byte i j" by (simp add: tile_byte_def mult.commute)
  have step: "discard_copies (Suc n) i j (out, num, a) =
      (if num - 1 = 0 then Some (Some (), out @ [tile_byte i j], num - 1, ?a)
       else discard_copies n i j (out @ [tile_byte i j], num - 1, ?a))"
    using shape assms byte by (simp add: now_at_ok set_now_ok)
  show ?case
  proof (cases "num = 1")
    case True
    then show ?thesis using step loose hand by (auto simp: min_def)
  next
    case False
    obtain a' where a': "discard_copies n i j (out @ [tile_byte i j], num - 1, ?a) =
        Some (if num - 1 \<le> int n then Some () else None, (out @ [tile_byte i j]) @ replicate (min n (nat (num - 1))) (tile_byte i j),
          num - 1 - min (int n) (num - 1), a')" "loose a'" "BlocksMap a' = BlocksMap ?a" "Blocks a' = Blocks ?a"
        "\<forall>m < 9. m \<noteq> j \<longrightarrow> hand a' i m = hand ?a i m"
      using Suc.IH [OF loose, of "num - 1" "out @ [tile_byte i j]"] Suc.prems False hand by auto
    have "Suc (min n (nat (num - 1))) = min (Suc n) (nat num)" using Suc.prems(3) by auto
    then have "(out @ [tile_byte i j]) @ replicate (min n (nat (num - 1))) (tile_byte i j) = out @ replicate (min (Suc n) (nat num)) (tile_byte i j)"
      by (metis append.assoc append_Cons append_Nil replicate_Suc)
    moreover have "num - 1 - min (int n) (num - 1) = num - min (int (Suc n)) num" by auto
    moreover have "num - 1 \<le> int n \<longleftrightarrow> num \<le> int (Suc n)" by auto
    ultimately show ?thesis using step False a' hand by (intro exI [of _ a']) simp
  qed
qed

lemma discard_ranks:
  assumes "i < 3"
  shows "loose a \<Longrightarrow> distinct js \<Longrightarrow> \<forall>j \<in> set js. j < 9 \<and> hand a i j = h j \<Longrightarrow> 0 < num \<Longrightarrow>
    \<exists>r a'. findM (discard_rank i) (out, num, a) js =
      Some (r, out @ take (nat num) (concat (map (\<lambda>j. replicate (nat (h j)) (tile_byte i j)) js)),
        num - min num (int (length (concat (map (\<lambda>j. replicate (nat (h j)) (tile_byte i j)) js)))), a') \<and>
      loose a' \<and> BlocksMap a' = BlocksMap a \<and> Blocks a' = Blocks a"
proof (induction js arbitrary: out num a)
  case Nil
  then show ?case by auto
next
  case (Cons j js)
  let ?n = "nat (h j)" and ?all = "concat (map (\<lambda>j. replicate (nat (h j)) (tile_byte i j)) js)"
  have j: "j < 9" "hand a i j = h j" using Cons.prems by auto
  have rng: "0 \<le> h j" using Cons.prems(1) hand_bounds [of a i j] assms j by (auto simp: loose_def)
  obtain a1 where a1: "discard_copies ?n i j (out, num, a) =
      Some (if num \<le> int ?n then Some () else None, out @ replicate (min ?n (nat num)) (tile_byte i j), num - min (int ?n) num, a1)"
      "loose a1" "BlocksMap a1 = BlocksMap a" "Blocks a1 = Blocks a" "\<forall>m < 9. m \<noteq> j \<longrightarrow> hand a1 i m = hand a i m"
    using discard_copies_ok [OF assms j(1) Cons.prems(1), of ?n num out] Cons.prems(4) j rng by auto
  have rank: "discard_rank i (out, num, a) j = discard_copies ?n i j (out, num, a)"
    using Cons.prems(1) assms j by (simp add: discard_rank_def now_at_ok loose_def)
  show ?case
  proof (cases "num \<le> int ?n")
    case True
    then have "take (nat num) (replicate ?n (tile_byte i j) @ ?all) = replicate (min ?n (nat num)) (tile_byte i j)"
      using rng by (auto simp: min_def)
    with True rank a1 Cons.prems(4) show ?thesis by (auto simp: min_def)
  next
    case False
    have pre: "\<forall>m \<in> set js. m < 9 \<and> hand a1 i m = h m"
    proof
      fix m assume "m \<in> set js"
      then show "m < 9 \<and> hand a1 i m = h m" using Cons.prems(2,3) a1(5) by auto
    qed
    have pos: "0 < num - int ?n" using False by simp
    obtain r a' where a': "findM (discard_rank i) (out @ replicate ?n (tile_byte i j), num - int ?n, a1) js =
      Some (r, (out @ replicate ?n (tile_byte i j)) @ take (nat (num - int ?n)) ?all, num - int ?n - min (num - int ?n) (int (length ?all)), a')"
      "loose a'" "BlocksMap a' = BlocksMap a1" "Blocks a' = Blocks a1"
      using Cons.IH [OF a1(2) _ pre pos, of "out @ replicate ?n (tile_byte i j)"] Cons.prems(2) by auto
    have "nat num - ?n = nat (num - int ?n)" by linarith
    then have "take (nat num) (replicate ?n (tile_byte i j) @ ?all) = replicate ?n (tile_byte i j) @ take (nat (num - int ?n)) ?all"
      using False by simp
    moreover have "num - int ?n - min (num - int ?n) (int (length ?all)) = num - min num (int ?n + int (length ?all))" by auto
    moreover have "min ?n (nat num) = ?n" "min (int ?n) num = int ?n" using False by linarith+
    ultimately show ?thesis using rank a1 a' False by simp
  qed
qed

lemma length_suit_bytes:
  assumes "ready a" and "i < 3"
  shows "int (length (suit_bytes a i (nonzero (Now (me a) ! i) (length (Now (me a) ! i))))) = sum_list (Now (me a) ! i)"
proof -
  let ?row = "Now (me a) ! i"
  have "int (length (suit_bytes a i js)) = sum_list (map (\<lambda>j. ?row ! j) js)" if "\<forall>j \<in> set js. 0 \<le> hand a i j" for js
    using that by (induction js) (simp_all add: suit_bytes_def hand_def)
  moreover have "\<forall>j \<in> set (nonzero ?row (length ?row)). 0 \<le> hand a i j"
    using assms held_ranks [of a i] by (auto simp: ready_def)
  ultimately show ?thesis by (simp add: sum_nonzero map_nth)
qed

lemma OutDiscard_suit:
  assumes "ready a" and "Inv (me a) = int i" and "i < 3" and "0 < num"
  obtains a' where "loose a'" and "BlocksMap a' = BlocksMap a" and "Blocks a' = Blocks a"
    and "OutDiscard num a = do {
     a'' \<leftarrow> update_block a' i;
     discard_easy (nat (num - min num (sum_list (Now (me a) ! i))))
       (take (nat num) (suit_bytes a i (nonzero (Now (me a) ! i) (length (Now (me a) ! i))))) a'' }"
proof -
  let ?row = "Now (me a) ! i"
  let ?js = "nonzero ?row (length ?row)"
  have shape: "ai_shape a" and loose: "loose a" using assms by (auto simp: ready_def loose_def)
  have row: "counts_ok ?row" using assms hand_row by (auto simp: ready_def)
  obtain b where b: "BlocksMap a i = Some b" "nb_I b = i" "concat (map chBl (Child b)) = ?js"
    using ready_block [OF assms(1,3)] Update_fresh(2) [OF row] fresh_facts(1) [OF row] by (auto simp: children_of_def)
  have ranks: "distinct ?js" "\<forall>j \<in> set ?js. j < 9 \<and> hand a i j = hand a i j"
    using held_ranks [of a i] assms by (auto simp: nonzero_def ready_def)
  obtain r a' where find: "findM (discard_rank i) ([], num, a) ?js =
      Some (r, take (nat num) (suit_bytes a i ?js), num - min num (int (length (suit_bytes a i ?js))), a')"
      "loose a'" "BlocksMap a' = BlocksMap a" "Blocks a' = Blocks a"
    using discard_ranks [OF assms(3) loose ranks assms(4), of "[]"] unfolding suit_bytes_def by auto
  have "choose_Inv a = Some a" using assms(2) by (simp add: choose_Inv_def seat_me [OF shape])
  then have "OutDiscard num a = do {
     a'' \<leftarrow> update_block a' i;
     discard_easy (nat (num - min num (sum_list ?row))) (take (nat num) (suit_bytes a i ?js)) a'' }"
    using b find assms(2) length_suit_bytes [OF assms(1,3)]
    by (simp add: OutDiscard_def GetValid_def seat_me [OF shape] block_at_def)
  with find that show ?thesis by blast
qed

text \<open>
  C26. When the given-up suit holds at least \<open>num > 0\<close> tiles, \<open>OutDiscard num\<close> passes exactly \<open>num\<close>
  tiles, the first ones of that suit with every tile as often as it is held.
\<close>

theorem OutDiscard_spec:
  assumes "ready a" and "Inv (me a) = int i" and "i < 3" and "0 < num" and "num \<le> sum_list (Now (me a) ! i)"
  shows "\<exists>a'. OutDiscard num a = Some (take (nat num) (suit_bytes a i (nonzero (Now (me a) ! i) (length (Now (me a) ! i)))), a') \<and>
    length (take (nat num) (suit_bytes a i (nonzero (Now (me a) ! i) (length (Now (me a) ! i))))) = nat num"
proof -
  let ?out = "take (nat num) (suit_bytes a i (nonzero (Now (me a) ! i) (length (Now (me a) ! i))))"
  obtain a' where a': "loose a'" "OutDiscard num a = do {
     a'' \<leftarrow> update_block a' i; discard_easy (nat (num - min num (sum_list (Now (me a) ! i)))) ?out a'' }"
    using OutDiscard_suit [OF assms(1-4)] by metis
  have "counts_ok (Now (me a') ! i)" using a'(1) assms(3) hand_row by (auto simp: loose_def)
  then obtain a'' where "update_block a' i = Some a''"
    using a'(1) assms(3) update_block_ok by (auto simp: loose_def)
  then have "OutDiscard num a = Some (?out, a'')" using a'(2) assms(5) by simp
  moreover have "length ?out = nat num"
    using length_suit_bytes [OF assms(1,3)] assms(5) by simp
  ultimately show ?thesis by blast
qed

theorem OutDiscard_spec_witness:
  "\<exists>a i a'. InitNow [0, 9, 9, 18, 19, 20, 18, 10, 1, 2, 3, 11, 12, 13] demo_seat = Some a \<and> Inv (me a) = int i \<and>
    OutDiscard 3 a = Some (take (nat 3) (suit_bytes a i (nonzero (Now (me a) ! i) (length (Now (me a) ! i)))), a') \<and>
    length (take (nat 3) (suit_bytes a i (nonzero (Now (me a) ! i) (length (Now (me a) ! i))))) = nat 3"
proof -
  let ?str = "[0, 9, 9, 18, 19, 20, 18, 10, 1, 2, 3, 11, 12, 13] :: byte list"
  have valid: "valid_hand ?str" by (simp add: valid_hand_def copies_def)
  obtain a i where a: "InitNow ?str demo_seat = Some a" "ready a" "Now (me a) = tile_grid ?str" "i < 3" "Inv (me a) = int i"
    using InitNow_ready [OF demo_seat_ok(1,2), of ?str] valid_hand_copies [OF valid] demo_seat_ok(3) by auto
  have "3 \<le> sum_list (tile_grid ?str ! 0)" "3 \<le> sum_list (tile_grid ?str ! Suc 0)" "3 \<le> sum_list (tile_grid ?str ! 2)"
    by (simp_all add: tile_grid_def nth_grid_of upt_rec copies_def)
  moreover have "i = 0 \<or> i = Suc 0 \<or> i = 2" using a(4) by linarith
  ultimately have "3 \<le> sum_list (Now (me a) ! i)" unfolding a(3) by blast
  with OutDiscard_spec [OF a(2,5,4), of 3] a(1,5) show ?thesis by auto
qed

subsection \<open>Stale caches in the final loop\<close>

lemma rankable_put:
  assumes "rankable a" and "i < 3"
  shows "rankable (put a i j v)" and "cached_tiles (put a i j v) = cached_tiles a"
  using assms by (auto simp: rankable_def cached_tiles_def ai_shape_put)

text \<open>
  The final loop of \<open>OutDiscard\<close> does not update the block caches between two calls of
  \<open>EasyOuts\<close>. When the hand has a single tile, two rounds pass the same tile twice although the
  player holds it once.
\<close>

lemma discard_easy_repeats:
  assumes "ready a" and "(k, m) \<in> held_tiles a" and "hand a k m = 1"
  shows "\<exists>i j a'. discard_easy 2 [] a = Some ([tile_byte i j, tile_byte i j], a') \<and> (i, j) \<in> held_tiles a \<and> hand a i j = 1"
proof -
  have shape: "ai_shape a" using assms by (simp add: ready_def)
  note cur = current_cached [OF ready_children [OF assms(1)]]
  obtain g i j where g: "EasyOuts a = Some g" "(i, j) \<in> held_tiles a" "gr_H g = int i" "gr_N g = int j"
      "\<forall>(k, m) \<in> held_tiles a. hand a i j \<le> hand a k m"
    using EasyOuts_cached [OF cur(2)] assms(2) unfolding cur(1) by (metis empty_iff)
  have "hand a i j \<le> hand a k m" using g(5) assms(2) by blast
  then have ij: "i < 3" "j < 9" "hand a i j = 1" using g(2) assms(3) by (auto simp: held_tiles_def)
  let ?a = "put a i j 0"
  have hand0: "hand ?a k m = (if k = i \<and> m = j then 0 else hand a k m)" if "k < 3" "m < 9" for k m
    using shape ij that by (simp add: hand_put)
  note put = rankable_put [OF cur(2) ij(1), of j 0, unfolded cur(1)]
  obtain g' i' j' where g': "EasyOuts ?a = Some g'" "(i', j') \<in> held_tiles a" "gr_H g' = int i'" "gr_N g' = int j'"
      "\<forall>(k, m) \<in> held_tiles a. hand ?a i' j' \<le> hand ?a k m"
    using EasyOuts_cached [OF put(1)] g(2) unfolding put(2) by (metis empty_iff)
  have "hand ?a i' j' \<le> 0" using g'(5) g(2) hand0 ij by fastforce
  then have eq: "i' = i" "j' = j" using g'(2) hand0 by (auto simp: held_tiles_def split: if_splits)
  have byte: "of_int (tile_no g) = tile_byte i j" if "gr_H g = int i" "gr_N g = int j" for g
    using that by (simp add: tile_no_def tile_byte_def mult.commute)
  have "discard_easy 2 [] a = Some ([tile_byte i j, tile_byte i j], put ?a i j (-1))"
    using g g' ij shape ai_shape_put [OF shape ij(1), of j 0] byte [of g] byte [of g'] hand0 eq
    by (simp add: numeral_2_eq_2 now_at_ok set_now_ok)
  with g(2) ij(3) show ?thesis by blast
qed

lemma discard_easy_repeats_witness:
  "\<exists>i j a'. discard_easy 2 [] demo_ai = Some ([tile_byte i j, tile_byte i j], a') \<and> (i, j) \<in> held_tiles demo_ai \<and> hand demo_ai i j = 1"
  by (rule discard_easy_repeats [OF demo_ai_ready(1), of 0 0])
    (simp_all add: held_tiles_def hand_def demo_ai_ready(2) demo_rows)

end
