(* ===== verification/MjaiSee.thy ===== *)
theory MjaiSee
  imports MjaiDiscard
begin

text \<open>
  Answering another player's discard. The packet offers up to four answers, 3 (take the win),
  2 (a fourth tile), 1 (a triplet) and 0 (pass); \<open>SeeOuts\<close> considers them in descending order.
\<close>

lemma order_keys_eq: "order_keys key = map (\<lambda>k. if k \<in> set key then k else 5) [3, 2, 1, 0]"
proof (induction key rule: rev_induct)
  case Nil
  then show ?case by (simp add: order_keys_def)
next
  case (snoc k key)
  have step: "order_keys (key @ [k]) = (if k > 3 then order_keys key else (order_keys key)[3 - unat k := k])"
    by (simp add: order_keys_def)
  consider "k > 3" | "k = 3" | "k = 2" | "k = 1" | "k = 0"
  proof -
    have "unat k > 3 \<or> unat k = 3 \<or> unat k = 2 \<or> unat k = 1 \<or> unat k = 0" by linarith
    moreover have "k = of_nat n" if "unat k = n" for n using that by auto
    ultimately have "k > 3 \<or> k = 3 \<or> k = 2 \<or> k = 1 \<or> k = 0"
      unfolding word_less_nat_alt by fastforce
    then show ?thesis using that by blast
  qed
  moreover have pos: "3 - unat (3 :: byte) = 0" "3 - unat (2 :: byte) = Suc 0" "3 - unat (1 :: byte) = Suc (Suc 0)"
      "3 - unat (0 :: byte) = Suc (Suc (Suc 0))"
    by simp_all
  ultimately show ?case
    unfolding step snoc by cases (simp_all only: pos, auto)
qed

text \<open>The value of the hand with the offered tile, and whether the win is taken: an evaluation of 0
  (the server offers a win that the evaluation does not see) counts as acceptable.\<close>

definition accepts_win :: "int \<Rightarrow> Ai \<Rightarrow> nat \<Rightarrow> nat \<Rightarrow> bool" where
  "accepts_win isf a i j \<longleftrightarrow> (let f = full_value False (place a i j (hand a i j + 1)) in f = 0 \<or> isf \<le> f)"

lemma seeouts_win:
  assumes "ready a" and "i < 3" and "j < 9" and "hand a i j < 4"
  shows "seeouts_key isf i j a 3 = Some (if accepts_win isf a i j then Some 3 else None, place a i j (hand a i j + 1))"
    and "ready (place a i j (hand a i j + 1))"
proof -
  have shape: "ai_shape a" using assms by (simp add: ready_def)
  have v: "0 \<le> hand a i j + 1" "hand a i j + 1 \<le> 4" using hand_range [OF assms(1-3)] assms(4) by auto
  note p = place_ok [OF assms(1-3) v]
  show "ready (place a i j (hand a i j + 1))" by (rule p(1))
  have "0 \<le> full_value False (place a i j (hand a i j + 1))" by (rule full_value_nonneg)
  then show "seeouts_key isf i j a 3 = Some (if accepts_win isf a i j then Some 3 else None, place a i j (hand a i j + 1))"
    using shape assms(2,3) p checkFull_ready [OF p(1), of False]
    by (auto simp: seeouts_key_def now_at_ok set_now_ok accepts_win_def Let_def)
qed

lemma seeouts_triplet:
  assumes "ready a" and "i < 3" and "j < 9"
  shows "\<exists>r a'. seeouts_key isf i j a 1 = Some (r, a') \<and> ready a' \<and> (r = None \<or> r = Some 1)"
proof -
  have shape: "ai_shape a" using assms by (simp add: ready_def)
  note p = place_ok [OF assms, of 0]
  obtain g where "CheckAllJiao isf (place a i j 0) = Some (g, place a i j 0)"
    using CheckAllJiao_ready [OF p(1), of isf] by auto
  then show ?thesis
    using shape assms p CheckJiao_ready [OF assms(1), of isf True]
    by (auto simp: seeouts_key_def now_at_ok set_now_ok)
qed

lemma seeouts_other:
  "seeouts_key isf i j a 2 = Some (Some 2, a)" "seeouts_key isf i j a 0 = Some (Some 0, a)"
  "seeouts_key isf i j a 5 = Some (None, a)"
  by (simp_all add: seeouts_key_def)

lemma SeeOuts_ready:
  assumes "ready a" and "i < 3" and "j < 9" and "hand a i j < 4"
  shows "\<exists>k a'. SeeOuts (int (9 * i + j)) key isf a = Some (k, a') \<and> ready a' \<and> (k = 0 \<or> k \<in> set key) \<and>
        (k = 3 \<longleftrightarrow> 3 \<in> set key \<and> accepts_win isf a i j) \<and> (2 \<in> set key \<and> k \<noteq> 3 \<longrightarrow> k = 2)"
proof -
  let ?f = "seeouts_key isf i j"
  have idx: "nat (int (9 * i + j)) div 9 = i" "nat (int (9 * i + j)) mod 9 = j" "\<not> int (9 * i + j) > 26"
    using assms(2,3) unfolding nat_int by auto
  define w where "w = (3 \<in> set key \<and> accepts_win isf a i j)"
  obtain a1 where a1: "?f a (if 3 \<in> set key then 3 else 5) = Some (if w then Some 3 else None, a1)" "ready a1"
    using seeouts_win(1) [OF assms, of isf] seeouts_win(2) [OF assms] seeouts_other(3) [of isf i j a] assms(1)
    by (cases "3 \<in> set key") (auto simp: w_def)
  obtain r a2 where a2: "?f a1 (if 1 \<in> set key then 1 else 5) = Some (r, a2)" "ready a2" "r = None \<or> r = Some 1 \<and> 1 \<in> set key"
    using seeouts_triplet [OF a1(2) assms(2,3), of isf] seeouts_other(3) [of isf i j a1] a1(2)
    by (cases "1 \<in> set key") auto
  show ?thesis
  proof (cases "w \<or> 2 \<in> set key")
    case True
    then show ?thesis
      using a1 seeouts_other(1) [of isf i j a1] idx by (auto simp: SeeOuts_def order_keys_eq w_def)
  next
    case False
    then have "SeeOuts (int (9 * i + j)) key isf a =
        (case r of Some k \<Rightarrow> Some (k, a2) | None \<Rightarrow> Some (0, a2))"
      using a1 a2 idx seeouts_other(2,3) by (auto simp: SeeOuts_def order_keys_eq split: option.split)
    with False a2 show ?thesis by (auto simp: w_def)
  qed
qed

text \<open>
  C17. For an offered tile of which the player holds at most three, \<open>SeeOuts\<close> always answers, with 0
  or one of the offered answers, and leaves a decision state. A win is taken exactly when it is
  offered and acceptable; otherwise a fourth tile is taken whenever it is offered. For anything
  that is not a tile the answer is 0 and nothing changes.
\<close>

theorem SeeOuts_spec:
  assumes "ready a"
  shows "(v < 0 \<or> v > 26 \<longrightarrow> SeeOuts v key isf a = Some (0, a)) \<and>
    (v = int (9 * i + j) \<and> i < 3 \<and> j < 9 \<and> hand a i j < 4 \<longrightarrow>
      (\<exists>k a'. SeeOuts v key isf a = Some (k, a') \<and> ready a' \<and> (k = 0 \<or> k \<in> set key) \<and>
        (k = 3 \<longleftrightarrow> 3 \<in> set key \<and> accepts_win isf a i j) \<and> (2 \<in> set key \<and> k \<noteq> 3 \<longrightarrow> k = 2)))"
  using SeeOuts_ready [OF assms] by (auto simp: SeeOuts_def)

theorem SeeOuts_spec_witness:
  "hand demo_ai 0 0 = 1 \<and> (\<exists>k a'. SeeOuts 0 [0, 1, 2, 3] 4 demo_ai = Some (k, a') \<and> ready a' \<and>
    (k = 3 \<longleftrightarrow> accepts_win 4 demo_ai 0 0) \<and> (k = 3 \<or> k = 2))"
proof -
  have h: "hand demo_ai 0 0 = 1" by (simp add: hand_def demo_ai_ready(2) demo_rows)
  with SeeOuts_spec [OF demo_ai_ready(1), of 0 "[0, 1, 2, 3]" 4 0 0] show ?thesis by auto
qed

end
