(* ===== verification/MjaiKeeps.thy ===== *)
theory MjaiKeeps
  imports MjaiSee
begin

text \<open>
  What every operation of the player keeps, whatever the packet: four seats with well-shaped
  tables, the block pointers linked, the given-up suit one of the three or none
  (\<open>mjai_inv\<close>). Unlike the other theories nothing is assumed about the hand here, so the lemmas
  are of the form \<open>if the operation returns, the invariant still holds\<close>.
\<close>

definition mjai_inv :: "Ai \<Rightarrow> bool" where
  "mjai_inv a \<longleftrightarrow> ai_shape a \<and> linked a \<and> -1 \<le> Inv (me a) \<and> Inv (me a) < 3"

subsection \<open>Primitive changes\<close>

lemma set_cell_keeps: "set_cell g h n v = Some g' \<Longrightarrow> grid_ok g \<Longrightarrow> grid_ok g'"
  by (auto simp: set_cell_def go_simps grid_ok_def dest!: subsetD [OF set_update_subset_insert])

text \<open>Two seats agree on everything but tables and values of no interest here.\<close>

definition seat_like :: "UserPublic \<Rightarrow> UserPublic \<Rightarrow> bool" where
  "seat_like p q \<longleftrightarrow> (public_ok p \<longrightarrow> public_ok q) \<and> Inv q = Inv p"

lemma seat_some: "ai_shape a \<Longrightarrow> seat a nid = Some p \<Longrightarrow> public_ok p"
  using seat_ok [of a nid] by (auto simp: seat_def go_simps ai_shape_def)

lemma set_seat_shape:
  assumes "ai_shape a" and "set_seat a nid q = Some a'" and "public_ok q"
  shows "ai_shape a'" and "Blocks a' = Blocks a" and "BlocksMap a' = BlocksMap a"
    and "nid \<noteq> 3 \<Longrightarrow> me a' = me a" and "nid = 3 \<Longrightarrow> me a' = q"
proof -
  have a': "a' = a\<lparr>Public := (Public a)[nat nid := Some q]\<rparr>" "0 \<le> nid" "nid < 4"
    using assms(1,2) by (auto simp: set_seat_def go_simps ai_shape_def)
  show "ai_shape a'"
    using assms(1,3) by (fastforce simp: a'(1) ai_shape_def dest!: subsetD [OF set_update_subset_insert])
  show "Blocks a' = Blocks a" "BlocksMap a' = BlocksMap a" by (simp_all add: a'(1))
  show "nid \<noteq> 3 \<Longrightarrow> me a' = me a" using a'(2,3) by (simp add: a'(1) me_def)
  show "nid = 3 \<Longrightarrow> me a' = q" using assms(1) by (simp add: a'(1) me_def ai_shape_def)
qed

lemma linked_cong: "Blocks a' = Blocks a \<Longrightarrow> BlocksMap a' = BlocksMap a \<Longrightarrow> linked a' = linked a"
  by (simp add: linked_def blocks_ok_def)

lemma set_seat_keeps:
  assumes "mjai_inv a" and "seat a nid = Some p" and "set_seat a nid q = Some a'" and "seat_like p q"
  shows "mjai_inv a'"
proof -
  have shape: "ai_shape a" using assms(1) by (simp add: mjai_inv_def)
  then have "public_ok q" using seat_some assms(2,4) by (auto simp: seat_like_def)
  note s = set_seat_shape [OF shape assms(3) this]
  have "Inv (me a') = Inv (me a)"
    using s(4,5) assms(2,4) seat_me [OF shape] by (cases "nid = 3") (auto simp: seat_like_def)
  then show ?thesis using s linked_cong [OF s(2,3)] assms(1) by (simp add: mjai_inv_def)
qed

text \<open>Reading does not change anything.\<close>

lemmas post_reads [post_intros] =
  post_read [where m = "now_at a h n" for a h n]
  post_read [where m = "block_No a i" for a i]
  post_read [where m = "deref a ptr" for a ptr]
  post_read [where m = "BlocksMap a i" for a i]
  post_read [where m = "block_at a k" for a k]
  post_read [where m = "cell g h n" for g h n]
  post_read [where m = "checkFull isM a" for isM a]
  post_read [where m = "GetPublicNum gr isNow a" for gr isNow a]
  post_read [where m = "foldM (remaining a) m gs" for a m gs]
  post_read [where m = "EasyOuts a" for a]
  post_read [where m = "flush_suit a invs ptrs" for a invs ptrs]
  post_read [where m = "SortdGrain grs k oc" for grs k oc]
  post_read [where m = "SortGrainArrs grs oc isd" for grs oc isd]

lemma post_seat [post_intros]:
  "(\<And>p. seat a nid = Some p \<Longrightarrow> Q p) \<Longrightarrow> post (seat a nid) Q"
  by (simp add: post_def)

lemma post_set_cell [post_intros]:
  "(\<And>g'. grid_ok g \<longrightarrow> grid_ok g' \<Longrightarrow> Q g') \<Longrightarrow> post (set_cell g h n v) Q"
  using set_cell_keeps by (auto simp: post_def)

lemma post_set_seat [post_intros]:
  "mjai_inv a \<Longrightarrow> seat a nid = Some p \<Longrightarrow> seat_like p q \<Longrightarrow> (\<And>a'. mjai_inv a' \<Longrightarrow> Q a') \<Longrightarrow> post (set_seat a nid q) Q"
  using set_seat_keeps by (auto simp: post_def)

lemma post_set_now [post_intros]:
  "mjai_inv a \<Longrightarrow> (\<And>a'. mjai_inv a' \<Longrightarrow> Q a') \<Longrightarrow> post (set_now a h n v) Q"
  unfolding set_now_def by (intro post_intros) (auto simp: seat_like_def public_ok_def)

lemma post_update_block [post_intros]:
  assumes "mjai_inv a" and "\<And>a'. mjai_inv a' \<Longrightarrow> Q a'"
  shows "post (update_block a i) Q"
  unfolding post_def
proof (intro allI impI assms(2))
  fix a' assume up: "update_block a i = Some a'"
  obtain b b' No where b: "BlocksMap a i = Some b" "NewBlock_Update No b = Some b'" "a' = with_block a i b'"
    using up by (auto simp: update_block_def go_simps with_block_def)
  have "nb_I b' = nb_I b" using Update_nb_I [OF b(2)] .
  then have "linked (with_block a i b')" if "linked a"
    using that b(1) by (auto simp: linked_def blocks_ok_def)
  then show "mjai_inv a'" using assms(1) by (simp add: mjai_inv_def b(3))
qed

subsection \<open>The decisions\<close>

lemma post_jiao_rank:
  "mjai_inv (snd s) \<Longrightarrow> post (jiao_rank isf isM i s j) (\<lambda>s'. mjai_inv (snd s'))"
  unfolding jiao_rank_def by (cases s) (auto intro!: post_intros)

lemma post_jiao_block:
  "mjai_inv (snd s) \<Longrightarrow> post (jiao_block isf isM s p) (\<lambda>(r, s'). mjai_inv (snd s'))"
  unfolding jiao_block_def
  by (cases s; cases p)
    (auto intro!: post_intros post_foldM [where P = "\<lambda>s. mjai_inv (snd s)"] post_jiao_rank)

lemma post_CheckJiao [post_intros]:
  "mjai_inv a \<Longrightarrow> (\<And>g a'. mjai_inv a' \<Longrightarrow> Q (g, a')) \<Longrightarrow> post (CheckJiao isf isM a) Q"
  unfolding CheckJiao_def
  by (auto intro!: post_intros post_findM [where P = "\<lambda>s. mjai_inv (snd s)"] post_jiao_block)

lemma post_alljiao_rank:
  "mjai_inv (snd (snd s)) \<Longrightarrow> post (alljiao_rank isf i s j) (\<lambda>s'. mjai_inv (snd (snd s')))"
  unfolding alljiao_rank_def by (cases s) (auto intro!: post_intros)

lemma post_alljiao_block:
  "mjai_inv (snd (snd s)) \<Longrightarrow> post (alljiao_block isf s p) (\<lambda>s'. mjai_inv (snd (snd s')))"
  unfolding alljiao_block_def
  by (cases s; cases p)
    (auto intro!: post_intros post_foldM [where P = "\<lambda>s. mjai_inv (snd (snd s))"] post_alljiao_rank)

lemma post_CheckAllJiao [post_intros]:
  "mjai_inv a \<Longrightarrow> (\<And>g a'. mjai_inv a' \<Longrightarrow> Q (g, a')) \<Longrightarrow> post (CheckAllJiao isf a) Q"
  unfolding CheckAllJiao_def
  by (auto intro!: post_intros post_foldM [where P = "\<lambda>s. mjai_inv (snd (snd s))"] post_alljiao_block)

lemma post_UpdateBlocksWeight [post_intros]:
  "mjai_inv a \<Longrightarrow> (\<And>a'. mjai_inv a' \<Longrightarrow> Q a') \<Longrightarrow> post (UpdateBlocksWeight add i j n a) Q"
  unfolding UpdateBlocksWeight_def by (auto intro!: post_intros)

lemma post_selfsee_rank:
  "mjai_inv a \<Longrightarrow> post (selfsee_rank isf i no a j) (\<lambda>(r, a'). mjai_inv a')"
  unfolding selfsee_rank_def
  by (auto intro!: post_intros simp: seat_like_def public_ok_def)

lemma post_selfsee_suit:
  "mjai_inv a \<Longrightarrow> post (selfsee_suit isf a x) (\<lambda>(r, a'). mjai_inv a')"
  unfolding selfsee_suit_def
  by (auto intro!: post_intros post_findM [where P = mjai_inv] post_selfsee_rank)

lemma post_SelfSee [post_intros]:
  "mjai_inv a \<Longrightarrow> (\<And>v a'. mjai_inv a' \<Longrightarrow> Q (v, a')) \<Longrightarrow> post (SelfSee isf cOut a) Q"
  unfolding SelfSee_def
  by (auto intro!: post_intros post_findM [where P = mjai_inv] post_selfsee_suit)

lemma post_RunFind: "post (RunFind a b) (\<lambda>b'. nb_I b' = nb_I b)"
  by (auto simp: RunFind_def post_def go_simps)

lemma post_runfind_block:
  assumes "mjai_inv (snd s)"
  shows "post (runfind_block s p) (\<lambda>s'. mjai_inv (snd s'))"
proof -
  have "mjai_inv (a\<lparr>BlocksMap := (BlocksMap a)(i \<mapsto> b')\<rparr>)"
    if "mjai_inv a" "BlocksMap a i = Some b" "nb_I b' = nb_I b" for a i b b'
  proof -
    have "linked (with_block a i b')" if "linked a"
      using that \<open>BlocksMap a i = Some b\<close> \<open>nb_I b' = nb_I b\<close> by (auto simp: linked_def blocks_ok_def)
    then show ?thesis using that(1) by (simp add: mjai_inv_def with_block_def [symmetric])
  qed
  then show ?thesis
    using assms postD [OF post_RunFind]
    by (cases s) (fastforce simp: post_def runfind_block_def go_simps deref_def split: if_splits)
qed

lemma post_outs_rank [post_intros]:
  "mjai_inv a \<Longrightarrow> (\<And>v a'. mjai_inv a' \<Longrightarrow> Q (v, a')) \<Longrightarrow> post (outs_rank isf a) Q"
  unfolding outs_rank_def
  by (auto intro!: post_intros post_foldM [where P = "\<lambda>s. mjai_inv (snd s)"] post_runfind_block)

lemma post_Outs [post_intros]:
  "mjai_inv a \<Longrightarrow> (\<And>v a'. mjai_inv a' \<Longrightarrow> Q (v, a')) \<Longrightarrow> post (Outs isf No30 a) Q"
  unfolding Outs_def GetValid_def by (auto intro!: post_intros)

lemma post_discard_copies:
  "mjai_inv (snd (snd s)) \<Longrightarrow> post (discard_copies n i j s) (\<lambda>(r, s'). mjai_inv (snd (snd s')))"
proof (induction n arbitrary: s)
  case (Suc n)
  then show ?case by (cases s) (auto intro!: post_intros)
qed (simp add: post_def)

lemma post_discard_rank:
  "mjai_inv (snd (snd s)) \<Longrightarrow> post (discard_rank i s j) (\<lambda>(r, s'). mjai_inv (snd (snd s')))"
  unfolding discard_rank_def by (cases s) (auto intro!: post_intros post_discard_copies)

lemma post_discard_easy:
  "mjai_inv a \<Longrightarrow> post (discard_easy n out a) (\<lambda>(v, a'). mjai_inv a')"
  by (induction n arbitrary: out a) (auto intro!: post_intros)

text \<open>The chosen suit is one of the three.\<close>

lemma post_GetDiscard:
  assumes "mjai_inv a"
  shows "post (GetDiscard a) (\<lambda>v. 0 \<le> v \<and> v < 3)"
proof -
  have "nb_I b < 3" if d: "deref a p = Some b" and mem: "p \<in> set (Blocks a)" for p b
  proof -
    obtain i where i: "p = Some i" "BlocksMap a i = Some b" using d by (auto simp: deref_def go_simps)
    then have "Blocks a \<noteq> [None, None, None]" using mem by auto
    then have bok: "blocks_ok a" using assms by (simp add: mjai_inv_def linked_def)
    then have "i < 3" using in_Blocks [OF bok] mem i(1) by auto
    with block_ok [OF bok] i(2) show ?thesis by fastforce
  qed
  then have rule: "post (deref a p) Q" if "\<And>b. nb_I b < 3 \<Longrightarrow> Q b" "p \<in> set (Blocks a)" for p Q
    using that by (auto simp: post_def)
  have at: "post (idx (Blocks a) k) Q" if "\<And>p. p \<in> set (Blocks a) \<Longrightarrow> Q p" for k Q
    using that by (auto simp: post_def idx_def)
  show ?thesis unfolding GetDiscard_def by (auto intro!: post_bind at rule post_Some)
qed

lemma set_Inv_keeps:
  assumes "mjai_inv a" and "set_seat a 3 ((me a)\<lparr>Inv := v\<rparr>) = Some a'" and "0 \<le> v" and "v < 3"
  shows "mjai_inv a'"
proof -
  have shape: "ai_shape a" using assms(1) by (simp add: mjai_inv_def)
  have "public_ok ((me a)\<lparr>Inv := v\<rparr>)" using me_ok [OF shape] by (simp add: public_ok_def)
  note s = set_seat_shape [OF shape assms(2) this]
  show ?thesis using s linked_cong [OF s(2,3)] assms by (simp add: mjai_inv_def)
qed

lemma post_choose_Inv [post_intros]:
  "mjai_inv a \<Longrightarrow> (\<And>a'. mjai_inv a' \<Longrightarrow> Q a') \<Longrightarrow> post (choose_Inv a) Q"
  using postD [OF post_GetDiscard, of a] set_Inv_keeps [of a]
  by (auto simp: post_def choose_Inv_def go_simps seat_me mjai_inv_def split: if_splits)

lemma post_OutDiscard [post_intros]:
  "mjai_inv a \<Longrightarrow> (\<And>v a'. mjai_inv a' \<Longrightarrow> Q (v, a')) \<Longrightarrow> post (OutDiscard num a) Q"
  unfolding OutDiscard_def GetValid_def
  by (auto intro!: post_intros post_findM [where P = "\<lambda>s. mjai_inv (snd (snd s))"] post_discard_rank
      post_mono [OF post_discard_easy])

lemma post_seeouts_key:
  "mjai_inv a \<Longrightarrow> post (seeouts_key isf i j a k) (\<lambda>(r, a'). mjai_inv a')"
  unfolding seeouts_key_def by (auto intro!: post_intros)

lemma post_SeeOuts [post_intros]:
  "mjai_inv a \<Longrightarrow> (\<And>v a'. mjai_inv a' \<Longrightarrow> Q (v, a')) \<Longrightarrow> post (SeeOuts v key isf a) Q"
  unfolding SeeOuts_def
  by (auto intro!: post_intros post_findM [where P = mjai_inv] post_seeouts_key)

subsection \<open>InitNow\<close>

definition linked_block :: "Ai \<Rightarrow> nat option \<Rightarrow> bool" where
  "linked_block a p \<longleftrightarrow> (\<exists>k b. p = Some k \<and> BlocksMap a k = Some b \<and> nb_I b = k)"

lemma SortNewBlock_prefix:
  "SortNewBlock d (S @ x # R) (length S) = Some bs \<Longrightarrow> \<exists>S'. bs = S' @ R \<and> mset S' = add_mset x (mset S)"
proof (induction S arbitrary: x R bs rule: rev_induct)
  case Nil
  then show ?case by (intro exI [of _ "[x]"]) simp
next
  case (snoc y S)
  then consider "SortNewBlock d (S @ y # x # R) (length S) = Some bs" | "SortNewBlock d (S @ x # y # R) (length S) = Some bs"
    using swap_down_append [of S y x R] by (auto simp: go_simps nth_append split: if_splits)
  then show ?case
  proof cases
    case 1
    then obtain S' where "bs = S' @ x # R" "mset S' = add_mset y (mset S)" using snoc.IH by blast
    then show ?thesis by (intro exI [of _ "S' @ [x]"]) simp
  next
    case 2
    then obtain S' where "bs = S' @ y # R" "mset S' = add_mset x (mset S)" using snoc.IH by blast
    then show ?thesis by (intro exI [of _ "S' @ [y]"]) simp
  qed
qed

lemma linked_block_upd:
  "linked_block a q \<Longrightarrow> nb_I b' = k \<Longrightarrow> BlocksMap a' = (BlocksMap a)(k \<mapsto> b') \<Longrightarrow> linked_block a' q"
  by (auto simp: linked_block_def)

lemma InitNow1_keeps:
  assumes "InitNow1 a (length S, p) = Some a'" and "Blocks a = S @ p # R"
    and "\<forall>q \<in> set S \<union> (set (p # R) - {None}). linked_block a q"
  shows "\<exists>S'. Blocks a' = S' @ R \<and> Public a' = Public a \<and> mset S' = add_mset (Some (slot (length S, p))) (mset S) \<and>
    (\<forall>q \<in> set S' \<union> (set R - {None}). linked_block a' q)"
proof -
  define k where "k = slot (length S, p)"
  obtain b' bs where s: "nb_I b' = k" "SortNewBlock (deref (a\<lparr>BlocksMap := (BlocksMap a)(k \<mapsto> b')\<rparr>)) (S @ Some k # R) (length S) = Some bs"
      "a' = a\<lparr>BlocksMap := (BlocksMap a)(k \<mapsto> b'), Blocks := bs\<rparr>"
  proof (cases p)
    case None
    then show ?thesis
      using assms(1,2) that
      by (auto simp: InitNow1_def go_simps k_def slot_def NewBlock_Init_def deref_BlocksMap dest: Update_nb_I)
  next
    case (Some m)
    then have "linked_block a (Some m)" using assms(3) by simp
    then obtain b where "BlocksMap a m = Some b" "nb_I b = m" by (auto simp: linked_block_def)
    with Some show ?thesis
      using assms(1,2) that
      by (auto simp: InitNow1_def go_simps k_def slot_def update_block_def dest: Update_nb_I)
  qed
  obtain S' where S': "bs = S' @ R" "mset S' = add_mset (Some k) (mset S)" using SortNewBlock_prefix [OF s(2)] by blast
  have set: "set S' = insert (Some k) (set S)" using arg_cong [OF S'(2), of set_mset] by simp
  have map: "BlocksMap a' = (BlocksMap a)(k \<mapsto> b')" by (simp add: s(3))
  have "linked_block a' q" if "q \<in> set S' \<union> (set R - {None})" for q
  proof (cases "q = Some k")
    case True
    then show ?thesis using s(1) map by (simp add: linked_block_def)
  next
    case False
    then show ?thesis using that set assms(3) linked_block_upd [OF _ s(1) map] by auto
  qed
  then show ?thesis using S' s(3) k_def by auto
qed

lemma InitNow_fold_keeps:
  "foldM InitNow1 a (enumerate (length S) R) = Some a' \<Longrightarrow> Blocks a = S @ R \<Longrightarrow>
    \<forall>q \<in> set S \<union> (set R - {None}). linked_block a q \<Longrightarrow>
    Public a' = Public a \<and> mset (Blocks a') = mset S + mset (map (\<lambda>ip. Some (slot ip)) (enumerate (length S) R)) \<and>
    (\<forall>q \<in> set (Blocks a'). linked_block a' q)"
proof (induction R arbitrary: a S)
  case Nil
  then show ?case by simp
next
  case (Cons p R)
  then obtain a1 where a1: "InitNow1 a (length S, p) = Some a1" "foldM InitNow1 a1 (enumerate (Suc (length S)) R) = Some a'"
    by (auto simp: go_simps)
  obtain S' where S': "Blocks a1 = S' @ R" "Public a1 = Public a" "mset S' = add_mset (Some (slot (length S, p))) (mset S)"
      "\<forall>q \<in> set S' \<union> (set R - {None}). linked_block a1 q"
    using InitNow1_keeps [OF a1(1) Cons.prems(2,3)] by blast
  have "length S' = Suc (length S)" using arg_cong [OF S'(3), of size] by simp
  then show ?case using Cons.IH [of a1 S'] a1(2) S' by simp
qed

lemma post_InitNow [post_intros]:
  assumes "mjai_inv a" and "\<And>a'. mjai_inv a' \<Longrightarrow> Q a'"
  shows "post (InitNow str a) Q"
proof -
  have shape: "ai_shape a" and link: "linked a" using assms(1) by (auto simp: mjai_inv_def)
  let ?a = "set_me a ((me a)\<lparr>Now := tile_grid str\<rparr>)"
  have shape1: "ai_shape ?a"
    using me_ok [OF shape] by (intro ai_shape_set_me [OF shape]) (auto simp: public_ok_def tile_grid_def grid_of_ok)
  have link1: "linked ?a" using link by (simp add: linked_def)
  have "mjai_inv a2" if "foldM InitNow1 ?a (enumerate 0 (Blocks ?a)) = Some a2" for a2
  proof -
    note slots = linked_slots [OF link1]
    have "\<forall>q \<in> set [] \<union> (set (Blocks ?a) - {None}). linked_block ?a q"
      using slots(3) unfolding linked_block_def by (metis DiffD1 DiffD2 UnE empty_iff empty_set insertI1 not_None_eq)
    then have a2: "Public a2 = Public ?a" "mset (Blocks a2) = {#Some 0, Some 1, Some 2#}" "\<forall>q \<in> set (Blocks a2). linked_block a2 q"
      using InitNow_fold_keeps [of ?a "[]" "Blocks ?a" a2] that slots(1) by auto
    have "set (Blocks a2) = {Some 0, Some 1, Some 2}" using arg_cong [OF a2(2), of set_mset] by simp
    then have "blocks_ok a2"
      using a2(2,3) by (auto simp: blocks_ok_def linked_block_def less_Suc_eq numeral_3_eq_3 numeral_2_eq_2)
    moreover have "me a2 = me ?a" "ai_shape a2" using a2(1) shape1 by (simp_all add: me_def ai_shape_def)
    ultimately show ?thesis using assms(1) shape by (simp add: mjai_inv_def linked_def)
  qed
  then have "post (foldM InitNow1 ?a (enumerate 0 (Blocks ?a))) mjai_inv" by (simp add: post_def)
  then have "post (foldM InitNow1 ?a (enumerate 0 (Blocks ?a)) \<bind> choose_Inv) Q"
    using assms(2) by (auto intro!: post_bind post_choose_Inv elim!: post_mono)
  then show ?thesis
    by (simp add: InitNow_def seat_me [OF shape] SetNow_spec set_seat_me [OF shape])
qed

subsection \<open>Observations and settings\<close>

lemma mjai_inv_fields [simp]:
  "mjai_inv (a\<lparr>SeeList := x1\<rparr>) = mjai_inv a" "mjai_inv (a\<lparr>LastPublicId := x2\<rparr>) = mjai_inv a"
  "mjai_inv (a\<lparr>SumVal := x3\<rparr>) = mjai_inv a" "mjai_inv (a\<lparr>BaseVal := x4\<rparr>) = mjai_inv a"
  by (simp_all add: mjai_inv_def ai_shape_def linked_def blocks_ok_def me_def)

lemma post_slice_from [post_intros]: "(\<And>x. Q x) \<Longrightarrow> post (slice_from b n) Q"
  by (rule post_read)

lemma post_SetLastSee [post_intros]:
  "mjai_inv a \<Longrightarrow> (\<And>a'. mjai_inv a' \<Longrightarrow> Q a') \<Longrightarrow> post (SetLastSee uid n a) Q"
  unfolding SetLastSee_def by (auto intro!: post_intros simp: seat_like_def public_ok_def)

lemma post_SetNowVal [post_intros]:
  "mjai_inv a \<Longrightarrow> (\<And>a'. mjai_inv a' \<Longrightarrow> Q a') \<Longrightarrow> post (SetNowVal nid n a) Q"
  unfolding SetNowVal_def by (auto intro!: post_intros simp: seat_like_def public_ok_def)

lemma post_SetPublicDown [post_intros]:
  "mjai_inv a \<Longrightarrow> (\<And>a'. mjai_inv a' \<Longrightarrow> Q a') \<Longrightarrow> post (SetPublicDown nid n v a) Q"
  unfolding SetPublicDown_def by (auto intro!: post_intros simp: seat_like_def public_ok_def)

lemma post_SetPublicSee [post_intros]:
  "mjai_inv a \<Longrightarrow> (\<And>a'. mjai_inv a' \<Longrightarrow> Q a') \<Longrightarrow> post (SetPublicSee nid n a) Q"
  unfolding SetPublicSee_def by (auto intro!: post_intros simp: seat_like_def public_ok_def)

lemma post_SetSeeList [post_intros]:
  "mjai_inv a \<Longrightarrow> (\<And>a'. mjai_inv a' \<Longrightarrow> Q a') \<Longrightarrow> post (SetSeeList b a) Q"
  unfolding SetSeeList_def SetSumVal_def by (auto intro!: post_intros)

lemma post_go_div [post_intros]: "(\<And>x. Q x) \<Longrightarrow> post (go_div x y) Q"
  by (rule post_read)

lemma post_GetFullVal [post_intros]:
  "mjai_inv a \<Longrightarrow> (\<And>v a'. mjai_inv a' \<Longrightarrow> Q (v, a')) \<Longrightarrow> post (GetFullVal n a) Q"
  unfolding GetFullVal_def by (auto intro!: post_intros simp: seat_like_def public_ok_def)

lemma mjai_inv_Init:
  assumes "length (Public a) = 4" and "linked a"
  shows "mjai_inv (Ai_Init a)"
  using Ai_Init_shape [OF assms(1)] assms(2) by (simp add: mjai_inv_def)

lemma mjai_inv_length: "mjai_inv a \<Longrightarrow> length (Public a) = 4 \<and> linked a"
  by (simp add: mjai_inv_def ai_shape_def)

end
