(* ===== verification/RobotMjai.thy ===== *)
theory RobotMjai
  imports Robot MjaiKeeps
begin

text \<open>
  The game server running the player of \<^verbatim>\<open>src/mjai\<close>: the interface \<open>SCMJ\<close> is filled with its
  operations, the contract of \<open>scmj_contract\<close> is discharged for them, and the results about the
  player and about the server are put together into statements about packets.
\<close>

definition mjai_ops :: "Ai SCMJ" where
  "mjai_ops = \<lparr>scmj_new = new_Ai, scmj_Init = Ai_Init, scmj_InitNow = InitNow, scmj_SetSeeList = SetSeeList,
     scmj_SetNowVal = SetNowVal, scmj_GetLastSee = GetLastSee, scmj_Outs = Outs, scmj_OutDiscard = OutDiscard,
     scmj_SeeOuts = SeeOuts, scmj_GetValid = GetValid, scmj_SetPublicDown = SetPublicDown,
     scmj_GetFullVal = GetFullVal, scmj_SetBaseVal = SetBaseVal\<rparr>"

lemma mjai_ops_simps [simp]:
  "scmj_new mjai_ops = new_Ai"
  "scmj_Init mjai_ops = Ai_Init"
  "scmj_InitNow mjai_ops = InitNow"
  "scmj_SetSeeList mjai_ops = SetSeeList"
  "scmj_SetNowVal mjai_ops = SetNowVal"
  "scmj_GetLastSee mjai_ops = GetLastSee"
  "scmj_Outs mjai_ops = Outs"
  "scmj_OutDiscard mjai_ops = OutDiscard"
  "scmj_SeeOuts mjai_ops = SeeOuts"
  "scmj_GetValid mjai_ops = GetValid"
  "scmj_SetPublicDown mjai_ops = SetPublicDown"
  "scmj_GetFullVal mjai_ops = GetFullVal"
  "scmj_SetBaseVal mjai_ops = SetBaseVal"
  by (simp_all add: mjai_ops_def)

interpretation mjai: scmj_contract mjai_ops mjai_inv
proof unfold_locales
  show "mjai_inv (scmj_Init mjai_ops (scmj_new mjai_ops))"
    using mjai_inv_Init [of new_Ai] by (simp add: mjai_ops_def new_Ai_def linked_def)
  show "mjai_inv (scmj_Init mjai_ops s)" if "mjai_inv s" for s
    using mjai_inv_Init mjai_inv_length [OF that] by (simp add: mjai_ops_def)
qed (auto simp: mjai_ops_def SetBaseVal_def intro!: post_intros)

text \<open>
  C2. Whatever packets arrive on whatever connections, interleaved with sweeps and proxy
  registrations: every session of the server has four well-shaped seats, its block pointers are
  all nil or link the three blocks of its hand, its given-up suit is one of the three or none, and
  the slot 255 is never used.
\<close>

theorem reachable_sessions_ok:
  assumes "reachable mjai_ops replace st"
  shows "HostMap st 255 = None \<and> (\<forall>k u. HostMap st k = Some u \<longrightarrow> mjai_inv (Scmj u))"
  using mjai.reachable_keeps [OF assms] by (simp add: session_ok_def)

subsection \<open>Asking for a discard\<close>

text \<open>The witnesses below start from a server with one session in slot 0.\<close>

definition demo_user :: "Ai UserBase" where
  "demo_user = \<lparr>Property = 0, Host = 0, BeginTime = 0, Scmj = demo_seat, LastForData = ([], [])\<rparr>"

definition demo_server :: "(Ai, unit) server" where
  "demo_server = \<lparr>HostMap = [0 \<mapsto> demo_user], HostProxyMap = Map.empty\<rparr>"

lemma demo_seat_inv: "mjai_inv demo_seat"
  using demo_seat_ok by (simp add: mjai_inv_def)

lemma method_6: "MethodLib mjai_ops replace (method_key 79 (ucast (6 :: byte))) = Some (lift_scmj (scmj_6 mjai_ops))"
  by (simp add: MethodLib_def ScmjFuncLib_def method_key_def ScmjId_def)

lemma GetFullVal_ready:
  assumes "ready a"
  shows "\<exists>v a'. GetFullVal n a = Some (v, a') \<and> ready a' \<and> Now (me a') = Now (me a) \<and> Inv (me a') = Inv (me a)"
proof -
  have shape: "ai_shape a" using assms by (simp add: ready_def)
  let ?a = "set_me a ((me a)\<lparr>TmpNowVal := n\<rparr>)"
  have "ai_shape ?a" using me_ok [OF shape] by (intro ai_shape_set_me [OF shape]) (simp add: public_ok_def)
  then have "ready ?a" using assms shape by (simp add: ready_def hand_ok_def in_sync_def)
  then show ?thesis using assms shape by (auto simp: GetFullVal_def seat_me set_seat_me go_div_def)
qed

text \<open>A discard request as the player sees it: new hand, value, decision.\<close>

lemma discard_decision:
  assumes "mjai_inv s" and "valid_hand str"
  shows "\<exists>a i. InitNow str s = Some a \<and> ready a \<and> Now (me a) = tile_grid str \<and> Inv (me a) = int i \<and> i < 3"
proof -
  obtain a where a: "InitNow str s = Some a" "ready a" "Now (me a) = tile_grid str"
      "if Inv (me s) = -1 then \<exists>i < 3. Inv (me a) = int i \<and> (\<forall>k < 3. sum_list (tile_grid str ! i) \<le> sum_list (tile_grid str ! k))
       else Inv (me a) = Inv (me s)"
    using InitNow_ready [of s str] assms valid_hand_copies by (auto simp: mjai_inv_def)
  have "\<exists>i < 3. Inv (me a) = int i"
  proof (cases "Inv (me s) = -1")
    case False
    then have "0 \<le> Inv (me s)" "Inv (me s) < 3" using assms(1) by (auto simp: mjai_inv_def)
    then show ?thesis using a(4) False by (intro exI [of _ "nat (Inv (me s))"]) auto
  qed (use a(4) in auto)
  with a show ?thesis by auto
qed

lemma held_tile_grid:
  assumes "Now (me a) = tile_grid str"
  shows "(i, j) \<in> held_tiles a \<longleftrightarrow> i < 3 \<and> j < 9 \<and> (\<exists>b \<in> set str. unat b = 9 * i + j)"
proof -
  have "0 < copies str n \<longleftrightarrow> (\<exists>b \<in> set str. unat b = n)" for n
    by (auto simp: copies_def filter_empty_conv)
  moreover have "hand a i j = copies str (9 * i + j)" if "i < 3" "j < 9"
    using that assms by (simp add: hand_def tile_grid_def nth_grid_of)
  ultimately show ?thesis by (auto simp: held_tiles_def)
qed

lemma tile_held_byte:
  assumes "Now (me a) = tile_grid str" and "tile_held a v"
  shows "of_int v \<in> set str \<and> (of_int v :: byte) < 27"
proof -
  obtain i j where ij: "(i, j) \<in> held_tiles a" "v = int (9 * i + j)" using assms(2) by (auto simp: tile_held_def)
  then obtain b where b: "b \<in> set str" "unat b = 9 * i + j" "i < 3" "j < 9" using held_tile_grid [OF assms(1)] by auto
  have "b = of_nat (9 * i + j)" unfolding b(2) [symmetric] by simp
  then have "of_int v = b" using ij(2) by simp
  with b show ?thesis by (simp add: word_less_nat_alt)
qed

lemma some_tile_held:
  assumes "Now (me a) = tile_grid str" and "t \<in> set str" and "t < 27"
  shows "held_tiles a \<noteq> {}"
proof -
  have "unat t < 27" using assms(3) by (simp add: word_less_nat_alt)
  then have "(unat t div 9, unat t mod 9) \<in> held_tiles a"
    unfolding held_tile_grid [OF assms(1)] using assms(2) by (auto intro!: bexI [of _ t])
  then show ?thesis by blast
qed

text \<open>
  C1. A discard request end to end. A packet \<open>key, 'O', 6, payload\<close> for an open session whose payload
  differs from the last one, whose first fourteen bytes hold a tile and no tile more than four
  times, is always answered with the key and one byte, and that byte is one of the tiles the
  packet offered.
\<close>

theorem discard_request_answered:
  assumes "HostMap st k = Some u" and "mjai_inv (Scmj u)" and "fst (LastForData u) \<noteq> payload"
    and "14 \<le> length payload" and "valid_hand (take 14 payload)" and "t \<in> set (take 14 payload)" and "t < 27"
  shows "\<exists>tile st'. GetRecvData mjai_ops replace now peer (k # 79 # 6 # payload) st = Some (Some [k, tile], st') \<and>
    tile \<in> set (take 14 payload) \<and> tile < 27"
proof -
  let ?str = "take 14 payload"
  let ?u = "u\<lparr>BeginTime := now, LastForData := (payload, snd (LastForData u))\<rparr>"
  have slice: "cap_slice payload 0 14 = ?str" using assms(4) by (simp add: cap_slice_def)
  obtain a i where a: "InitNow ?str (Scmj u) = Some a" "ready a" "Now (me a) = tile_grid ?str" "Inv (me a) = int i" "i < 3"
    using discard_decision [OF assms(2,5)] by blast
  obtain isf a1 where a1: "GetFullVal (ByteToInt (drop 14 payload)) a = Some (isf, a1)" "ready a1"
      "Now (me a1) = tile_grid ?str" "Inv (me a1) = int i"
    using GetFullVal_ready [OF a(2)] a(3,4) by metis
  have "held_tiles a1 \<noteq> {}" by (rule some_tile_held [OF a1(3) assms(6,7)])
  then obtain v a2 where v: "Outs isf False a1 = Some (v, a2)" "tile_held a1 v"
    using Outs_ready [OF a1(2,4) a(5), of False isf] by auto
  have "scmj_6 mjai_ops payload ?u = Some ([of_int v], ?u\<lparr>Scmj := a2\<rparr>)"
    using a(1) a1(1) v(1) assms(4) by (simp add: scmj_6_def scmj_discard_def slice slice_from_def slice_def)
  then have "\<exists>st'. GetRecvData mjai_ops replace now peer (k # 79 # 6 # payload) st = Some (Some [k, of_int v], st')"
    using recv_method [of "k # 79 # 6 # payload" mjai_ops replace "lift_scmj (scmj_6 mjai_ops)" st u] assms(1,3) method_6 [of replace]
    by (simp add: lift_scmj_def)
  with tile_held_byte [OF a1(3) v(2)] show ?thesis by blast
qed

definition demo_payload :: "byte list" where
  "demo_payload = demo_tiles @ [13]"

lemma demo_payload_ok: "14 \<le> length demo_payload" "take 14 demo_payload = demo_payload" "valid_hand demo_payload"
    "0 \<in> set demo_payload" "demo_payload \<noteq> []"
  using demo_tiles_valid(2) by (simp_all add: demo_payload_def demo_tiles_def)

theorem discard_request_answered_witness:
  "\<exists>tile st'. GetRecvData mjai_ops id 7 ''10.0.0.1'' (0 # 79 # 6 # demo_payload) demo_server = Some (Some [0, tile], st') \<and>
    tile \<in> set (take 14 demo_payload) \<and> tile < 27"
  by (rule discard_request_answered [where u = demo_user and t = 0])
    (use demo_seat_inv demo_payload_ok in \<open>simp_all add: demo_server_def demo_user_def\<close>)

text \<open>
  C38. One packet ends the server: a discard request for an open session whose first fourteen
  payload bytes contain no tile (every byte at least 27) makes the handler panic, and nothing
  recovers.
\<close>

theorem empty_hand_request_panics:
  assumes "HostMap st k = Some u" and "mjai_inv (Scmj u)" and "fst (LastForData u) \<noteq> payload"
    and "14 \<le> length payload" and "\<forall>t \<in> set (take 14 payload). 27 \<le> t"
  shows "GetRecvData mjai_ops replace now peer (k # 79 # 6 # payload) st = None"
proof -
  let ?str = "take 14 payload"
  let ?u = "u\<lparr>BeginTime := now, LastForData := (payload, snd (LastForData u))\<rparr>"
  have slice: "cap_slice payload 0 14 = ?str" using assms(4) by (simp add: cap_slice_def)
  have "valid_hand ?str" using assms(5) by (fastforce simp: valid_hand_def list_all_iff)
  then obtain a i where a: "InitNow ?str (Scmj u) = Some a" "ready a" "Now (me a) = tile_grid ?str" "Inv (me a) = int i" "i < 3"
    using discard_decision [OF assms(2)] by blast
  obtain isf a1 where a1: "GetFullVal (ByteToInt (drop 14 payload)) a = Some (isf, a1)" "ready a1"
      "Now (me a1) = tile_grid ?str" "Inv (me a1) = int i"
    using GetFullVal_ready [OF a(2)] a(3,4) by metis
  have "(m, n) \<notin> held_tiles a1" for m n
  proof
    assume "(m, n) \<in> held_tiles a1"
    then obtain b where "b \<in> set ?str" "unat b = 9 * m + n" "m < 3" "n < 9" using held_tile_grid [OF a1(3)] by auto
    then show False using assms(5) by (fastforce simp: word_le_nat_alt)
  qed
  then have "held_tiles a1 = {}" by auto
  then have "Outs isf False a1 = None" by (rule Outs_empty [OF a1(2,4) a(5)])
  then have "scmj_6 mjai_ops payload ?u = None"
    using a(1) a1(1) assms(4) by (simp add: scmj_6_def scmj_discard_def slice slice_from_def slice_def)
  then show ?thesis
    using recv_method [of "k # 79 # 6 # payload" mjai_ops replace "lift_scmj (scmj_6 mjai_ops)" st u] assms(1,3) method_6 [of replace]
    by (simp add: lift_scmj_def)
qed

theorem empty_hand_request_panics_witness:
  "GetRecvData mjai_ops id 7 ''10.0.0.1'' (0 # 79 # 6 # replicate 14 30) demo_server = None"
  by (rule empty_hand_request_panics [where u = demo_user])
    (use demo_seat_inv in \<open>simp_all add: demo_server_def demo_user_def\<close>)

text \<open>
  On a new session the hello method (0) with an empty payload is never run: the empty payload
  equals the empty memory of the session, so the reply lacks the service announcement \<open>'O', 0\<close> that
  the method returns.
\<close>

lemma hello_not_answered:
  "map_option fst (GetRecvData mjai_ops replace now peer [k, 0, 0] new_server) = Some (Some [0])"
proof -
  have "free_slot (Map.empty :: byte \<rightharpoonup> Ai UserBase) = Some 0"
    by (simp add: free_slot_def upt_rec)
  moreover have "MethodLib mjai_ops replace (method_key 0 0) = Some method_0"
    by (simp add: MethodLib_def method_key_def)
  ultimately show ?thesis
    by (simp add: GetRecvData_def new_server_def GetHost_unknown)
qed

theorem reachable_sessions_ok_witness:
  "\<exists>st u. reachable mjai_ops (id :: unit \<Rightarrow> unit) st \<and> HostMap st 0 = Some u \<and> Property u = 5 \<and> HostMap st 255 = None \<and>
    mjai_inv (Scmj u)"
proof -
  let ?u = "(fresh_user mjai_ops 3 ''10.0.0.1'')\<lparr>Property := 5, LastForData := ([5], [])\<rparr>"
  let ?st = "\<lparr>HostMap = [0 \<mapsto> ?u], HostProxyMap = Map.empty\<rparr> :: (Ai, unit) server"
  have "free_slot (Map.empty :: byte \<rightharpoonup> Ai UserBase) = Some 0"
    by (simp add: free_slot_def upt_rec)
  moreover have "MethodLib mjai_ops (id :: unit \<Rightarrow> unit) (method_key 0 1) = Some method_1"
    by (simp add: MethodLib_def method_key_def)
  moreover have "ByteToInt [5] = 5" by (simp add: ByteToInt_def byte_step_def go_shl_def in_int64_def)
  ultimately have "GetRecvData mjai_ops id 3 ''10.0.0.1'' [7, 0, 1, 5] new_server = Some (Some [0], ?st)"
    by (simp add: GetRecvData_def new_server_def GetHost_unknown method_1_def)
  then have r: "reachable mjai_ops id ?st"
    unfolding reachable_def by (intro r_into_rtranclp server_step.packet)
  have u: "HostMap ?st 0 = Some ?u" by simp
  with reachable_sessions_ok [OF r] have "mjai_inv (Scmj ?u)" by blast
  with r u show ?thesis by (intro exI [of _ ?st] exI [of _ ?u] conjI) simp_all
qed

text \<open>A session that has just been asked for its given-up suit answers a discard request (method 6)
  carrying the same payload with the old reply.\<close>

definition asked_user :: "Ai UserBase" where
  "asked_user = demo_user\<lparr>LastForData := (demo_payload, [2])\<rparr>"

definition asked_server :: "(Ai, unit) server" where
  "asked_server = \<lparr>HostMap = [0 \<mapsto> asked_user], HostProxyMap = Map.empty\<rparr>"

theorem GetRecvData_repeats_payload_witness:
  "GetRecvData mjai_ops id 9 ''10.0.0.1'' (0 # 79 # 6 # demo_payload) asked_server =
    Some (Some [0, 2], asked_server\<lparr>HostMap := (HostMap asked_server)(0 \<mapsto> asked_user\<lparr>BeginTime := 9\<rparr>)\<rparr>)"
  using GetRecvData_repeats_payload [of "0 # 79 # 6 # demo_payload" mjai_ops id "lift_scmj (scmj_6 mjai_ops)" asked_server
      asked_user "[2]" 9 "''10.0.0.1''"] method_6 [of "id :: unit \<Rightarrow> unit"]
  by (simp add: asked_server_def asked_user_def)

theorem GetRecvData_idempotent_witness:
  "\<exists>st1 u. GetRecvData mjai_ops (id :: unit \<Rightarrow> unit) 3 ''10.0.0.1'' [7, 0, 1, 5] new_server = Some (Some [0], st1) \<and> HostMap st1 0 = Some u \<and>
    GetRecvData mjai_ops id 4 ''10.0.0.2'' [0, 0, 1, 5] st1 =
      Some (Some [0], st1\<lparr>HostMap := (HostMap st1)(0 \<mapsto> u\<lparr>BeginTime := 4\<rparr>)\<rparr>)"
proof -
  have "free_slot (Map.empty :: byte \<rightharpoonup> Ai UserBase) = Some 0"
    by (simp add: free_slot_def upt_rec)
  moreover have m: "MethodLib mjai_ops (id :: unit \<Rightarrow> unit) (method_key 0 1) = Some method_1"
    by (simp add: MethodLib_def method_key_def)
  ultimately obtain st1 where st1: "GetRecvData mjai_ops (id :: unit \<Rightarrow> unit) 3 ''10.0.0.1'' [7, 0, 1, 5] new_server = Some (Some [0], st1)"
    by (simp add: GetRecvData_def new_server_def GetHost_unknown method_1_def Let_def)
  with GetRecvData_idempotent [OF m, of 1 3 "''10.0.0.1''" 7 "[5]" new_server 0 "[]" st1 4 "''10.0.0.2''"] show ?thesis by auto
qed

end
