(* ===== verification/MjaiBlock.thy ===== *)
theory MjaiBlock
  imports MjaiJiao
begin

text \<open>
  The type \<open>Block\<close> of \<^verbatim>\<open>src/mjai/Block.go\<close> (lines 5--228): a suit with its runs of ranks and leftovers, and
  the search \<open>RunFind\<close> that rates the leftovers by how many further tiles are needed until they are used and
  by how many tiles do it.

  The leftovers are pointers that the block, the result and the recursive calls share. They are kept in a heap,
  a list of grains; a list of pointers is a list of positions in it.
\<close>

record Block =
  bk_Bl :: "nat list list"
  bk_Num :: int
  bk_Numi :: int
  bk_No :: "int list"
  bk_I :: int
  bk_W :: int
  bk_We :: "MJGrain list"

definition new_Block :: Block where
  "new_Block = \<lparr>bk_Bl = [], bk_Num = 0, bk_Numi = 0, bk_No = [], bk_I = 0, bk_W = 0, bk_We = []\<rparr>"

text \<open>\<open>copy(No[0:], no)\<close> into a new array of nine counts.\<close>

definition copy9 :: "int list \<Rightarrow> int list" where
  "copy9 no = take 9 no @ replicate (9 - length no) 0"

text \<open>A run with a rank above 8 lets \<open>GetWeightVal\<close> index its array out of range.\<close>

definition Block_SetWeight1 :: "int list \<Rightarrow> int \<Rightarrow> int \<times> MJGrain list \<Rightarrow> nat list \<Rightarrow> (int \<times> MJGrain list) go" where
  "Block_SetWeight1 No i = (\<lambda>(W, We) bl.
     if list_ex (\<lambda>j. 9 \<le> j) bl then None
     else do {
       (w, e) \<leftarrow> GetWeightVal No bl;
       Some (W + w, We @ map (\<lambda>g. g\<lparr>gr_H := i\<rparr>) e) })"

definition Block_SetWeight :: "Block \<Rightarrow> Block go" where
  "Block_SetWeight self = do {
     (W, We) \<leftarrow> foldM (Block_SetWeight1 (copy9 (bk_No self)) (bk_I self)) (0, []) (bk_Bl self);
     Some (self\<lparr>bk_W := W, bk_We := We\<rparr>) }"

text \<open>The loop over the counts, the same in \<open>Init\<close> and \<open>Update\<close>: a zero closes the current run.\<close>

definition Block_scan1 :: "nat list \<times> nat list list \<times> int \<times> int \<Rightarrow> nat \<times> int \<Rightarrow> nat list \<times> nat list list \<times> int \<times> int" where
  "Block_scan1 = (\<lambda>(tmparr, Bl, Num, Numi) (j, n).
     if n = 0 then (if tmparr \<noteq> [] then ([], Bl @ [tmparr], Num, Numi) else (tmparr, Bl, Num, Numi))
     else (tmparr @ [j], Bl, Num + n, Numi + 1))"

definition Block_scan :: "int list \<Rightarrow> Block \<Rightarrow> Block" where
  "Block_scan no self = (case foldl Block_scan1 ([], [], 0, 0) (enumerate 0 no) of (tmparr, Bl, Num, Numi) \<Rightarrow>
     self\<lparr>bk_Bl := (if tmparr \<noteq> [] then Bl @ [tmparr] else Bl), bk_Num := Num, bk_Numi := Numi\<rparr>)"

definition Block_Update :: "Block \<Rightarrow> Block go" where
  "Block_Update self = Block_SetWeight (Block_scan (bk_No self) self)"

definition Block_Init :: "int list \<Rightarrow> int \<Rightarrow> Block \<Rightarrow> Block go" where
  "Block_Init no i self = Block_SetWeight (Block_scan no (self\<lparr>bk_I := i, bk_No := no\<rparr>))"

definition Block_GetWeight :: "Block \<Rightarrow> int" where
  "Block_GetWeight self = bk_W self"

subsection \<open>The search\<close>

text \<open>A grain that the longer suit uses gets the level, or adds to the number of tiles found at this level.\<close>

definition find_grain :: "int \<Rightarrow> int \<Rightarrow> MJGrain \<Rightarrow> MJGrain go" where
  "find_grain level num g = do {
     v \<leftarrow> idx (gr_O g) 1;
     (if v > level then do {
        c \<leftarrow> upd (gr_O g) 1 level;
        c \<leftarrow> upd c 4 num;
        Some (g\<lparr>gr_O := c\<rparr>) }
      else if v = level then do {
        m \<leftarrow> idx (gr_O g) 4;
        c \<leftarrow> upd (gr_O g) 4 (m + num);
        Some (g\<lparr>gr_O := c\<rparr>) }
      else Some g) }"

definition find_mark :: "MJGrain list \<Rightarrow> int \<Rightarrow> int \<Rightarrow> nat list \<times> MJGrain list \<Rightarrow> nat \<Rightarrow> (nat list \<times> MJGrain list) go" where
  "find_mark we level num = (\<lambda>(NewGrs, h) p.
     if list_ex (\<lambda>gn. gr_N gn = gr_N (h ! p)) we then Some (NewGrs @ [p], h)
     else do {
       g \<leftarrow> find_grain level num (h ! p);
       Some (NewGrs, h[p := g]) })"

definition neighbour_held :: "int list \<Rightarrow> nat \<Rightarrow> bool" where
  "neighbour_held No i \<longleftrightarrow> i + 1 < 9 \<and> No ! (i + 1) > 0 \<or> 1 \<le> i \<and> No ! (i - 1) > 0"

text \<open>
  One iteration of the loop over the nine ranks, the same in \<open>RunFind\<close> and \<open>Find\<close>: unless the tile cannot
  come or connects with nothing, the suit with it is handed to \<open>cont\<close> together with the number of
  its tiles that are left. \<open>No\<close> is restored at the end of the iteration.
\<close>

definition draw_tile :: "Ai \<Rightarrow> int \<Rightarrow> int list \<Rightarrow> (Block \<Rightarrow> int \<Rightarrow> 's \<Rightarrow> 's go) \<Rightarrow> 's \<Rightarrow> nat \<Rightarrow> 's go" where
  "draw_tile a I No cont h i =
     (if No ! i = 4 then Some h
      else if No ! i = 0 \<and> \<not> neighbour_held No i then Some h
      else do {
        n \<leftarrow> GetPublicNum \<lparr>gr_H = I, gr_N = int i, gr_O = []\<rparr> True a;
        (if n = 4 then Some h
         else do {
           tmpBlock \<leftarrow> Block_Init (No[i := No ! i + 1]) I new_Block;
           cont tmpBlock (4 - n) h }) })"

function Block_Find :: "Ai \<Rightarrow> Block \<Rightarrow> nat list \<Rightarrow> int \<Rightarrow> int \<Rightarrow> MJGrain list \<Rightarrow> MJGrain list go" where
  "Block_Find a self grs level num h = do {
     (NewGrs, h) \<leftarrow> foldM (find_mark (bk_We self) level num) ([], h) grs;
     (if NewGrs = [] then Some h
      else if level + 1 > 1 then Some h
      else foldM (draw_tile a (bk_I self) (copy9 (bk_No self))
        (\<lambda>tmpBlock n h. Block_Find a tmpBlock NewGrs (level + 1) (n + num) h)) h [0..<9]) }"
  by pat_completeness auto
termination by (relation "measure (\<lambda>(a, self, grs, level, num, h). nat (2 - level))") auto

declare Block_Find.simps [simp del]

definition runfind_grain :: "Ai \<Rightarrow> MJGrain \<Rightarrow> MJGrain go" where
  "runfind_grain a g = do {
     let c = gr_O g @ [2];
     n \<leftarrow> GetPublicNum (g\<lparr>gr_O := c\<rparr>) False a;
     let c = c @ [n];
     let c = c @ [c ! 0];
     let c = c @ [0];
     Some (g\<lparr>gr_O := c[0 := 0]\<rparr>) }"

definition Block_RunFind :: "Ai \<Rightarrow> Block \<Rightarrow> (MJGrain list \<times> Block) go" where
  "Block_RunFind a self =
     (if bk_We self = [] then Some ([], self)
      else do {
        h \<leftarrow> foldM (\<lambda>grs g. do { g \<leftarrow> runfind_grain a g; Some (grs @ [g]) }) [] (bk_We self);
        h \<leftarrow> foldM (draw_tile a (bk_I self) (copy9 (bk_No self))
          (\<lambda>tmpBlock n h. Block_Find a tmpBlock [0..<length h] 0 (n * 10) h)) h [0..<9];
        Some (h, self\<lparr>bk_We := h\<rparr>) })"

subsection \<open>Blocks and new blocks\<close>

text \<open>
  What a \<open>Block\<close> has of a \<open>NewBlock\<close>: the same runs, sums, weight and leftovers, these without the two
  score columns that \<open>NewBlock.SetWeight\<close> appends.
\<close>

definition strip :: "MJGrain \<Rightarrow> MJGrain" where
  "strip g = g\<lparr>gr_O := butlast (butlast (gr_O g))\<rparr>"

definition as_block :: "int list \<Rightarrow> NewBlock \<Rightarrow> Block" where
  "as_block No nb = \<lparr>bk_Bl = map chBl (Child nb), bk_Num = SumLen nb, bk_Numi = SumWei nb, bk_No = No,
     bk_I = int (nb_I nb), bk_W = nb_W nb, bk_We = map strip (We nb)\<rparr>"

definition scan_rel :: "scan_state \<Rightarrow> nat list \<times> nat list list \<times> int \<times> int \<Rightarrow> bool" where
  "scan_rel = (\<lambda>(child, Ch, sl, sw) (tmparr, Bl, Num, Numi). tmparr = chBl child \<and> Bl = map chBl Ch \<and>
     Num = sl + chLen child \<and> Numi = sw + Wei child \<and> Wei child = int (length tmparr) \<and> (tmparr = [] \<longrightarrow> chLen child = 0))"

lemma scan_rel_step: "scan_rel s t \<Longrightarrow> scan_rel (Update1 s jn) (Block_scan1 t jn)"
  by (cases s; cases t; cases jn) (auto simp: scan_rel_def Update1_def Block_scan1_def new_ChildBlock_def)

lemma scan_rel_fold: "scan_rel s t \<Longrightarrow> scan_rel (foldl Update1 s xs) (foldl Block_scan1 t xs)"
  by (induction xs arbitrary: s t) (auto simp: scan_rel_step)

lemma SetWeight_sim:
  assumes "\<forall>c \<in> set Ch. \<forall>j \<in> set (chBl c). j < 9"
  shows "foldM (Block_SetWeight1 No (int i)) (w, map strip we) (map chBl Ch) =
    map_option (map_prod id (map strip)) (foldM (SetWeight1 No i) (w, we) Ch)"
  using assms
proof (induction Ch arbitrary: w we)
  case (Cons c Ch)
  have ok: "\<not> list_ex (\<lambda>j. 9 \<le> j) (chBl c)" using Cons.prems by (auto simp: list_ex_iff)
  show ?case
  proof (cases "GetWeightVal No (chBl c)")
    case None
    then show ?thesis using ok by (simp add: Block_SetWeight1_def SetWeight1_def)
  next
    case (Some r)
    then obtain k e where r: "GetWeightVal No (chBl c) = Some (k, e)" by (cases r) simp
    define e' where "e' = map (\<lambda>g. g\<lparr>gr_H := int i, gr_O := gr_O g @ [Wei c, chLen c]\<rparr>) e"
    have "Block_SetWeight1 No (int i) (w, map strip we) (chBl c) = Some (w + k, map strip (we @ e'))"
      using ok r by (simp add: Block_SetWeight1_def e'_def strip_def butlast_append)
    moreover have "SetWeight1 No i (w, we) c = Some (w + k, we @ e')" using r by (simp add: SetWeight1_def e'_def)
    ultimately show ?thesis using Cons.IH [of "w + k" "we @ e'"] Cons.prems by (simp del: map_append)
  qed
qed simp

lemma Block_Init_NewBlock:
  assumes "length No = 9"
  shows "Block_Init No (int i) b = map_option (as_block No) (NewBlock_Init No i nb)"
proof -
  obtain child Ch sl sw tmparr Bl Num Numi where
    s: "foldl Update1 (new_ChildBlock, [], 0, 0) (enumerate 0 No) = (child, Ch, sl, sw)" and
    t: "foldl Block_scan1 ([], [], 0, 0) (enumerate 0 No) = (tmparr, Bl, Num, Numi)"
    by (metis surj_pair)
  have rel: "scan_rel (child, Ch, sl, sw) (tmparr, Bl, Num, Numi)"
    unfolding s [symmetric] t [symmetric] by (rule scan_rel_fold) (simp add: scan_rel_def new_ChildBlock_def)
  have "\<forall>c \<in> set (child # Ch). \<forall>j \<in> set (chBl c). j < 9"
    using scan_inv_prefix [of "length No" No] s assms by (fastforce simp: scan_inv_def child_ok_def)
  moreover define Ch' where "Ch' = (if Wei child > 0 then Ch @ [child] else Ch)"
  ultimately have "\<forall>c \<in> set Ch'. \<forall>j \<in> set (chBl c). j < 9" by auto
  note sim = SetWeight_sim [OF this, of No i 0 "[]", simplified]
  have Bl: "(if tmparr \<noteq> [] then Bl @ [tmparr] else Bl) = map chBl Ch'"
    using rel by (auto simp: scan_rel_def Ch'_def)
  have "copy9 No = No" using assms by (simp add: copy9_def)
  then have "Block_Init No (int i) b = do { (W, We) \<leftarrow> foldM (Block_SetWeight1 No (int i)) (0, []) (map chBl Ch');
      Some \<lparr>bk_Bl = map chBl Ch', bk_Num = Num, bk_Numi = Numi, bk_No = No, bk_I = int i, bk_W = W, bk_We = We\<rparr> }"
    unfolding Block_Init_def Block_SetWeight_def Block_scan_def t prod.case Bl by (cases b) simp
  moreover have "NewBlock_Init No i nb = do { (w, we) \<leftarrow> foldM (SetWeight1 No i) (0, []) Ch';
      Some (nb\<lparr>nb_I := i, Child := Ch', SumLen := Num, SumWei := Numi, nb_W := w, We := we\<rparr>) }"
    using rel by (auto simp: NewBlock_Init_def NewBlock_Update_def s NewBlock_SetWeight_def Let_def Ch'_def scan_rel_def)
  ultimately show ?thesis
    by (cases "foldM (SetWeight1 No i) (0, []) Ch'") (auto simp: sim as_block_def)
qed

text \<open>
  C25. The two evaluations of a suit agree: \<open>Block.Update\<close> returns on exactly the rows on which \<open>NewBlock.Update\<close> does,
  and finds the same runs, the same numbers of tiles and ranks, the same weight and the same leftovers.
\<close>

theorem Block_Update_agrees:
  assumes "length (bk_No b) = 9" "bk_I b = int (nb_I nb)"
  shows "Block_Update b = map_option (as_block (bk_No b)) (NewBlock_Update (bk_No b) nb)"
proof -
  have "Block_Update b = Block_Init (bk_No b) (int (nb_I nb)) b" "NewBlock_Update (bk_No b) nb = NewBlock_Init (bk_No b) (nb_I nb) nb"
    by (simp_all add: Block_Update_def Block_Init_def NewBlock_Init_def flip: assms(2))
  then show ?thesis using Block_Init_NewBlock [OF assms(1)] by metis
qed

theorem Block_Update_agrees_witness:
  "\<exists>nb. NewBlock_Update [1, 1, 0, 0, 0, 0, 0, 0, 0] new_NewBlock = Some nb \<and>
    Block_Update (new_Block\<lparr>bk_No := [1, 1, 0, 0, 0, 0, 0, 0, 0]\<rparr>) = Some (as_block [1, 1, 0, 0, 0, 0, 0, 0, 0] nb)"
proof -
  have "counts_ok [1, 1, 0, 0, 0, 0, 0, 0, 0]" by (simp add: counts_ok_def)
  then obtain nb where "NewBlock_Update [1, 1, 0, 0, 0, 0, 0, 0, 0] new_NewBlock = Some nb"
    using Update_facts [of "[1, 1, 0, 0, 0, 0, 0, 0, 0]" new_NewBlock] by auto
  then show ?thesis
    using Block_Update_agrees [of "new_Block\<lparr>bk_No := [1, 1, 0, 0, 0, 0, 0, 0, 0]\<rparr>" new_NewBlock]
    by (simp add: new_Block_def new_NewBlock_def)
qed

subsection \<open>Marking grains on the heap\<close>

definition mark :: "int \<times> int \<Rightarrow> MJGrain \<Rightarrow> MJGrain" where
  "mark = (\<lambda>(level, num) g.
     if gr_O g ! 1 > level then g\<lparr>gr_O := (gr_O g)[1 := level, 4 := num]\<rparr>
     else if gr_O g ! 1 = level then g\<lparr>gr_O := (gr_O g)[4 := gr_O g ! 4 + num]\<rparr> else g)"

definition marks :: "(int \<times> int) list \<Rightarrow> MJGrain \<Rightarrow> MJGrain" where
  "marks es g = foldl (\<lambda>g e. mark e g) g es"

definition wide :: "MJGrain list \<Rightarrow> bool" where
  "wide h \<longleftrightarrow> (\<forall>g \<in> set h. 4 < length (gr_O g))"

text \<open>Every grain that \<open>grs\<close> points to gets the marks \<open>E\<close> has for its rank, the others stay.\<close>

definition marked :: "nat list \<Rightarrow> (int \<Rightarrow> (int \<times> int) list) \<Rightarrow> MJGrain list \<Rightarrow> MJGrain list \<Rightarrow> bool" where
  "marked grs E h h' \<longleftrightarrow> length h' = length h \<and>
     (\<forall>p < length h. h' ! p = (if p \<in> set grs then marks (E (gr_N (h ! p))) (h ! p) else h ! p))"

lemma find_grain_mark: "4 < length (gr_O g) \<Longrightarrow> find_grain level num g = Some (mark (level, num) g)"
  by (simp add: find_grain_def mark_def idx_def upd_def)

lemma mark_keeps [simp]: "gr_N (mark e g) = gr_N g" "gr_H (mark e g) = gr_H g" "length (gr_O (mark e g)) = length (gr_O g)"
  by (cases e; simp add: mark_def)+

lemma marks_simps [simp]: "marks [] g = g" "marks (e # es) g = marks es (mark e g)"
  "marks (es @ es') g = marks es' (marks es g)"
  by (simp_all add: marks_def)

lemma marks_keeps [simp]: "gr_N (marks es g) = gr_N g" "gr_H (marks es g) = gr_H g" "length (gr_O (marks es g)) = length (gr_O g)"
  by (induction es arbitrary: g) simp_all

lemma marked_N: "marked grs E h h' \<Longrightarrow> p < length h \<Longrightarrow> gr_N (h' ! p) = gr_N (h ! p)"
  by (simp add: marked_def)

lemma marked_wide: "marked grs E h h' \<Longrightarrow> wide h \<Longrightarrow> wide h'"
  by (auto simp: marked_def wide_def all_set_conv_all_nth)

lemma marked_refl: "marked grs (\<lambda>_. []) h h"
  by (simp add: marked_def)

lemma marked_trans:
  "marked grs E h h1 \<Longrightarrow> marked grs E' h1 h2 \<Longrightarrow> marked grs (\<lambda>N. E N @ E' N) h h2"
  by (auto simp: marked_def)

lemma marked_sub:
  assumes "marked (filter (\<lambda>p. gr_N (h ! p) \<in> S) grs) E h1 h2" "\<And>p. p < length h \<Longrightarrow> gr_N (h1 ! p) = gr_N (h ! p)"
    and "length h1 = length h"
  shows "marked grs (\<lambda>N. if N \<in> S then E N else []) h1 h2"
  using assms by (auto simp: marked_def)

text \<open>The first loop of \<open>Find\<close>: grains that are still left over go on, the others are marked.\<close>

lemma find_marks:
  assumes "wide h" "distinct grs" "\<forall>p \<in> set grs. p < length h"
  shows "\<exists>h'. foldM (find_mark we level num) (new, h) grs =
      Some (new @ filter (\<lambda>p. gr_N (h ! p) \<in> gr_N ` set we) grs, h') \<and>
    marked grs (\<lambda>N. if N \<in> gr_N ` set we then [] else [(level, num)]) h h'"
  using assms
proof (induction grs arbitrary: h new)
  case Nil
  then show ?case by (auto simp: marked_def)
next
  case (Cons p grs)
  have p: "p < length h" "p \<notin> set grs" "4 < length (gr_O (h ! p))"
    using Cons.prems by (auto simp: wide_def)
  have ex: "list_ex (\<lambda>gn. gr_N gn = gr_N (h ! p)) we \<longleftrightarrow> gr_N (h ! p) \<in> gr_N ` set we"
    unfolding list_ex_iff image_iff by (simp only: eq_commute [of _ "gr_N (h ! p)"])
  show ?case
  proof (cases "gr_N (h ! p) \<in> gr_N ` set we")
    case True
    then show ?thesis
      using Cons.IH [of h "new @ [p]"] Cons.prems p ex by (auto simp: find_mark_def marked_def)
  next
    case False
    define h1 where "h1 = h[p := mark (level, num) (h ! p)]"
    have "wide h1" using Cons.prems(1) p by (auto simp: wide_def h1_def dest!: subsetD [OF set_update_subset_insert])
    with Cons.IH [of h1 new] Cons.prems obtain h' where
      "foldM (find_mark we level num) (new, h1) grs = Some (new @ filter (\<lambda>q. gr_N (h1 ! q) \<in> gr_N ` set we) grs, h')"
      "marked grs (\<lambda>N. if N \<in> gr_N ` set we then [] else [(level, num)]) h1 h'"
      by (auto simp: h1_def)
    moreover have "find_mark we level num (new, h) p = Some (new, h1)"
      using False ex p by (simp add: find_mark_def find_grain_mark h1_def)
    moreover have "filter (\<lambda>q. gr_N (h1 ! q) \<in> gr_N ` set we) grs = filter (\<lambda>q. gr_N (h ! q) \<in> gr_N ` set we) grs"
      using p by (intro filter_cong refl) (metis h1_def nth_list_update_neq)
    ultimately show ?thesis using False p by (auto simp: marked_def h1_def nth_list_update)
  qed
qed

subsection \<open>What the search finds\<close>

text \<open>
  Reference definitions: the ranks left over in a suit, the tiles worth drawing (they can still come and connect
  with a tile of the suit), those of them that use up the leftovers of a rank, and the pairs of draws that
  do.
\<close>

definition leftover_ranks :: "nat \<Rightarrow> int list \<Rightarrow> int set" where
  "leftover_ranks i No = (case Block_Init No (int i) new_Block of None \<Rightarrow> {} | Some b \<Rightarrow> gr_N ` set (bk_We b))"

definition seen :: "Ai \<Rightarrow> nat \<Rightarrow> nat \<Rightarrow> int" where
  "seen a i r = hand a i r + visible a i r"

definition plus_tile :: "int list \<Rightarrow> nat \<Rightarrow> int list" where
  "plus_tile No r = No[r := No ! r + 1]"

definition can_draw :: "Ai \<Rightarrow> nat \<Rightarrow> int list \<Rightarrow> nat \<Rightarrow> bool" where
  "can_draw a i No r \<longleftrightarrow> No ! r \<noteq> 4 \<and> (No ! r \<noteq> 0 \<or> neighbour_held No r) \<and> seen a i r \<noteq> 4"

definition draws :: "Ai \<Rightarrow> nat \<Rightarrow> int list \<Rightarrow> nat list" where
  "draws a i No = filter (can_draw a i No) [0..<9]"

definition uses1 :: "Ai \<Rightarrow> nat \<Rightarrow> int list \<Rightarrow> int \<Rightarrow> nat list" where
  "uses1 a i No N = filter (\<lambda>r. N \<notin> leftover_ranks i (plus_tile No r)) (draws a i No)"

definition uses2 :: "Ai \<Rightarrow> nat \<Rightarrow> int list \<Rightarrow> int \<Rightarrow> (nat \<times> nat) list" where
  "uses2 a i No N = concat (map (\<lambda>r. map (Pair r) (uses1 a i (plus_tile No r) N)) (draws a i No))"

definition rating :: "Ai \<Rightarrow> nat \<Rightarrow> int list \<Rightarrow> int \<Rightarrow> int \<times> int" where
  "rating a i No N =
     (if uses1 a i No N \<noteq> [] then (0, \<Sum>r \<leftarrow> uses1 a i No N. (4 - seen a i r) * 10)
      else if uses2 a i No N \<noteq> [] then (1, \<Sum>(r, t) \<leftarrow> uses2 a i No N. (4 - seen a i t) + (4 - seen a i r) * 10)
      else (2, 0))"

definition rated :: "Ai \<Rightarrow> nat \<Rightarrow> int list \<Rightarrow> MJGrain \<Rightarrow> MJGrain" where
  "rated a i No g = g\<lparr>gr_O := [0, fst (rating a i No (gr_N g)), visible a i (nat (gr_N g)), gr_O g ! 0,
     snd (rating a i No (gr_N g))]\<rparr>"

lemma leftover_block:
  assumes "counts_ok No" "Block_Init No (int i) b0 = Some b"
  shows "bk_I b = int i" "bk_No b = No" "gr_N ` set (bk_We b) = leftover_ranks i No"
    and "\<forall>g \<in> set (bk_We b). gr_H g = int i \<and> (\<exists>j < 9. gr_N g = int j) \<and> length (gr_O g) = 1"
proof -
  have len: "length No = 9" using assms(1) by (simp add: counts_ok_def)
  obtain nb where nb: "NewBlock_Init No i new_NewBlock = Some nb" "nb_I nb = i" "\<forall>g \<in> set (We nb). grain_ok No i g"
    using Update_facts [OF assms(1), of "new_NewBlock\<lparr>nb_I := i\<rparr>"] by (auto simp: NewBlock_Init_def)
  have b: "b = as_block No nb" using assms(2) Block_Init_NewBlock [OF len, of i b0 new_NewBlock] nb(1) by simp
  then show "bk_I b = int i" "bk_No b = No" using nb(2) by (simp_all add: as_block_def)
  show "gr_N ` set (bk_We b) = leftover_ranks i No"
    using Block_Init_NewBlock [OF len, of i new_Block new_NewBlock] nb(1) b by (simp add: leftover_ranks_def)
  show "\<forall>g \<in> set (bk_We b). gr_H g = int i \<and> (\<exists>j < 9. gr_N g = int j) \<and> length (gr_O g) = 1"
    using nb(3) len by (auto simp: b as_block_def strip_def grain_ok_def)
qed

lemma Block_Init_returns:
  assumes "counts_ok No"
  obtains b where "Block_Init No (int i) b0 = Some b"
  using Update_facts [OF assms, of "new_NewBlock\<lparr>nb_I := i\<rparr>"] Block_Init_NewBlock [of No i b0 new_NewBlock] assms
  by (auto simp: NewBlock_Init_def counts_ok_def)

lemma plus_tile_ok: "counts_ok No \<Longrightarrow> r < 9 \<Longrightarrow> No ! r \<noteq> 4 \<Longrightarrow> counts_ok (plus_tile No r)"
  by (auto simp: counts_ok_def plus_tile_def all_set_conv_all_nth nth_list_update less_le)

text \<open>The loop over the ranks: the marks of the single draws one after the other.\<close>

lemma draw_fold:
  assumes "ai_shape a" "i < 3" "counts_ok No" "set rs \<subseteq> {..<9}" "wide h" "length h = m"
    and cont: "\<And>r b h. r < 9 \<Longrightarrow> can_draw a i No r \<Longrightarrow> Block_Init (plus_tile No r) (int i) new_Block = Some b \<Longrightarrow>
      counts_ok (plus_tile No r) \<Longrightarrow> wide h \<Longrightarrow> length h = m \<Longrightarrow>
      \<exists>h'. cont b (4 - seen a i r) h = Some h' \<and> marked grs (E r) h h'"
  shows "\<exists>h'. foldM (draw_tile a (int i) No cont) h rs = Some h' \<and>
    marked grs (\<lambda>N. concat (map (\<lambda>r. E r N) (filter (can_draw a i No) rs))) h h'"
  using assms(4-6)
proof (induction rs arbitrary: h)
  case Nil
  then show ?case by (auto intro: marked_refl)
next
  case (Cons r rs)
  have r: "r < 9" using Cons.prems by simp
  have num: "GetPublicNum \<lparr>gr_H = int i, gr_N = int r, gr_O = []\<rparr> True a = Some (seen a i r)"
    using GetPublicNum_ok [OF assms(1,2) r] by (simp add: seen_def)
  show ?case
  proof (cases "can_draw a i No r")
    case False
    then have "draw_tile a (int i) No cont h r = Some h" by (auto simp: draw_tile_def can_draw_def num)
    then show ?thesis using Cons False by simp
  next
    case True
    have ok: "counts_ok (plus_tile No r)" using True r assms(3) by (simp add: can_draw_def plus_tile_ok)
    obtain b where b: "Block_Init (plus_tile No r) (int i) new_Block = Some b" using ok by (rule Block_Init_returns)
    obtain h1 where h1: "cont b (4 - seen a i r) h = Some h1" "marked grs (E r) h h1"
      using cont [OF r True b ok] Cons.prems by blast
    obtain h2 where "foldM (draw_tile a (int i) No cont) h1 rs = Some h2"
        "marked grs (\<lambda>N. concat (map (\<lambda>r. E r N) (filter (can_draw a i No) rs))) h1 h2"
      using Cons.IH [of h1] Cons.prems marked_wide [OF h1(2)] h1(2) by (auto simp: marked_def)
    moreover have "draw_tile a (int i) No cont h r = Some h1"
      using True b h1(1) num by (auto simp: draw_tile_def can_draw_def plus_tile_def)
    ultimately show ?thesis using True marked_trans [OF h1(2)] by auto
  qed
qed

text \<open>The recursive calls: one mark at the second level, those of all further draws at the first.\<close>

lemma Find_second:
  assumes "wide h" "distinct grs" "\<forall>p \<in> set grs. p < length h"
  shows "\<exists>h'. Block_Find a b grs 1 num h = Some h' \<and>
    marked grs (\<lambda>N. if N \<in> gr_N ` set (bk_We b) then [] else [(1, num)]) h h'"
  using find_marks [OF assms, of "bk_We b" 1 num "[]"] by (auto simp: Block_Find.simps)

definition second_marks :: "Ai \<Rightarrow> nat \<Rightarrow> int list \<Rightarrow> int \<Rightarrow> int \<Rightarrow> (int \<times> int) list" where
  "second_marks a i No num N = map (\<lambda>t. (1, (4 - seen a i t) + num)) (uses1 a i No N)"

lemma concat_filter: "concat (map (\<lambda>r. if P r then [] else [f r]) xs) = map f (filter (\<lambda>r. \<not> P r) xs)"
  by (induction xs) auto

lemma Find_first:
  assumes "ai_shape a" "i < 3" "counts_ok No" "Block_Init No (int i) b0 = Some b"
    and "wide h" "distinct grs" "\<forall>p \<in> set grs. p < length h"
  shows "\<exists>h'. Block_Find a b grs 0 num h = Some h' \<and>
    marked grs (\<lambda>N. if N \<in> leftover_ranks i No then second_marks a i No num N else [(0, num)]) h h'"
proof -
  note b = leftover_block [OF assms(3,4)]
  have copy: "copy9 No = No" using assms(3) by (simp add: copy9_def counts_ok_def)
  let ?S = "leftover_ranks i No" and ?new = "filter (\<lambda>p. gr_N (h ! p) \<in> leftover_ranks i No) grs"
  obtain h1 where h1: "foldM (find_mark (bk_We b) 0 num) ([], h) grs = Some (?new, h1)"
      "marked grs (\<lambda>N. if N \<in> ?S then [] else [(0, num)]) h h1"
    using find_marks [OF assms(5-7), of "bk_We b" 0 num "[]"] unfolding b(3) by auto
  have wide: "wide h1" "length h1 = length h" "\<And>p. p < length h \<Longrightarrow> gr_N (h1 ! p) = gr_N (h ! p)"
    using marked_wide [OF h1(2) assms(5)] h1(2) marked_N [OF h1(2)] by (auto simp: marked_def)
  show ?thesis
  proof (cases "?new = []")
    case True
    have "marked grs (\<lambda>N. if N \<in> ?S then second_marks a i No num N else [(0, num)]) h h1"
      using h1(2) True by (auto simp: marked_def filter_empty_conv)
    then show ?thesis using h1(1) True by (simp add: Block_Find.simps)
  next
    case False
    let ?cont = "\<lambda>tmp n h. Block_Find a tmp ?new 1 (n + num) h"
    have "\<exists>h2. foldM (draw_tile a (int i) No ?cont) h1 [0..<9] = Some h2 \<and>
        marked ?new (\<lambda>N. concat (map (\<lambda>t. if N \<in> leftover_ranks i (plus_tile No t) then [] else [(1, (4 - seen a i t) + num)])
          (filter (can_draw a i No) [0..<9]))) h1 h2"
    proof (rule draw_fold [OF assms(1-3) _ wide(1,2)])
      fix t c h' assume c: "Block_Init (plus_tile No t) (int i) new_Block = Some c" "counts_ok (plus_tile No t)"
        and h': "wide h'" "length h' = length h"
      show "\<exists>h''. ?cont c (4 - seen a i t) h' = Some h'' \<and> marked ?new
          (\<lambda>N. if N \<in> leftover_ranks i (plus_tile No t) then [] else [(1, (4 - seen a i t) + num)]) h' h''"
        using Find_second [OF h'(1), of ?new a c] assms(6,7) h'(2) leftover_block(3) [OF c(2,1)] by auto
    qed auto
    then obtain h2 where h2: "foldM (draw_tile a (int i) No ?cont) h1 [0..<9] = Some h2"
        "marked ?new (second_marks a i No num) h1 h2"
      unfolding concat_filter second_marks_def [abs_def] uses1_def draws_def by blast
    from marked_trans [OF h1(2) marked_sub [OF h2(2) wide(3,2)]] have
      "marked grs (\<lambda>N. if N \<in> ?S then second_marks a i No num N else [(0, num)]) h h2" by (auto simp: marked_def)
    moreover have "Block_Find a b grs 0 num h = Some h2"
      using h1(1) h2(1) False by (subst Block_Find.simps) (simp add: b(1,2) copy)
    ultimately show ?thesis by blast
  qed
qed

text \<open>
  Marks at the levels 0 and 1 on a grain that starts at level 2: what is left is the best level and the sum of the
  numbers at that level.
\<close>

definition best :: "(int \<times> int) list \<Rightarrow> int \<times> int" where
  "best es = (if \<exists>e \<in> set es. fst e = 0 then (0, \<Sum>e \<leftarrow> filter (\<lambda>e. fst e = 0) es. snd e)
     else if \<exists>e \<in> set es. fst e = 1 then (1, \<Sum>e \<leftarrow> filter (\<lambda>e. fst e = 1) es. snd e) else (2, 0))"

lemma marks_best:
  assumes "fst ` set es \<subseteq> {0, 1}" "gr_O g = [x, 2, y, z, 0]"
  shows "marks es g = g\<lparr>gr_O := [x, fst (best es), y, z, snd (best es)]\<rparr>"
  using assms(1)
proof (induction es rule: rev_induct)
  case Nil
  then show ?case using assms(2) by (cases g) (simp add: best_def)
next
  case (snoc e es)
  have none: "filter (\<lambda>e. fst e = k) es = []" if "\<not> (\<exists>e \<in> set es. fst e = k)" for k :: int
    using that by (auto simp: filter_empty_conv)
  from snoc show ?case by (cases e) (auto simp: mark_def best_def none)
qed

definition all_marks :: "Ai \<Rightarrow> nat \<Rightarrow> int list \<Rightarrow> int \<Rightarrow> (int \<times> int) list" where
  "all_marks a i No N = concat (map (\<lambda>r. if N \<in> leftover_ranks i (plus_tile No r)
     then second_marks a i (plus_tile No r) ((4 - seen a i r) * 10) N else [(0, (4 - seen a i r) * 10)]) (draws a i No))"

lemma first_marks:
  "filter (\<lambda>e. fst e = 0) (concat (map (\<lambda>r. if P r then map (\<lambda>t. (1, f r t)) (U r) else [(0, n r)]) rs)) =
    map (\<lambda>r. (0 :: int, n r)) (filter (\<lambda>r. \<not> P r) rs)"
  by (induction rs) (auto simp: filter_empty_conv)

lemma only_second_marks:
  "\<forall>r \<in> set rs. P r \<Longrightarrow> concat (map (\<lambda>r. if P r then map (\<lambda>t. (1, f r t)) (U r) else [(0, n r)]) rs) =
    map (\<lambda>x. (1 :: int, case x of (r, t) \<Rightarrow> f r t)) (concat (map (\<lambda>r. map (Pair r) (U r)) rs))"
  by (induction rs) auto

lemma best_second: "best (map (\<lambda>x. (1, f x)) xs) = (if xs \<noteq> [] then (1, \<Sum>x \<leftarrow> xs. f x) else (2, 0))"
  by (cases xs) (auto simp: best_def comp_def)

lemma levels_all_marks: "fst ` set (all_marks a i No N) \<subseteq> {0, 1}"
  by (auto simp: all_marks_def second_marks_def split: if_splits)

lemma best_all_marks: "best (all_marks a i No N) = rating a i No N"
proof -
  let ?P = "\<lambda>r. N \<in> leftover_ranks i (plus_tile No r)"
  have f: "filter (\<lambda>e. fst e = 0) (all_marks a i No N) = map (\<lambda>r. (0, (4 - seen a i r) * 10)) (uses1 a i No N)"
    unfolding all_marks_def second_marks_def first_marks uses1_def ..
  then have ex: "(\<exists>e \<in> set (all_marks a i No N). fst e = 0) \<longleftrightarrow> uses1 a i No N \<noteq> []"
    by (metis (mono_tags, lifting) filter_empty_conv map_is_Nil_conv)
  show ?thesis
  proof (cases "uses1 a i No N = []")
    case True
    then have "\<forall>r \<in> set (draws a i No). ?P r" by (simp add: uses1_def filter_empty_conv)
    then have "all_marks a i No N =
        map (\<lambda>x. (1, case x of (r, t) \<Rightarrow> (4 - seen a i t) + (4 - seen a i r) * 10)) (uses2 a i No N)"
      unfolding all_marks_def second_marks_def uses2_def by (rule only_second_marks)
    then show ?thesis using True by (simp only: best_second rating_def) simp
  next
    case False
    then show ?thesis using ex by (simp add: best_def rating_def f comp_def)
  qed
qed

lemma runfind_grain_ok:
  assumes "ai_shape a" "i < 3" "j < 9" "gr_H g = int i" "gr_N g = int j" "gr_O g = [x]"
  shows "runfind_grain a g = Some (g\<lparr>gr_O := [0, 2, visible a i j, x, 0]\<rparr>)"
  using GetPublicNum_ok [OF assms(1-3), of "g\<lparr>gr_O := [x, 2]\<rparr>" False] assms by (simp add: runfind_grain_def Let_def)

text \<open>
  C9. \<open>RunFind\<close> rates every leftover of a suit in place. For each leftover the columns say how many further tiles
  it takes until the suit uses it, 0 when one drawn tile does it, 1 when a second one is needed and 2
  when two are not enough, and how many tiles still out do it at that level, draws of the first tile
  counting ten times. Only tiles that can still come and that connect with the suit are tried. The search always
  returns, and the block sees the rated grains.
\<close>

theorem RunFind_rates:
  assumes "ai_shape a" "i < 3" "counts_ok No" "Block_Init No (int i) b0 = Some b"
  shows "Block_RunFind a b =
    Some (map (rated a i No) (bk_We b), b\<lparr>bk_We := map (rated a i No) (bk_We b)\<rparr>)"
proof -
  note b = leftover_block [OF assms(3,4)]
  have copy: "copy9 No = No" using assms(3) by (simp add: copy9_def counts_ok_def)
  define prep where "prep g = g\<lparr>gr_O := [0, 2, visible a i (nat (gr_N g)), gr_O g ! 0, 0]\<rparr>" for g :: MJGrain
  define h where "h = map prep (bk_We b)"
  have "runfind_grain a g = Some (prep g)" if "g \<in> set (bk_We b)" for g
    using b(4) that runfind_grain_ok [OF assms(1,2)] by (fastforce simp: prep_def length_Suc_conv)
  then have "foldM (\<lambda>grs g. do { g \<leftarrow> runfind_grain a g; Some (grs @ [g]) }) [] (bk_We b) = Some ([] @ concat (map (\<lambda>g. [prep g]) (bk_We b)))"
    by (intro foldM_collect) simp
  then have prep: "foldM (\<lambda>grs g. do { g \<leftarrow> runfind_grain a g; Some (grs @ [g]) }) [] (bk_We b) = Some h" by (simp add: h_def)
  have "wide h" by (simp add: wide_def h_def prep_def)
  let ?cont = "\<lambda>tmp n h. Block_Find a tmp [0..<length h] 0 (n * 10) h"
  have "\<exists>h'. foldM (draw_tile a (int i) No ?cont) h [0..<9] = Some h' \<and> marked [0..<length h]
      (\<lambda>N. concat (map (\<lambda>r. if N \<in> leftover_ranks i (plus_tile No r) then second_marks a i (plus_tile No r) ((4 - seen a i r) * 10) N
        else [(0, (4 - seen a i r) * 10)]) (filter (can_draw a i No) [0..<9]))) h h'"
  proof (rule draw_fold [OF assms(1-3) _ \<open>wide h\<close> refl])
    fix r c h' assume "Block_Init (plus_tile No r) (int i) new_Block = Some c" "counts_ok (plus_tile No r)"
      and "wide h'" "length h' = length h"
    then show "\<exists>h''. ?cont c (4 - seen a i r) h' = Some h'' \<and> marked [0..<length h]
        (\<lambda>N. if N \<in> leftover_ranks i (plus_tile No r) then second_marks a i (plus_tile No r) ((4 - seen a i r) * 10) N
          else [(0, (4 - seen a i r) * 10)]) h' h''"
      using Find_first [OF assms(1,2), of "plus_tile No r" new_Block c h' "[0..<length h]" "(4 - seen a i r) * 10"] by auto
  qed auto
  then obtain h' where h': "foldM (draw_tile a (int i) No ?cont) h [0..<9] = Some h'" "marked [0..<length h] (all_marks a i No) h h'"
    unfolding all_marks_def [abs_def] draws_def by blast
  have "marks (all_marks a i No (gr_N g)) (prep g) = rated a i No g" for g
    using marks_best [OF levels_all_marks, of "prep g"] by (simp add: prep_def rated_def best_all_marks)
  then have "h' = map (rated a i No) (bk_We b)"
    using h'(2) by (intro nth_equalityI) (auto simp: marked_def h_def prep_def)
  then show ?thesis using prep h'(1) by (auto simp: Block_RunFind_def b(1,2) copy)
qed

definition demo_row :: "int list" where
  "demo_row = [1, 1, 0, 0, 0, 0, 0, 0, 0]"

lemma demo_block: "Block_Init demo_row 0 new_Block = Some \<lparr>bk_Bl = [[0, 1]], bk_Num = 2, bk_Numi = 2, bk_No = demo_row,
  bk_I = 0, bk_W = 4, bk_We = [\<lparr>gr_H = 0, gr_N = 0, gr_O = [1]\<rparr>, \<lparr>gr_H = 0, gr_N = 1, gr_O = [1]\<rparr>]\<rparr>"
  by code_simp

theorem RunFind_rates_witness:
  "\<exists>b. Block_Init demo_row 0 new_Block = Some b \<and> map gr_N (bk_We b) = [0, 1] \<and> Block_RunFind demo_ai b =
    Some (map (rated demo_ai 0 demo_row) (bk_We b), b\<lparr>bk_We := map (rated demo_ai 0 demo_row) (bk_We b)\<rparr>)"
proof -
  have "counts_ok demo_row" by (simp add: counts_ok_def demo_row_def)
  moreover have "ai_shape demo_ai" using demo_ai_ready(1) by (simp add: ready_def)
  ultimately show ?thesis using RunFind_rates [of demo_ai 0 demo_row new_Block] demo_block by simp
qed

end
