(* ===== verification/GoNet.thy ===== *)
theory GoNet
  imports Comm
begin

text \<open>
  The parts of Go's standard library that the network packages stand on: errors, a network
  connection, \<open>bufio.Reader\<close>, \<open>io.ReadFull\<close>, big-endian integers and ports as text.

  \<^item> A connection is the list of segments that will still arrive and the list of byte strings
    written so far. A read returns data of the first segment only, so short reads are part of
    the model; when nothing is left the peer has closed and a read returns \<open>io.EOF\<close>.
  \<^item> A write either succeeds in full or fails with nothing written; the connection carries the
    number of writes that will still succeed (\<open>None\<close>: no write fails).
  \<^item> A \<open>bufio.Reader\<close> has a buffer of 4096 bytes that it fills with one read at a time. When
    the reader is dropped the bytes left in the buffer are lost, which the code relies on not
    happening: it makes several readers for one connection.
\<close>

subsection \<open>Errors\<close>

text \<open>
  \<open>Sentinel\<close> is a package variable made with \<open>errors.New\<close>, compared by identity and named by the
  variable; \<open>ErrMsg\<close> an error made on the spot; \<open>ErrEnv\<close> an error that the environment (the
  network, the resolver, the TLS stack) hands in.
\<close>

datatype go_error =
    EOF
  | ErrUnexpectedEOF
  | ErrShortBuffer
  | ErrClosed
  | ErrEnv nat
  | Sentinel string
  | ErrMsg string

subsection \<open>Connections\<close>

record conn =
  cn_in :: "byte list list"
  cn_out :: "byte list list"
  cn_writes :: "nat option"
  cn_closed :: bool
  cn_local :: string
  cn_remote :: string

definition pending :: "conn \<Rightarrow> byte list" where
  "pending c = concat (cn_in c)"

definition conn_Read :: "nat \<Rightarrow> conn \<Rightarrow> (go_error + byte list) \<times> conn" where
  "conn_Read n c =
     (if cn_closed c then (Inl ErrClosed, c)
      else if n = 0 then (Inr [], c)
      else (case dropWhile (\<lambda>s. s = []) (cn_in c) of
              [] \<Rightarrow> (Inl EOF, c\<lparr>cn_in := []\<rparr>)
            | s # ss \<Rightarrow> (Inr (take n s), c\<lparr>cn_in := (if length s \<le> n then ss else drop n s # ss)\<rparr>)))"

definition conn_Write :: "byte list \<Rightarrow> conn \<Rightarrow> go_error option \<times> conn" where
  "conn_Write bs c =
     (if cn_closed c then (Some ErrClosed, c)
      else (case cn_writes c of
              Some 0 \<Rightarrow> (Some (ErrEnv 32), c)
            | Some (Suc k) \<Rightarrow> (None, c\<lparr>cn_writes := Some k, cn_out := cn_out c @ [bs]\<rparr>)
            | None \<Rightarrow> (None, c\<lparr>cn_out := cn_out c @ [bs]\<rparr>)))"

definition conn_Close :: "conn \<Rightarrow> conn" where
  "conn_Close c = c\<lparr>cn_closed := True\<rparr>"

text \<open>A fresh connection on which the given segments arrive.\<close>

definition arriving :: "byte list list \<Rightarrow> conn" where
  "arriving segs = \<lparr>cn_in = segs, cn_out = [], cn_writes = None, cn_closed = False, cn_local = [], cn_remote = []\<rparr>"

text \<open>Reading changes nothing of a connection but what is still to arrive.\<close>

definition reads_to :: "conn \<Rightarrow> conn \<Rightarrow> bool" where
  "reads_to c c' \<longleftrightarrow> (\<exists>ss. c' = c\<lparr>cn_in := ss\<rparr>)"

lemma reads_to_refl [simp, intro]: "reads_to c c"
  unfolding reads_to_def by (rule exI [of _ "cn_in c"]) simp

lemma reads_to_upd [simp, intro]: "reads_to c (c\<lparr>cn_in := ss\<rparr>)"
  by (auto simp: reads_to_def)

lemma reads_to_trans [trans]: "reads_to c c' \<Longrightarrow> reads_to c' c'' \<Longrightarrow> reads_to c c''"
  by (auto simp: reads_to_def)

lemma reads_to_fields:
  "reads_to c c' \<Longrightarrow> cn_closed c' = cn_closed c \<and> cn_out c' = cn_out c \<and> cn_writes c' = cn_writes c \<and>
    cn_local c' = cn_local c \<and> cn_remote c' = cn_remote c"
  by (auto simp: reads_to_def)

lemma concat_dropWhile_nil [simp]: "concat (dropWhile (\<lambda>s. s = []) ss) = concat ss"
  by (induction ss) auto

lemma conn_Read_Inr:
  assumes "conn_Read n c = (Inr bs, c')" and "0 < n"
  shows "pending c = bs @ pending c'" and "bs \<noteq> []" and "length bs \<le> n" and "\<not> cn_closed c"
    and "reads_to c c'"
proof -
  from assms obtain s ss where s: "dropWhile (\<lambda>s. s = []) (cn_in c) = s # ss" "\<not> cn_closed c"
      and bs: "bs = take n s" and c': "c' = c\<lparr>cn_in := (if length s \<le> n then ss else drop n s # ss)\<rparr>"
    by (auto simp: conn_Read_def split: if_splits list.splits)
  have "s \<noteq> []" using s(1) by (metis (mono_tags, lifting) dropWhile_eq_Cons_conv)
  moreover have "pending c = s @ concat ss"
    unfolding pending_def by (metis concat.simps(2) concat_dropWhile_nil s(1))
  ultimately show "pending c = bs @ pending c'" "bs \<noteq> []" "length bs \<le> n" "\<not> cn_closed c"
      "reads_to c c'"
    using bs c' s(2) assms(2) by (auto simp: pending_def)
qed

lemma conn_Read_Inl:
  assumes "conn_Read n c = (Inl e, c')"
  shows "reads_to c c'" and "cn_closed c \<and> e = ErrClosed \<and> c' = c \<or> e = EOF \<and> pending c = []"
  using assms concat_dropWhile_nil [of "cn_in c"]
  by (auto simp: conn_Read_def pending_def split: if_splits list.splits)

lemma conn_Read_progress:
  assumes "\<not> cn_closed c" and "0 < n" and "pending c \<noteq> []"
  shows "\<exists>bs c'. conn_Read n c = (Inr bs, c')"
  using assms concat_dropWhile_nil [of "cn_in c"]
  by (cases "dropWhile (\<lambda>s. s = []) (cn_in c)") (auto simp: conn_Read_def pending_def simp del: concat_dropWhile_nil)

lemma conn_Read_decreases:
  assumes "conn_Read n c = (Inr bs, c')" and "0 < n"
  shows "length (pending c') < length (pending c)"
  using conn_Read_Inr [OF assms] by simp

subsection \<open>io.ReadFull\<close>

text \<open>
  Reads until the buffer of \<open>n\<close> bytes is full. An end of the stream before the first byte is
  \<open>io.EOF\<close>, later it is \<open>io.ErrUnexpectedEOF\<close>.
\<close>

function read_at_least :: "nat \<Rightarrow> byte list \<Rightarrow> conn \<Rightarrow> (go_error + byte list) \<times> conn" where
  "read_at_least n acc c =
     (if n \<le> length acc then (Inr acc, c)
      else (case conn_Read (n - length acc) c of
              (Inl e, c') \<Rightarrow> (Inl (if e = EOF \<and> acc \<noteq> [] then ErrUnexpectedEOF else e), c')
            | (Inr bs, c') \<Rightarrow> read_at_least n (acc @ bs) c'))"
  by pat_completeness auto
termination
  by (relation "measure (\<lambda>(n, acc, c). length (pending c))") (auto dest!: conn_Read_decreases [OF sym])

declare read_at_least.simps [simp del]

definition ReadFull :: "nat \<Rightarrow> conn \<Rightarrow> (go_error + byte list) \<times> conn" where
  "ReadFull n c = read_at_least n [] c"

lemma read_at_least_enough:
  assumes "n \<le> length acc + length (pending c)" and "length acc \<le> n" and "\<not> cn_closed c"
  shows "\<exists>c'. read_at_least n acc c = (Inr (acc @ take (n - length acc) (pending c)), c') \<and>
    pending c' = drop (n - length acc) (pending c) \<and> reads_to c c'"
  using assms
proof (induction n acc c rule: read_at_least.induct)
  case (1 n acc c)
  show ?case
  proof (cases "n \<le> length acc")
    case True
    with "1.prems" show ?thesis by (simp add: read_at_least.simps [of n acc c])
  next
    case False
    with "1.prems" have "pending c \<noteq> []" by auto
    then obtain bs c1 where rd: "conn_Read (n - length acc) c = (Inr bs, c1)"
      using conn_Read_progress [of c "n - length acc"] False "1.prems"(3) by auto
    from rd False have facts: "pending c = bs @ pending c1" "length bs \<le> n - length acc" "reads_to c c1"
      using conn_Read_Inr [OF rd] by auto
    then have "\<not> cn_closed c1" using "1.prems"(3) reads_to_fields by blast
    moreover have "n \<le> length (acc @ bs) + length (pending c1)" "length (acc @ bs) \<le> n"
      using facts False "1.prems"(1,2) by auto
    ultimately obtain c' where c': "read_at_least n (acc @ bs) c1 = (Inr ((acc @ bs) @ take (n - length (acc @ bs)) (pending c1)), c')"
        "pending c' = drop (n - length (acc @ bs)) (pending c1)" "reads_to c1 c'"
      using "1.IH" [OF False rd [symmetric] refl] by blast
    then show ?thesis
      using facts False rd reads_to_trans [OF facts(3) c'(3)] by (simp add: read_at_least.simps [of n acc c])
  qed
qed

lemma ReadFull_enough:
  assumes "n \<le> length (pending c)" and "\<not> cn_closed c"
  shows "\<exists>c'. ReadFull n c = (Inr (take n (pending c)), c') \<and> pending c' = drop n (pending c) \<and>
    reads_to c c'"
  using read_at_least_enough [of n "[]" c] assms by (simp add: ReadFull_def)

lemma conn_Read_at_end:
  assumes "pending c = []" and "\<not> cn_closed c" and "0 < n"
  shows "conn_Read n c = (Inl EOF, c\<lparr>cn_in := []\<rparr>)"
proof -
  have "dropWhile (\<lambda>s. s = []) (cn_in c) = []"
    using assms(1) by (auto simp: pending_def dropWhile_eq_Nil_conv)
  then show ?thesis using assms by (simp only: conn_Read_def) simp
qed

lemma ReadFull_empty:
  assumes "pending c = []" and "\<not> cn_closed c" and "0 < n"
  shows "ReadFull n c = (Inl EOF, c\<lparr>cn_in := []\<rparr>)"
  using conn_Read_at_end [OF assms] assms(3) by (simp add: ReadFull_def read_at_least.simps [of n "[]" c])

end
