(* ===== verification/ChaCha.thy ===== *)
theory ChaCha
  imports GoNet
begin

text \<open>
  The vendored ChaCha20 (\<^verbatim>\<open>src/proxyPool/ProxyClient/crypto/chacha20poly1305/internal/chacha20\<close>,
  the portable Go code): the block function with its rounds written out, and the key stream.
  The unrolled rounds are shown to be the column and diagonal rounds of RFC 7539, and applying
  the key stream twice gives the input back.
\<close>

type_synonym w32 = "32 word"
type_synonym w64 = "64 word"

definition LE_Uint32 :: "byte list \<Rightarrow> nat \<Rightarrow> w32" where
  "LE_Uint32 b i = ucast (b ! i) OR push_bit 8 (ucast (b ! (i + 1))) OR
     push_bit 16 (ucast (b ! (i + 2))) OR push_bit 24 (ucast (b ! (i + 3)))"

definition LE_PutUint32 :: "w32 \<Rightarrow> byte list" where
  "LE_PutUint32 v = [ucast v, ucast (drop_bit 8 v), ucast (drop_bit 16 v), ucast (drop_bit 24 v)]"

lemma length_LE_PutUint32 [simp]: "length (LE_PutUint32 v) = 4"
  by (simp add: LE_PutUint32_def)

text \<open>The sixteen local variables \<open>x0\<close> to \<open>x15\<close>.\<close>

datatype regs = Regs w32 w32 w32 w32 w32 w32 w32 w32 w32 w32 w32 w32 w32 w32 w32 w32

text \<open>One iteration of the loop of \<open>core\<close>, statement by statement.\<close>

definition core_rounds :: "regs \<Rightarrow> regs" where
  "core_rounds s = (case s of Regs x0 x1 x2 x3 x4 x5 x6 x7 x8 x9 x10 x11 x12 x13 x14 x15 \<Rightarrow>
     let
      x0 = x0 + x4; x12 = x12 XOR x0; x12 = push_bit 16 x12 OR drop_bit 16 x12;
      x8 = x8 + x12; x4 = x4 XOR x8; x4 = push_bit 12 x4 OR drop_bit 20 x4;
      x0 = x0 + x4; x12 = x12 XOR x0; x12 = push_bit 8 x12 OR drop_bit 24 x12;
      x8 = x8 + x12; x4 = x4 XOR x8; x4 = push_bit 7 x4 OR drop_bit 25 x4;
      x1 = x1 + x5; x13 = x13 XOR x1; x13 = push_bit 16 x13 OR drop_bit 16 x13;
      x9 = x9 + x13; x5 = x5 XOR x9; x5 = push_bit 12 x5 OR drop_bit 20 x5;
      x1 = x1 + x5; x13 = x13 XOR x1; x13 = push_bit 8 x13 OR drop_bit 24 x13;
      x9 = x9 + x13; x5 = x5 XOR x9; x5 = push_bit 7 x5 OR drop_bit 25 x5;
      x2 = x2 + x6; x14 = x14 XOR x2; x14 = push_bit 16 x14 OR drop_bit 16 x14;
      x10 = x10 + x14; x6 = x6 XOR x10; x6 = push_bit 12 x6 OR drop_bit 20 x6;
      x2 = x2 + x6; x14 = x14 XOR x2; x14 = push_bit 8 x14 OR drop_bit 24 x14;
      x10 = x10 + x14; x6 = x6 XOR x10; x6 = push_bit 7 x6 OR drop_bit 25 x6;
      x3 = x3 + x7; x15 = x15 XOR x3; x15 = push_bit 16 x15 OR drop_bit 16 x15;
      x11 = x11 + x15; x7 = x7 XOR x11; x7 = push_bit 12 x7 OR drop_bit 20 x7;
      x3 = x3 + x7; x15 = x15 XOR x3; x15 = push_bit 8 x15 OR drop_bit 24 x15;
      x11 = x11 + x15; x7 = x7 XOR x11; x7 = push_bit 7 x7 OR drop_bit 25 x7;
      x0 = x0 + x5; x15 = x15 XOR x0; x15 = push_bit 16 x15 OR drop_bit 16 x15;
      x10 = x10 + x15; x5 = x5 XOR x10; x5 = push_bit 12 x5 OR drop_bit 20 x5;
      x0 = x0 + x5; x15 = x15 XOR x0; x15 = push_bit 8 x15 OR drop_bit 24 x15;
      x10 = x10 + x15; x5 = x5 XOR x10; x5 = push_bit 7 x5 OR drop_bit 25 x5;
      x1 = x1 + x6; x12 = x12 XOR x1; x12 = push_bit 16 x12 OR drop_bit 16 x12;
      x11 = x11 + x12; x6 = x6 XOR x11; x6 = push_bit 12 x6 OR drop_bit 20 x6;
      x1 = x1 + x6; x12 = x12 XOR x1; x12 = push_bit 8 x12 OR drop_bit 24 x12;
      x11 = x11 + x12; x6 = x6 XOR x11; x6 = push_bit 7 x6 OR drop_bit 25 x6;
      x2 = x2 + x7; x13 = x13 XOR x2; x13 = push_bit 16 x13 OR drop_bit 16 x13;
      x8 = x8 + x13; x7 = x7 XOR x8; x7 = push_bit 12 x7 OR drop_bit 20 x7;
      x2 = x2 + x7; x13 = x13 XOR x2; x13 = push_bit 8 x13 OR drop_bit 24 x13;
      x8 = x8 + x13; x7 = x7 XOR x8; x7 = push_bit 7 x7 OR drop_bit 25 x7;
      x3 = x3 + x4; x14 = x14 XOR x3; x14 = push_bit 16 x14 OR drop_bit 16 x14;
      x9 = x9 + x14; x4 = x4 XOR x9; x4 = push_bit 12 x4 OR drop_bit 20 x4;
      x3 = x3 + x4; x14 = x14 XOR x3; x14 = push_bit 8 x14 OR drop_bit 24 x14;
      x9 = x9 + x14; x4 = x4 XOR x9; x4 = push_bit 7 x4 OR drop_bit 25 x4
      in Regs x0 x1 x2 x3 x4 x5 x6 x7 x8 x9 x10 x11 x12 x13 x14 x15)"

fun regs_add :: "regs \<Rightarrow> regs \<Rightarrow> regs" where
  "regs_add (Regs x0 x1 x2 x3 x4 x5 x6 x7 x8 x9 x10 x11 x12 x13 x14 x15)
     (Regs j0 j1 j2 j3 j4 j5 j6 j7 j8 j9 j10 j11 j12 j13 j14 j15) =
   Regs (x0 + j0) (x1 + j1) (x2 + j2) (x3 + j3) (x4 + j4) (x5 + j5) (x6 + j6) (x7 + j7)
     (x8 + j8) (x9 + j9) (x10 + j10) (x11 + j11) (x12 + j12) (x13 + j13) (x14 + j14) (x15 + j15)"

fun regs_out :: "regs \<Rightarrow> byte list" where
  "regs_out (Regs x0 x1 x2 x3 x4 x5 x6 x7 x8 x9 x10 x11 x12 x13 x14 x15) =
     LE_PutUint32 x0 @ LE_PutUint32 x1 @ LE_PutUint32 x2 @ LE_PutUint32 x3 @
     LE_PutUint32 x4 @ LE_PutUint32 x5 @ LE_PutUint32 x6 @ LE_PutUint32 x7 @
     LE_PutUint32 x8 @ LE_PutUint32 x9 @ LE_PutUint32 x10 @ LE_PutUint32 x11 @
     LE_PutUint32 x12 @ LE_PutUint32 x13 @ LE_PutUint32 x14 @ LE_PutUint32 x15"

definition core_init :: "byte list \<Rightarrow> byte list \<Rightarrow> regs" where
  "core_init inp k = Regs 0x61707865 0x3320646e 0x79622d32 0x6b206574
     (LE_Uint32 k 0) (LE_Uint32 k 4) (LE_Uint32 k 8) (LE_Uint32 k 12)
     (LE_Uint32 k 16) (LE_Uint32 k 20) (LE_Uint32 k 24) (LE_Uint32 k 28)
     (LE_Uint32 inp 0) (LE_Uint32 inp 4) (LE_Uint32 inp 8) (LE_Uint32 inp 12)"

text \<open>\<open>inp\<close> is the 16-byte counter block, \<open>k\<close> the 32-byte key; twenty rounds are ten iterations.\<close>

definition core :: "byte list \<Rightarrow> byte list \<Rightarrow> byte list" where
  "core inp k = (let j = core_init inp k in regs_out (regs_add ((core_rounds ^^ 10) j) j))"

text \<open>The 32-bit little-endian block counter in the first four bytes is increased by one.\<close>

definition counter_step :: "w32 \<times> byte list \<Rightarrow> nat \<Rightarrow> w32 \<times> byte list" where
  "counter_step s i = (let u = fst s + ucast (snd s ! i) in (drop_bit 8 u, (snd s)[i := ucast u]))"

definition next_counter :: "byte list \<Rightarrow> byte list" where
  "next_counter cc = snd (foldl counter_step (1, cc) [0..<4])"

text \<open>
  \<open>XORKeyStream\<close> as a function of the bytes of \<open>in\<close>: what it stores into \<open>out\<close>. Its comment demands that
  both overlap entirely or not at all. Most callers obey; the datagrams of \<open>shadowaead\<close> do not: there
  \<open>out\<close> begins in front of \<open>in\<close> in the same buffer. \<open>XORKeyStream_mem\<close> below is the loop on shared memory,
  and \<open>XORKeyStream_mem_eq\<close> shows for which overlaps both are the same.
\<close>

function XORKeyStream :: "byte list \<Rightarrow> byte list \<Rightarrow> byte list \<Rightarrow> byte list" where
  "XORKeyStream inp counter key =
     (if 64 \<le> length inp then
        map2 (XOR) (take 64 inp) (core counter key) @ XORKeyStream (drop 64 inp) (next_counter counter) key
      else if 0 < length inp then map2 (XOR) inp (core counter key)
      else [])"
  by pat_completeness auto
termination by (relation "measure (\<lambda>(inp, _, _). length inp)") auto

declare XORKeyStream.simps [simp del]

text \<open>
  The same loop when \<open>out\<close> and \<open>in\<close> are parts of one memory: \<open>out\<close> begins at \<open>d\<close>, \<open>in\<close> at \<open>s\<close> and has \<open>n\<close>
  bytes. Each byte is read just before its result is stored, front to back.
\<close>

fun xor_bytes :: "nat \<Rightarrow> nat \<Rightarrow> byte list \<Rightarrow> byte list \<Rightarrow> byte list" where
  "xor_bytes d s [] mem = mem"
| "xor_bytes d s (k # ks) mem = xor_bytes (Suc d) (Suc s) ks (mem[d := mem ! s XOR k])"

function XORKeyStream_mem :: "nat \<Rightarrow> nat \<Rightarrow> nat \<Rightarrow> byte list \<Rightarrow> byte list \<Rightarrow> byte list \<Rightarrow> byte list" where
  "XORKeyStream_mem d s n counter key mem =
     (if 64 \<le> n then
        XORKeyStream_mem (d + 64) (s + 64) (n - 64) (next_counter counter) key (xor_bytes d s (core counter key) mem)
      else if 0 < n then xor_bytes d s (take n (core counter key)) mem
      else mem)"
  by pat_completeness auto
termination by (relation "measure (\<lambda>(_, _, n, _). n)") auto

declare XORKeyStream_mem.simps [simp del]

subsection \<open>The rounds of RFC 7539\<close>

definition rotl :: "nat \<Rightarrow> w32 \<Rightarrow> w32" where
  "rotl n x = push_bit n x OR drop_bit (32 - n) x"

definition quarter_round :: "w32 \<Rightarrow> w32 \<Rightarrow> w32 \<Rightarrow> w32 \<Rightarrow> w32 \<times> w32 \<times> w32 \<times> w32" where
  "quarter_round a b c d =
     (let a = a + b; d = rotl 16 (d XOR a);
          c = c + d; b = rotl 12 (b XOR c);
          a = a + b; d = rotl 8 (d XOR a);
          c = c + d; b = rotl 7 (b XOR c) in (a, b, c, d))"

fun column_round :: "regs \<Rightarrow> regs" where
  "column_round (Regs x0 x1 x2 x3 x4 x5 x6 x7 x8 x9 x10 x11 x12 x13 x14 x15) =
     (let (x0, x4, x8, x12) = quarter_round x0 x4 x8 x12;
          (x1, x5, x9, x13) = quarter_round x1 x5 x9 x13;
          (x2, x6, x10, x14) = quarter_round x2 x6 x10 x14;
          (x3, x7, x11, x15) = quarter_round x3 x7 x11 x15
      in Regs x0 x1 x2 x3 x4 x5 x6 x7 x8 x9 x10 x11 x12 x13 x14 x15)"

fun diagonal_round :: "regs \<Rightarrow> regs" where
  "diagonal_round (Regs x0 x1 x2 x3 x4 x5 x6 x7 x8 x9 x10 x11 x12 x13 x14 x15) =
     (let (x0, x5, x10, x15) = quarter_round x0 x5 x10 x15;
          (x1, x6, x11, x12) = quarter_round x1 x6 x11 x12;
          (x2, x7, x8, x13) = quarter_round x2 x7 x8 x13;
          (x3, x4, x9, x14) = quarter_round x3 x4 x9 x14
      in Regs x0 x1 x2 x3 x4 x5 x6 x7 x8 x9 x10 x11 x12 x13 x14 x15)"

text \<open>Twelve consecutive assignments of the code are one quarter round.\<close>

lemma let_quarter_round:
  "(let a = a + b; d = d XOR a; d = push_bit 16 d OR drop_bit 16 d;
        c = c + d; b = b XOR c; b = push_bit 12 b OR drop_bit 20 b;
        a = a + b; d = d XOR a; d = push_bit 8 d OR drop_bit 24 d;
        c = c + d; b = b XOR c; b = push_bit 7 b OR drop_bit 25 b in f a b c d) =
   (let (a, b, c, d) = quarter_round a b c d in f a b c d)"
  by (simp add: quarter_round_def rotl_def Let_def)

lemma core_rounds_rfc: "core_rounds s = diagonal_round (column_round s)"
proof (cases s)
  case (Regs x0 x1 x2 x3 x4 x5 x6 x7 x8 x9 x10 x11 x12 x13 x14 x15)
  show ?thesis
    unfolding Regs core_rounds_def regs.case let_quarter_round column_round.simps
    by (simp add: Let_def split: prod.split)
qed

text \<open>
  C14. The block function: the ninety-six assignments of one loop iteration of the code are exactly
  one column round followed by one diagonal round of RFC 7539, on every state.
\<close>

theorem core_rounds_is_rfc7539: "core_rounds s = diagonal_round (column_round s)"
  by (rule core_rounds_rfc)

subsection \<open>The key stream\<close>

lemma length_regs_out [simp]: "length (regs_out r) = 64"
  by (cases r) simp

lemma length_core [simp]: "length (core inp k) = 64"
  by (simp add: core_def Let_def)

lemma length_XORKeyStream [simp]: "length (XORKeyStream inp counter key) = length inp"
  by (induction inp counter key rule: XORKeyStream.induct) (simp add: XORKeyStream.simps)

lemma map2_take_right: "length xs \<le> n \<Longrightarrow> map2 f xs (take n ys) = map2 f xs ys"
  by (induction xs ys arbitrary: n rule: list_induct2') (auto simp: take_Cons split: nat.split)

text \<open>
  In place, with \<open>out\<close> in front of \<open>in\<close> or with \<open>out\<close> behind its end, the loop stores what the function
  on bytes says and changes nothing else.
\<close>

definition may_overlap :: "nat \<Rightarrow> nat \<Rightarrow> nat \<Rightarrow> byte list \<Rightarrow> bool" where
  "may_overlap d s n mem \<longleftrightarrow> (d \<le> s \<or> s + n \<le> d) \<and> d + n \<le> length mem \<and> s + n \<le> length mem"

lemma xor_bytes_eq:
  "may_overlap d s (length ks) mem \<Longrightarrow>
    xor_bytes d s ks mem = take d mem @ map2 (XOR) (take (length ks) (drop s mem)) ks @ drop (d + length ks) mem"
proof (induction ks arbitrary: d s mem)
  case (Cons k ks)
  let ?m = "mem[d := mem ! s XOR k]"
  have in_mem: "d < length mem" "s < length mem" using Cons.prems by (auto simp: may_overlap_def)
  have "may_overlap (Suc d) (Suc s) (length ks) ?m" using Cons.prems by (auto simp: may_overlap_def)
  then have "xor_bytes (Suc d) (Suc s) ks ?m =
      take (Suc d) ?m @ map2 (XOR) (take (length ks) (drop (Suc s) ?m)) ks @ drop (Suc d + length ks) ?m"
    by (rule Cons.IH)
  moreover have "take (Suc d) ?m = take d mem @ [mem ! s XOR k]"
    using in_mem by (simp add: take_Suc_conv_app_nth)
  moreover have "take (length ks) (drop (Suc s) ?m) = take (length ks) (drop (Suc s) mem)"
  proof -
    consider "d < Suc s" | "Suc s + length ks \<le> d" using Cons.prems by (auto simp: may_overlap_def)
    then show ?thesis
    proof cases
      case 2
      then show ?thesis by (simp add: take_drop)
    qed simp
  qed
  moreover have "take (length (k # ks)) (drop s mem) = mem ! s # take (length ks) (drop (Suc s) mem)"
    using in_mem(2) by (simp add: Cons_nth_drop_Suc [symmetric])
  ultimately show ?case by simp
qed simp

lemma XORKeyStream_mem_eq:
  "may_overlap d s n mem \<Longrightarrow>
    XORKeyStream_mem d s n counter key mem = take d mem @ XORKeyStream (take n (drop s mem)) counter key @ drop (d + n) mem"
proof (induction d s n counter key mem rule: XORKeyStream_mem.induct)
  case (1 d s n counter key mem)
  have len: "length (take n (drop s mem)) = n" using "1.prems" by (auto simp: may_overlap_def)
  show ?case
  proof (cases "64 \<le> n")
    case True
    let ?m = "xor_bytes d s (core counter key) mem"
    have "may_overlap d s 64 mem" using "1.prems" True by (auto simp: may_overlap_def)
    then have m: "?m = take d mem @ map2 (XOR) (take 64 (drop s mem)) (core counter key) @ drop (d + 64) mem"
      using xor_bytes_eq [of d s "core counter key" mem] by simp
    have l: "length ?m = length mem" using m "1.prems" True by (auto simp: may_overlap_def)
    have rest: "take (n - 64) (drop (s + 64) ?m) = drop 64 (take n (drop s mem))"
    proof -
      have "d + 64 \<le> s + 64 \<or> s + n \<le> d" using "1.prems" by (auto simp: may_overlap_def)
      then show ?thesis
      proof
        assume "d + 64 \<le> s + 64"
        moreover have "min (length mem - s) 64 = 64" using "1.prems" True by (auto simp: may_overlap_def)
        ultimately show ?thesis using "1.prems" True unfolding m by (simp add: may_overlap_def drop_take drop_drop add.commute)
      next
        assume far: "s + n \<le> d"
        then have "take (n - 64) (drop (s + 64) ?m) = take (n - 64) (drop (s + 64) (take d mem))"
          using "1.prems" True unfolding m by (simp add: may_overlap_def)
        also have "\<dots> = take (n - 64) (drop (s + 64) mem)" using far True by (simp add: drop_take min_absorb1)
        finally show ?thesis by (simp add: drop_take add.commute)
      qed
    qed
    have "may_overlap (d + 64) (s + 64) (n - 64) ?m" using "1.prems" True l by (auto simp: may_overlap_def)
    from "1.IH" [OF True this] have "XORKeyStream_mem d s n counter key mem =
        take (d + 64) ?m @ XORKeyStream (take (n - 64) (drop (s + 64) ?m)) (next_counter counter) key @ drop (d + 64 + (n - 64)) ?m"
      using True by (simp add: XORKeyStream_mem.simps [of d])
    also have "take (d + 64) ?m = take d mem @ map2 (XOR) (take 64 (drop s mem)) (core counter key)"
      unfolding m using "1.prems" True by (auto simp: may_overlap_def)
    also have "drop (d + 64 + (n - 64)) ?m = drop (d + n) mem"
      unfolding m using "1.prems" True by (auto simp: may_overlap_def add.commute)
    finally show ?thesis
      using True len rest by (simp add: XORKeyStream.simps [of "take n (drop s mem)"] min_absorb1)
  next
    case False
    then have "may_overlap d s (length (take n (core counter key))) mem" using "1.prems" by (simp add: min_absorb1)
    from xor_bytes_eq [OF this] False len show ?thesis
      by (auto simp: XORKeyStream_mem.simps [of d] XORKeyStream.simps [of "take n (drop s mem)"] min_absorb1 map2_take_right)
  qed
qed

lemma map2_xor_twice:
  "length xs \<le> length ks \<Longrightarrow> map2 (XOR) (map2 (XOR) xs ks) ks = (xs :: byte list)"
  by (induction xs ks rule: list_induct2') (auto simp: xor.assoc)

lemma XORKeyStream_twice: "XORKeyStream (XORKeyStream inp counter key) counter key = inp"
proof (induction inp counter key rule: XORKeyStream.induct)
  case (1 inp counter key)
  show ?case
  proof (cases "64 \<le> length inp")
    case True
    let ?b = "map2 (XOR) (take 64 inp) (core counter key)"
    have "XORKeyStream (XORKeyStream inp counter key) counter key =
        map2 (XOR) ?b (core counter key) @ XORKeyStream (XORKeyStream (drop 64 inp) (next_counter counter) key) (next_counter counter) key"
      using True by (simp add: XORKeyStream.simps [of inp] XORKeyStream.simps [of "?b @ _"])
    also have "\<dots> = inp" using True "1.IH" by (simp add: map2_xor_twice)
    finally show ?thesis .
  next
    case False
    then show ?thesis
      by (cases "inp = []") (simp_all add: XORKeyStream.simps [of inp] XORKeyStream.simps [of "map2 _ _ _"] XORKeyStream.simps [of "[]"] map2_xor_twice)
  qed
qed

text \<open>The counter bytes as a number: the lowest byte first.\<close>

fun carry_add :: "w32 \<Rightarrow> byte list \<Rightarrow> byte list" where
  "carry_add u [] = []"
| "carry_add u (b # bs) = ucast (u + ucast b) # carry_add (drop_bit 8 (u + ucast b)) bs"

lemma next_counter_carry:
  assumes "4 \<le> length cc"
  shows "next_counter cc = carry_add 1 (take 4 cc) @ drop 4 cc"
proof -
  from assms obtain a b c d rest where "cc = a # b # c # d # rest"
    by (auto simp: numeral_eq_Suc Suc_le_length_iff)
  then show ?thesis by (simp add: next_counter_def counter_step_def Let_def upt_rec)
qed

lemma carry_add_value:
  assumes "uint u \<le> 255"
  shows "horner_sum uint 256 (carry_add u bs) = (horner_sum uint 256 bs + uint u) mod 256 ^ length bs"
  using assms
proof (induction bs arbitrary: u)
  case Nil
  then show ?case by simp
next
  case (Cons b bs)
  let ?s = "u + ucast b :: w32"
  have b: "0 \<le> uint b" "uint b \<le> 255" using uint_lt2p [of b] by simp_all
  have s: "uint ?s = uint u + uint b"
    using Cons.prems b by (simp add: uint_word_ariths unsigned_ucast_eq take_bit_int_eq_self mod_pos_pos_trivial)
  have lo: "uint (ucast ?s :: byte) = (uint u + uint b) mod 256"
    by (simp add: unsigned_ucast_eq s take_bit_eq_mod)
  have hi: "uint (drop_bit 8 ?s) = (uint u + uint b) div 256"
    by (simp add: drop_bit_eq_div uint_div_distrib s)
  have "uint (drop_bit 8 ?s) \<le> 255" using Cons.prems b by (simp add: hi)
  then have IH: "horner_sum uint 256 (carry_add (drop_bit 8 ?s) bs) =
      (horner_sum uint 256 bs + (uint u + uint b) div 256) mod 256 ^ length bs"
    using Cons.IH by (simp add: hi)
  let ?t = "uint u + uint b" and ?h = "horner_sum uint 256 bs"
  have "(?t + 256 * ?h) mod (256 * 256 ^ length bs) = 256 * ((?t + 256 * ?h) div 256 mod 256 ^ length bs) + (?t + 256 * ?h) mod 256"
    by (rule zmod_zmult2_eq) simp
  also have "(?t + 256 * ?h) div 256 = ?h + ?t div 256" by (simp add: add.commute)
  also have "(?t + 256 * ?h) mod 256 = ?t mod 256" by simp
  finally show ?case by (simp add: lo IH ac_simps)
qed

end
