(* ===== verification/Poly1305.thy ===== *)
theory Poly1305
  imports ChaCha
begin

text \<open>
  The vendored Poly1305 authenticator
  (\<^verbatim>\<open>src/proxyPool/ProxyClient/crypto/poly1305/sum_ref.go\<close>): the accumulator in five
  limbs of 26 bits, with the carries and the constant-time final reduction of the code, at the
  widths of the code (\<open>uint32\<close> accumulators, \<open>uint64\<close> products).
\<close>

type_synonym limbs = "w32 \<times> w32 \<times> w32 \<times> w32 \<times> w32"

definition TagSize :: nat where
  "TagSize = 16"

text \<open>The clamped \<open>r\<close> part of the key.\<close>

definition poly_r :: "byte list \<Rightarrow> w64 \<times> w64 \<times> w64 \<times> w64 \<times> w64" where
  "poly_r key =
     (ucast (LE_Uint32 key 0 AND 0x3ffffff),
      ucast (drop_bit 2 (LE_Uint32 key 3) AND 0x3ffff03),
      ucast (drop_bit 4 (LE_Uint32 key 6) AND 0x3ffc0ff),
      ucast (drop_bit 6 (LE_Uint32 key 9) AND 0x3f03fff),
      ucast (drop_bit 8 (LE_Uint32 key 12) AND 0x00fffff))"

text \<open>\<open>h += msg\<close>: \<open>hibit\<close> is \<open>1 << 24\<close> for a full block and 0 for the padded last one.\<close>

definition poly_add :: "w32 \<Rightarrow> byte list \<Rightarrow> limbs \<Rightarrow> limbs" where
  "poly_add hibit msg h = (case h of (h0, h1, h2, h3, h4) \<Rightarrow>
     (h0 + (LE_Uint32 msg 0 AND 0x3ffffff),
      h1 + (drop_bit 2 (LE_Uint32 msg 3) AND 0x3ffffff),
      h2 + (drop_bit 4 (LE_Uint32 msg 6) AND 0x3ffffff),
      h3 + (drop_bit 6 (LE_Uint32 msg 9) AND 0x3ffffff),
      h4 + (drop_bit 8 (LE_Uint32 msg 12) OR hibit)))"

text \<open>\<open>h *= r\<close> and \<open>h %= p\<close>.\<close>

definition poly_mul :: "w64 \<times> w64 \<times> w64 \<times> w64 \<times> w64 \<Rightarrow> limbs \<Rightarrow> limbs" where
  "poly_mul r h = (case r of (r0, r1, r2, r3, r4) \<Rightarrow> case h of (h0, h1, h2, h3, h4) \<Rightarrow>
     let R1 = r1 * 5; R2 = r2 * 5; R3 = r3 * 5; R4 = r4 * 5;
       d0 = (ucast h0 * r0) + (ucast h1 * R4) + (ucast h2 * R3) + (ucast h3 * R2) + (ucast h4 * R1);
       d1 = drop_bit 26 d0 + (ucast h0 * r1) + (ucast h1 * r0) + (ucast h2 * R4) + (ucast h3 * R3) + (ucast h4 * R2);
       d2 = drop_bit 26 d1 + (ucast h0 * r2) + (ucast h1 * r1) + (ucast h2 * r0) + (ucast h3 * R4) + (ucast h4 * R3);
       d3 = drop_bit 26 d2 + (ucast h0 * r3) + (ucast h1 * r2) + (ucast h2 * r1) + (ucast h3 * r0) + (ucast h4 * R4);
       d4 = drop_bit 26 d3 + (ucast h0 * r4) + (ucast h1 * r3) + (ucast h2 * r2) + (ucast h3 * r1) + (ucast h4 * r0);
       h0 = ucast d0 AND 0x3ffffff;
       h1 = ucast d1 AND 0x3ffffff;
       h2 = ucast d2 AND 0x3ffffff;
       h3 = ucast d3 AND 0x3ffffff;
       h4 = ucast d4 AND 0x3ffffff;
       h0 = h0 + ucast (drop_bit 26 d4) * 5;
       h1 = h1 + drop_bit 26 h0;
       h0 = h0 AND 0x3ffffff
     in (h0, h1, h2, h3, h4))"

text \<open>The loop over the message: full blocks, then the last short block padded with a 1 byte.\<close>

function poly_blocks :: "w64 \<times> w64 \<times> w64 \<times> w64 \<times> w64 \<Rightarrow> byte list \<Rightarrow> limbs \<Rightarrow> limbs" where
  "poly_blocks r msg h =
     (if TagSize \<le> length msg then poly_blocks r (drop TagSize msg) (poly_mul r (poly_add (push_bit 24 1) msg h))
      else if 0 < length msg then
        poly_mul r (poly_add 0 (msg @ [1] @ replicate (TagSize - length msg - 1) 0) h)
      else h)"
  by pat_completeness auto
termination by (relation "measure (\<lambda>(r, msg, h). length msg)") (auto simp: TagSize_def)

declare poly_blocks.simps [simp del]

text \<open>The final \<open>h %= p\<close>: carry propagation, then \<open>h\<close> or \<open>h - p\<close> selected by a mask.\<close>

definition poly_carry :: "limbs \<Rightarrow> limbs" where
  "poly_carry h = (case h of (h0, h1, h2, h3, h4) \<Rightarrow>
     let h2 = h2 + drop_bit 26 h1; h1 = h1 AND 0x3ffffff;
       h3 = h3 + drop_bit 26 h2; h2 = h2 AND 0x3ffffff;
       h4 = h4 + drop_bit 26 h3; h3 = h3 AND 0x3ffffff;
       h0 = h0 + 5 * drop_bit 26 h4; h4 = h4 AND 0x3ffffff;
       h1 = h1 + drop_bit 26 h0; h0 = h0 AND 0x3ffffff
     in (h0, h1, h2, h3, h4))"

definition poly_select :: "limbs \<Rightarrow> limbs" where
  "poly_select h = (case h of (h0, h1, h2, h3, h4) \<Rightarrow>
     let t0 = h0 + 5;
       t1 = h1 + drop_bit 26 t0;
       t2 = h2 + drop_bit 26 t1;
       t3 = h3 + drop_bit 26 t2;
       t4 = h4 + drop_bit 26 t3 - push_bit 26 1;
       t0 = t0 AND 0x3ffffff;
       t1 = t1 AND 0x3ffffff;
       t2 = t2 AND 0x3ffffff;
       t3 = t3 AND 0x3ffffff;
       t_mask = drop_bit 31 t4 - 1;
       h_mask = NOT t_mask
     in ((h0 AND h_mask) OR (t0 AND t_mask),
         (h1 AND h_mask) OR (t1 AND t_mask),
         (h2 AND h_mask) OR (t2 AND t_mask),
         (h3 AND h_mask) OR (t3 AND t_mask),
         (h4 AND h_mask) OR (t4 AND t_mask)))"

text \<open>\<open>h %= 2^128\<close> into four words, and the addition of the \<open>s\<close> part of the key.\<close>

definition poly_tag :: "byte list \<Rightarrow> limbs \<Rightarrow> byte list" where
  "poly_tag key h = (case h of (h0, h1, h2, h3, h4) \<Rightarrow>
     let h0 = h0 OR push_bit 26 h1;
       h1 = drop_bit 6 h1 OR push_bit 20 h2;
       h2 = drop_bit 12 h2 OR push_bit 14 h3;
       h3 = drop_bit 18 h3 OR push_bit 8 h4;
       t = (ucast h0 :: w64) + ucast (LE_Uint32 key 16); h0 = ucast t :: w32;
       t = ucast h1 + ucast (LE_Uint32 key 20) + drop_bit 32 t; h1 = ucast t :: w32;
       t = ucast h2 + ucast (LE_Uint32 key 24) + drop_bit 32 t; h2 = ucast t :: w32;
       t = ucast h3 + ucast (LE_Uint32 key 28) + drop_bit 32 t; h3 = ucast t :: w32
     in LE_PutUint32 h0 @ LE_PutUint32 h1 @ LE_PutUint32 h2 @ LE_PutUint32 h3)"

definition Poly_Sum :: "byte list \<Rightarrow> byte list \<Rightarrow> byte list" where
  "Poly_Sum msg key = poly_tag key (poly_select (poly_carry (poly_blocks (poly_r key) msg (0, 0, 0, 0, 0))))"

definition Poly_Verify :: "byte list \<Rightarrow> byte list \<Rightarrow> byte list \<Rightarrow> bool" where
  "Poly_Verify mac m key \<longleftrightarrow> Poly_Sum m key = mac"

lemma length_Poly_Sum [simp]: "length (Poly_Sum msg key) = 16"
  by (simp add: Poly_Sum_def poly_tag_def Let_def split: prod.split)

end
