(* ===== verification/ChaChaPoly.thy ===== *)
theory ChaChaPoly
  imports Poly1305
begin

text \<open>
  The AEAD interface of Go's \<open>crypto/cipher\<close> as a contract, the vendored ChaCha20-Poly1305
  (\<^verbatim>\<open>src/proxyPool/ProxyClient/crypto/chacha20poly1305\<close>, the portable path) as its provider, and
  the vendored HKDF (\<^verbatim>\<open>src/proxyPool/ProxyClient/crypto/hkdf\<close>).
\<close>

text \<open>
  \<open>Seal nonce plaintext\<close> and \<open>Open nonce ciphertext\<close> return what is appended to \<open>dst\<close>; the callers
  here pass no additional data, which stays an argument of the provider below. \<open>OpenAhead off nonce mem\<close>
  is \<open>Open\<close> when \<open>dst\<close> begins \<open>off\<close> bytes in front of the ciphertext in the same memory: \<open>mem\<close> is that
  memory, from the beginning of \<open>dst\<close> to the end of the ciphertext.
\<close>

record AEAD =
  NonceSize :: nat
  Overhead :: nat
  Seal :: "byte list \<Rightarrow> byte list \<Rightarrow> byte list go"
  Open :: "byte list \<Rightarrow> byte list \<Rightarrow> (go_error + byte list) go"
  OpenAhead :: "nat \<Rightarrow> byte list \<Rightarrow> byte list \<Rightarrow> (go_error + byte list) go"

text \<open>
  What the stream and packet protocols rely on, up to the largest plaintext \<open>limit\<close> that the
  provider accepts.
\<close>

locale aead_contract =
  fixes A :: AEAD and limit :: nat
  assumes Seal_returns: "length nonce = NonceSize A \<Longrightarrow> length pt \<le> limit \<Longrightarrow>
      \<exists>ct. Seal A nonce pt = Some ct \<and> length ct = length pt + Overhead A \<and> Open A nonce ct = Some (Inr pt)"
    and Open_returns: "length nonce = NonceSize A \<Longrightarrow> length ct \<le> limit + Overhead A \<Longrightarrow> Open A nonce ct \<noteq> None"
    and Open_length: "Open A nonce ct = Some (Inr pt) \<Longrightarrow> length ct = length pt + Overhead A"

text \<open>
  The rule of \<open>crypto/cipher\<close> for the output and the input: they "must overlap entirely or not at all". An
  output of \<open>n\<close> bytes that begins \<open>off\<close> bytes in front of as many bytes of input breaks it when it
  reaches into the input. Then the ciphers of the standard library panic (since Go 1.11), others may do
  anything; without such an overlap the memory is irrelevant.
\<close>

definition inexact_overlap :: "nat \<Rightarrow> nat \<Rightarrow> bool" where
  "inexact_overlap off n \<longleftrightarrow> 0 < off \<and> off < n"

definition open_apart :: "AEAD \<Rightarrow> bool" where
  "open_apart A \<longleftrightarrow> (\<forall>off nonce mem. \<not> inexact_overlap off (length mem - off - Overhead A) \<longrightarrow>
     OpenAhead A off nonce mem = Open A nonce (drop off mem))"

definition open_strict :: "AEAD \<Rightarrow> bool" where
  "open_strict A \<longleftrightarrow> (\<forall>off nonce mem. inexact_overlap off (length mem - off - Overhead A) \<longrightarrow> OpenAhead A off nonce mem = None)"

text \<open>A provider that goes beyond the rule.\<close>

definition open_anyhow :: "AEAD \<Rightarrow> bool" where
  "open_anyhow A \<longleftrightarrow> (\<forall>off nonce mem. OpenAhead A off nonce mem = Open A nonce (drop off mem))"

subsection \<open>ChaCha20-Poly1305\<close>

definition c20_KeySize :: nat where "c20_KeySize = 32"
definition c20_NonceSize :: nat where "c20_NonceSize = 12"

definition errOpen :: go_error where
  "errOpen = Sentinel ''errOpen''"

definition roundTo16 :: "nat \<Rightarrow> nat" where
  "roundTo16 n = 16 * ((n + 15) div 16)"

definition LE_PutUint64 :: "nat \<Rightarrow> byte list" where
  "LE_PutUint64 n = map (\<lambda>i. ucast (drop_bit (8 * i) (of_nat n :: w64))) [0..<8]"

text \<open>The block that is authenticated: both texts padded to 16 bytes, then their lengths.\<close>

definition poly_input :: "byte list \<Rightarrow> byte list \<Rightarrow> byte list" where
  "poly_input ad ct =
     ad @ replicate (roundTo16 (length ad) - length ad) 0 @
     ct @ replicate (roundTo16 (length ct) - length ct) 0 @
     LE_PutUint64 (length ad) @ LE_PutUint64 (length ct)"

definition c20_counter :: "byte \<Rightarrow> byte list \<Rightarrow> byte list" where
  "c20_counter n nonce = [n, 0, 0, 0] @ nonce"

definition c20_polyKey :: "byte list \<Rightarrow> byte list \<Rightarrow> byte list" where
  "c20_polyKey key nonce = XORKeyStream (replicate 32 0) (c20_counter 0 nonce) key"

definition sealGeneric :: "byte list \<Rightarrow> byte list \<Rightarrow> byte list \<Rightarrow> byte list \<Rightarrow> byte list" where
  "sealGeneric key nonce plaintext additionalData =
     (let polyKey = c20_polyKey key nonce;
          out = XORKeyStream plaintext (c20_counter 1 nonce) key
      in out @ Poly_Sum (poly_input additionalData out) polyKey)"

definition openGeneric :: "byte list \<Rightarrow> byte list \<Rightarrow> byte list \<Rightarrow> byte list \<Rightarrow> go_error + byte list" where
  "openGeneric key nonce ciphertext additionalData =
     (let tag = drop (length ciphertext - 16) ciphertext;
          ciphertext = take (length ciphertext - 16) ciphertext;
          polyKey = c20_polyKey key nonce
      in if \<not> Poly_Verify tag (poly_input additionalData ciphertext) polyKey then Inl errOpen
         else Inr (XORKeyStream ciphertext (c20_counter 1 nonce) key))"

definition c20_Seal :: "byte list \<Rightarrow> byte list \<Rightarrow> byte list \<Rightarrow> byte list \<Rightarrow> byte list go" where
  "c20_Seal key nonce plaintext additionalData =
     (if length nonce \<noteq> c20_NonceSize then None
      else if 2 ^ 38 - 64 < length plaintext then None
      else Some (sealGeneric key nonce plaintext additionalData))"

definition c20_Open :: "byte list \<Rightarrow> byte list \<Rightarrow> byte list \<Rightarrow> byte list \<Rightarrow> (go_error + byte list) go" where
  "c20_Open key nonce ciphertext additionalData =
     (if length nonce \<noteq> c20_NonceSize then None
      else if length ciphertext < 16 then Some (Inl errOpen)
      else if 2 ^ 38 - 48 < length ciphertext then None
      else Some (openGeneric key nonce ciphertext additionalData))"

text \<open>
  \<open>Open\<close> on shared memory. The tag and the text to authenticate are copied before anything is
  stored, so the memory matters only to the final \<open>XORKeyStream\<close>.
\<close>

definition openGeneric_mem :: "byte list \<Rightarrow> nat \<Rightarrow> byte list \<Rightarrow> byte list \<Rightarrow> byte list \<Rightarrow> go_error + byte list" where
  "openGeneric_mem key off nonce mem additionalData =
     (let ciphertext = drop off mem;
          tag = drop (length ciphertext - 16) ciphertext;
          ciphertext = take (length ciphertext - 16) ciphertext;
          polyKey = c20_polyKey key nonce
      in if \<not> Poly_Verify tag (poly_input additionalData ciphertext) polyKey then Inl errOpen
         else Inr (take (length ciphertext)
           (XORKeyStream_mem 0 off (length ciphertext) (c20_counter 1 nonce) key mem)))"

definition c20_OpenAhead :: "byte list \<Rightarrow> nat \<Rightarrow> byte list \<Rightarrow> byte list \<Rightarrow> byte list \<Rightarrow> (go_error + byte list) go" where
  "c20_OpenAhead key off nonce mem additionalData =
     (if length nonce \<noteq> c20_NonceSize then None
      else if length (drop off mem) < 16 then Some (Inl errOpen)
      else if 2 ^ 38 - 48 < length (drop off mem) then None
      else Some (openGeneric_mem key off nonce mem additionalData))"

text \<open>The loop of \<open>XORKeyStream\<close> goes front to back, so this overlap does no harm here.\<close>

lemma c20_OpenAhead_eq: "c20_OpenAhead key off nonce mem ad = c20_Open key nonce (drop off mem) ad"
proof -
  have "openGeneric_mem key off nonce mem ad = openGeneric key nonce (drop off mem) ad" if "16 \<le> length (drop off mem)"
  proof -
    let ?n = "length mem - off - 16"
    have "may_overlap 0 off ?n mem" using that by (simp add: may_overlap_def)
    from XORKeyStream_mem_eq [OF this, of "c20_counter 1 nonce" key] show ?thesis
      by (simp add: openGeneric_mem_def openGeneric_def Let_def)
  qed
  then show ?thesis by (simp add: c20_OpenAhead_def c20_Open_def)
qed

definition chacha20poly1305 :: "byte list \<Rightarrow> AEAD" where
  "chacha20poly1305 key = \<lparr>NonceSize = c20_NonceSize, Overhead = 16,
     Seal = \<lambda>nonce pt. c20_Seal key nonce pt [], Open = \<lambda>nonce ct. c20_Open key nonce ct [],
     OpenAhead = \<lambda>off nonce mem. c20_OpenAhead key off nonce mem []\<rparr>"

lemma c20_open_anyhow: "open_anyhow (chacha20poly1305 key)"
  by (simp add: open_anyhow_def chacha20poly1305_def c20_OpenAhead_eq)

definition c20_New :: "byte list \<Rightarrow> go_error + AEAD" where
  "c20_New key = (if length key \<noteq> c20_KeySize then Inl (ErrMsg ''chacha20poly1305: bad key length'')
     else Inr (chacha20poly1305 key))"

lemma length_sealGeneric [simp]: "length (sealGeneric key nonce pt ad) = length pt + 16"
  by (simp add: sealGeneric_def Let_def)

lemma open_seal: "openGeneric key nonce (sealGeneric key nonce pt ad) ad = Inr pt"
  by (simp add: openGeneric_def sealGeneric_def Let_def Poly_Verify_def XORKeyStream_twice)

lemma openGeneric_length:
  "openGeneric key nonce ct ad = Inr pt \<Longrightarrow> 16 \<le> length ct \<Longrightarrow> length ct = length pt + 16"
  by (auto simp: openGeneric_def Let_def split: if_splits)

interpretation c20: aead_contract "chacha20poly1305 key" "2 ^ 38 - 64" for key
proof unfold_locales
  fix nonce pt :: "byte list"
  assume "length nonce = NonceSize (chacha20poly1305 key)" and "length pt \<le> 2 ^ 38 - 64"
  then show "\<exists>ct. Seal (chacha20poly1305 key) nonce pt = Some ct \<and>
      length ct = length pt + Overhead (chacha20poly1305 key) \<and> Open (chacha20poly1305 key) nonce ct = Some (Inr pt)"
    by (auto simp: chacha20poly1305_def c20_Seal_def c20_Open_def open_seal)
qed (auto simp: chacha20poly1305_def c20_Open_def openGeneric_length split: if_splits)

text \<open>
  Authenticated round trip of the vendored cipher: every plaintext up to the limit of the code is
  sealed without a panic, the result is 16 bytes longer, and opening it with the same key, nonce and
  additional data gives the plaintext back.
\<close>

lemma c20_Open_Seal:
  assumes "length nonce = 12" and "length plaintext \<le> 2 ^ 38 - 64"
  shows "\<exists>ct. c20_Seal key nonce plaintext ad = Some ct \<and> length ct = length plaintext + 16 \<and>
    c20_Open key nonce ct ad = Some (Inr plaintext)"
  using assms by (simp add: c20_Seal_def c20_Open_def c20_NonceSize_def open_seal)

lemma c20_Open_Seal_witness:
  "\<exists>ct. c20_Seal (replicate 32 7) (replicate 12 1) [1, 2, 3] [9] = Some ct \<and> length ct = 19 \<and>
    c20_Open (replicate 32 7) (replicate 12 1) ct [9] = Some (Inr [1, 2, 3])"
  using c20_Open_Seal [of "replicate 12 1" "[1, 2, 3]" "replicate 32 7" "[9]"] by simp

subsection \<open>HKDF\<close>

text \<open>
  \<open>hmac key data\<close> is the HMAC of the hash that is passed in, a parameter with digests of \<open>size\<close>
  bytes; \<open>prf\<close> is the keyed \<open>expander\<close>. The result of \<open>Read\<close> is paired with the new state.
\<close>

record hkdf =
  hk_prf :: "byte list \<Rightarrow> byte list"
  hk_size :: nat
  hk_info :: "byte list"
  hk_counter :: byte
  hk_prev :: "byte list"
  hk_cache :: "byte list"

definition hkdf_New :: "(byte list \<Rightarrow> byte list \<Rightarrow> byte list) \<Rightarrow> nat \<Rightarrow> byte list \<Rightarrow> byte list option \<Rightarrow> byte list \<Rightarrow> hkdf" where
  "hkdf_New hmac hsize secret salt info =
     (let salt = (case salt of None \<Rightarrow> replicate hsize 0 | Some s \<Rightarrow> s);
          prk = hmac salt secret
      in \<lparr>hk_prf = hmac prk, hk_size = hsize, hk_info = info, hk_counter = 1, hk_prev = [], hk_cache = []\<rparr>)"

text \<open>
  The loop that fills the rest of \<open>p\<close>; \<open>need\<close> bytes are missing. An empty digest would loop
  for ever, so the fuel is the number of missing bytes and running out of it is the value \<open>None\<close>.
\<close>

fun hkdf_fill :: "nat \<Rightarrow> nat \<Rightarrow> byte list \<Rightarrow> hkdf \<Rightarrow> (byte list \<times> hkdf) go" where
  "hkdf_fill fuel need acc f =
     (if need = 0 then Some (acc, f)
      else (case fuel of 0 \<Rightarrow> None
        | Suc fuel' \<Rightarrow>
          (let prev = hk_prf f (hk_prev f @ hk_info f @ [hk_counter f]);
               n = min need (length prev)
           in hkdf_fill fuel' (need - n) (acc @ take n prev)
                (f\<lparr>hk_prev := prev, hk_counter := hk_counter f + 1, hk_cache := drop n prev\<rparr>))))"

declare hkdf_fill.simps [simp del]

definition hkdf_Read :: "nat \<Rightarrow> hkdf \<Rightarrow> ((go_error + byte list) \<times> hkdf) go" where
  "hkdf_Read need f =
     (let remains = length (hk_cache f) + (unat (255 - hk_counter f + 1) * hk_size f) in
      if remains < need then Some (Inl (ErrMsg ''hkdf: entropy limit reached''), f)
      else (let n = min need (length (hk_cache f)) in
        do {
          (bs, g) \<leftarrow> hkdf_fill (need - n) (need - n) (take n (hk_cache f)) (f\<lparr>hk_cache := drop n (hk_cache f)\<rparr>);
          Some (Inr bs, g)
        }))"

text \<open>
  RFC 5869: the output is a prefix of \<open>T(1) T(2) \<dots>\<close> with
  \<open>T(i) = HMAC(prk, T(i-1) | info | i)\<close>.
\<close>

fun hkdf_T :: "(byte list \<Rightarrow> byte list) \<Rightarrow> byte list \<Rightarrow> nat \<Rightarrow> byte list" where
  "hkdf_T prf info 0 = []"
| "hkdf_T prf info (Suc i) = prf (hkdf_T prf info i @ info @ [of_nat (Suc i)])"

text \<open>The first bytes of the stream, from the block after \<open>i\<close> on.\<close>

definition hkdf_from :: "(byte list \<Rightarrow> byte list) \<Rightarrow> byte list \<Rightarrow> nat \<Rightarrow> nat \<Rightarrow> byte list" where
  "hkdf_from prf info i n = take n (concat (map (hkdf_T prf info) [Suc i..<Suc i + n]))"

lemma hkdf_from_Suc:
  assumes "\<And>x. length (prf x) = hsize" and "0 < hsize" and "0 < n"
  shows "hkdf_from prf info i n =
    take n (hkdf_T prf info (Suc i)) @ hkdf_from prf info (Suc i) (n - min n hsize)"
proof -
  let ?T = "hkdf_T prf info" and ?m = "n - min n hsize"
  have len: "length (?T (Suc j)) = hsize" for j using assms(1) by simp
  have "[Suc i..<Suc i + n] = Suc i # [Suc (Suc i)..<Suc (Suc i) + ?m] @ [Suc (Suc i) + ?m..<Suc i + n]"
    using assms(2,3) upt_add_eq_append [of "Suc (Suc i)" "Suc (Suc i) + ?m" "min n hsize - 1"]
    by (simp add: upt_conv_Cons del: upt_Suc)
  moreover have "?m \<le> length (concat (map ?T [Suc (Suc i)..<Suc (Suc i) + ?m]))"
  proof -
    have "length (concat (map ?T [Suc (Suc i)..<Suc (Suc i) + ?m])) = (\<Sum>j\<leftarrow>[Suc (Suc i)..<Suc (Suc i) + ?m]. hsize)"
      unfolding length_concat map_map
      by (rule arg_cong [where f = sum_list], rule map_cong) (auto simp: len dest!: Suc_le_D simp del: hkdf_T.simps)
    also have "\<dots> = ?m * hsize" by (simp add: sum_list_triv del: upt_Suc)
    finally show ?thesis using assms(2) by simp
  qed
  ultimately show ?thesis
    using len [of i] assms(2)
    by (cases "n \<le> hsize") (simp_all add: hkdf_from_def min_def less_imp_le diff_le_mono2 del: hkdf_T.simps upt_Suc)
qed

lemma hkdf_fill_stream:
  assumes "\<And>x. length (prf x) = hsize" and "0 < hsize" and "n \<le> fuel"
    and "hk_prf f = prf" and "hk_prev f = hkdf_T prf (hk_info f) i" and "hk_counter f = of_nat (Suc i)"
  shows "\<exists>g. hkdf_fill fuel n acc f = Some (acc @ hkdf_from prf (hk_info f) i n, g)"
  using assms(3-)
proof (induction fuel arbitrary: n acc f i)
  case 0
  then show ?case by (simp add: hkdf_fill.simps hkdf_from_def)
next
  case (Suc fuel)
  show ?case
  proof (cases "n = 0")
    case True
    then show ?thesis by (simp add: hkdf_fill.simps hkdf_from_def)
  next
    case False
    let ?prev = "hkdf_T prf (hk_info f) (Suc i)" and ?k = "min n hsize"
    let ?f = "f\<lparr>hk_prev := ?prev, hk_counter := hk_counter f + 1, hk_cache := drop ?k ?prev\<rparr>"
    have prev: "hk_prf f (hk_prev f @ hk_info f @ [hk_counter f]) = ?prev" and len: "length ?prev = hsize"
      using Suc.prems assms(1) by simp_all
    have "\<exists>g. hkdf_fill fuel (n - ?k) (acc @ take ?k ?prev) ?f =
        Some ((acc @ take ?k ?prev) @ hkdf_from prf (hk_info ?f) (Suc i) (n - ?k), g)"
      by (rule Suc.IH) (use Suc.prems False assms(2) in auto)
    moreover have "hkdf_from prf (hk_info f) i n = take n ?prev @ hkdf_from prf (hk_info f) (Suc i) (n - ?k)"
      by (rule hkdf_from_Suc) (use assms(1,2) False in auto)
    ultimately show ?thesis
      using False prev len
      by (subst hkdf_fill.simps, cases "n \<le> hsize") (simp_all add: Let_def min_def del: hkdf_T.simps)
  qed
qed

lemma hkdf_Read_from:
  assumes "\<And>k x. length (hmac k x) = hsize" and "0 < hsize" and "need \<le> 255 * hsize"
  shows "\<exists>g. hkdf_Read need (hkdf_New hmac hsize secret (Some salt) info) =
    Some (Inr (hkdf_from (hmac (hmac salt secret)) info 0 need), g)"
proof -
  let ?f = "hkdf_New hmac hsize secret (Some salt) info"
  have "\<exists>g. hkdf_fill need need [] ?f = Some ([] @ hkdf_from (hmac (hmac salt secret)) (hk_info ?f) 0 need, g)"
    by (rule hkdf_fill_stream [where hsize = hsize]) (use assms in \<open>simp_all add: hkdf_New_def Let_def\<close>)
  then show ?thesis
    using assms(3) by (auto simp: hkdf_Read_def hkdf_New_def Let_def)
qed

lemma hkdf_from_length:
  assumes "\<And>x. length (prf x) = hsize" and "0 < hsize"
  shows "length (hkdf_from prf info i n) = n"
proof (induction n arbitrary: i rule: less_induct)
  case (less n)
  show ?case
  proof (cases "n = 0")
    case False
    then have "hkdf_from prf info i n = take n (hkdf_T prf info (Suc i)) @ hkdf_from prf info (Suc i) (n - min n hsize)"
      by (intro hkdf_from_Suc) (use assms in auto)
    then show ?thesis using less.IH [of "n - min n hsize"] False assms by simp
  qed (simp add: hkdf_from_def)
qed

text \<open>
  A fresh HKDF reader asked for at most 255 digests of output returns, and what it returns is
  the prefix of the RFC 5869 stream for the pseudo-random key extracted from secret and salt.
\<close>

lemma hkdf_Read_stream:
  assumes "\<And>k x. length (hmac k x) = hsize" and "0 < hsize" and "need \<le> 255 * hsize"
  shows "\<exists>g. hkdf_Read need (hkdf_New hmac hsize secret (Some salt) info) =
    Some (Inr (hkdf_from (hmac (hmac salt secret)) info 0 need), g)"
  using assms by (rule hkdf_Read_from)

text \<open>A keyed checksum with four-byte digests as the concrete hash.\<close>

definition demo_hmac :: "byte list \<Rightarrow> byte list \<Rightarrow> byte list" where
  "demo_hmac k x = LE_PutUint32 (foldl (\<lambda>a b. 31 * a + ucast b) 7 (k @ x))"

lemma hkdf_Read_stream_witness:
  "\<exists>g. hkdf_Read 10 (hkdf_New demo_hmac 4 [1, 2] (Some [3]) [4]) =
    Some (Inr (hkdf_from (demo_hmac (demo_hmac [3] [1, 2])) [4] 0 10), g)"
  by (rule hkdf_Read_stream) (simp_all add: demo_hmac_def)

end
