(* ===== verification/ShadowAead.thy ===== *)
theory ShadowAead
  imports ChaChaPoly
begin

text \<open>
  Package \<open>shadowaead\<close> (\<^verbatim>\<open>src/proxyPool/ProxyClient/shadowaead\<close>): ciphers derived from a
  pre-shared key, the record protocol on a stream, and encrypted packets.

  The buffers of the code are scratch memory of fixed size and carry no state between calls, so
  they appear only through their lengths (the stream code seals and opens in place, as the ciphers allow; the
  packet code does not, see \<open>ShadowAeadPacket\<close>); the nonce, the left-over plaintext and the connection are
  the state. \<open>crypto/rand\<close> is the argument \<open>rnd\<close>, the HMAC of \<open>crypto/sha1\<close> the argument \<open>hmac\<close>.
\<close>

subsection \<open>cipher.go\<close>

record Cipher =
  KeySize :: nat
  SaltSize :: nat
  Encrypter :: "byte list \<Rightarrow> (go_error + AEAD) go"
  Decrypter :: "byte list \<Rightarrow> (go_error + AEAD) go"

definition KeySizeError :: "nat \<Rightarrow> go_error" where
  "KeySizeError e = ErrMsg (''key size error: need '' @ Itoa (int e) @ '' bytes'')"

definition hkdfSHA1 :: "(byte list \<Rightarrow> byte list \<Rightarrow> byte list) \<Rightarrow> byte list \<Rightarrow> byte list \<Rightarrow> byte list \<Rightarrow> nat \<Rightarrow> byte list go" where
  "hkdfSHA1 hmac secret salt info n = do {
     (r, _) \<leftarrow> hkdf_Read n (hkdf_New hmac 20 secret (Some salt) info);
     (case r of Inl err \<Rightarrow> None | Inr outkey \<Rightarrow> Some outkey) }"

definition ss_subkey :: "byte list" where
  "ss_subkey = map of_char ''ss-subkey''"

definition meta_AEAD ::
  "(byte list \<Rightarrow> byte list \<Rightarrow> byte list) \<Rightarrow> (byte list \<Rightarrow> go_error + AEAD) \<Rightarrow> byte list \<Rightarrow> byte list \<Rightarrow> (go_error + AEAD) go" where
  "meta_AEAD hmac makeAEAD psk salt = do {
     subkey \<leftarrow> hkdfSHA1 hmac psk salt ss_subkey (length psk);
     Some (makeAEAD subkey) }"

definition metaCipher ::
  "(byte list \<Rightarrow> byte list \<Rightarrow> byte list) \<Rightarrow> byte list \<Rightarrow> (byte list \<Rightarrow> go_error + AEAD) \<Rightarrow> Cipher" where
  "metaCipher hmac psk makeAEAD = \<lparr>KeySize = length psk,
     SaltSize = (if 16 < length psk then length psk else 16),
     Encrypter = meta_AEAD hmac makeAEAD psk, Decrypter = meta_AEAD hmac makeAEAD psk\<rparr>"

text \<open>\<open>aesGCM\<close> stands for \<open>cipher.NewGCM\<close> on \<open>aes.NewCipher\<close> of the standard library.\<close>

definition AESGCM ::
  "(byte list \<Rightarrow> byte list \<Rightarrow> byte list) \<Rightarrow> (byte list \<Rightarrow> go_error + AEAD) \<Rightarrow> byte list \<Rightarrow> go_error + Cipher" where
  "AESGCM hmac aesGCM psk = (if length psk \<in> {16, 24, 32} then Inr (metaCipher hmac psk aesGCM)
     else Inl (ErrMsg (''crypto/aes: invalid key size '' @ Itoa (int (length psk)))))"

definition Chacha20Poly1305 ::
  "(byte list \<Rightarrow> byte list \<Rightarrow> byte list) \<Rightarrow> byte list \<Rightarrow> go_error + Cipher" where
  "Chacha20Poly1305 hmac psk = (if length psk \<noteq> c20_KeySize then Inl (KeySizeError c20_KeySize)
     else Inr (metaCipher hmac psk c20_New))"

subsection \<open>stream.go: nonces\<close>

fun increment :: "byte list \<Rightarrow> byte list" where
  "increment [] = []"
| "increment (b # bs) = (let b' = b + 1 in if b' \<noteq> 0 then b' # bs else b' # increment bs)"

subsection \<open>stream.go: the writer\<close>

definition payloadSizeMask :: nat where
  "payloadSizeMask = 0x3FFF"

record aead_writer =
  w_AEAD :: AEAD
  w_nonce :: "byte list"

definition newWriter :: "AEAD \<Rightarrow> aead_writer" where
  "newWriter aead = \<lparr>w_AEAD = aead, w_nonce = replicate (NonceSize aead) 0\<rparr>"

text \<open>The record of one payload: sealed big-endian length, sealed payload; two nonces are used.\<close>

definition seal_record :: "byte list \<Rightarrow> aead_writer \<Rightarrow> (byte list \<times> aead_writer) go" where
  "seal_record payload w = (let nr = length payload; a = w_AEAD w; n0 = w_nonce w; n1 = increment n0 in do {
     size \<leftarrow> Seal a n0 [of_nat (nr div 256), of_nat nr];
     body \<leftarrow> Seal a n1 payload;
     Some (size @ body, w\<lparr>w_nonce := increment n1\<rparr>) })"

text \<open>
  \<open>ReadFrom\<close> on any reader: \<open>rd k s\<close> is a read of at most \<open>k\<close> bytes. A reader that never fails
  keeps the loop going for ever.
\<close>

type_synonym 's reader = "nat \<Rightarrow> 's \<Rightarrow> (byte list \<times> go_error option) \<times> 's"

partial_function (option) aead_ReadFrom ::
  "'s reader \<Rightarrow> 's \<Rightarrow> nat \<Rightarrow> aead_writer \<Rightarrow> conn \<Rightarrow> (nat \<times> go_error option \<times> 's \<times> aead_writer \<times> conn) option" where
  "aead_ReadFrom rd s n w c = (case rd payloadSizeMask s of ((payload, er), s) \<Rightarrow> do {
     (n, ew, w, c) \<leftarrow>
       (if payload \<noteq> [] then do {
          (buf, w) \<leftarrow> seal_record payload w;
          (case conn_Write buf c of (ew, c) \<Rightarrow> Some (n + length payload, ew, w, c)) }
        else Some (n, None, w, c));
     (case ew of
        Some e \<Rightarrow> Some (n, Some e, s, w, c)
      | None \<Rightarrow> (case er of
          Some e \<Rightarrow> Some (n, (if e \<noteq> EOF then Some e else None), s, w, c)
        | None \<Rightarrow> aead_ReadFrom rd s n w c)) })"

text \<open>\<open>bytes.Buffer\<close>: an empty buffer answers \<open>io.EOF\<close>.\<close>

definition buffer_Read :: "byte list reader" where
  "buffer_Read k b = (if b = [] then (([], Some EOF), []) else ((take k b, None), drop k b))"

definition aead_Write :: "byte list \<Rightarrow> aead_writer \<Rightarrow> conn \<Rightarrow> (nat \<times> go_error option \<times> aead_writer \<times> conn) go" where
  "aead_Write b w c = do {
     (n, err, _, w, c) \<leftarrow> aead_ReadFrom buffer_Read b 0 w c;
     Some (n, err, w, c) }"

subsection \<open>stream.go: the reader\<close>

record aead_reader =
  r_AEAD :: AEAD
  r_nonce :: "byte list"
  r_leftover :: "byte list"

definition newReader :: "AEAD \<Rightarrow> aead_reader" where
  "newReader aead = \<lparr>r_AEAD = aead, r_nonce = replicate (NonceSize aead) 0, r_leftover = []\<rparr>"

text \<open>Read a ciphertext of \<open>k\<close> plaintext bytes, open it, and count the nonce up.\<close>

definition open_chunk :: "nat \<Rightarrow> aead_reader \<Rightarrow> conn \<Rightarrow> ((go_error + byte list) \<times> aead_reader \<times> conn) go" where
  "open_chunk k r c = (case ReadFull (k + Overhead (r_AEAD r)) c of
       (Inl err, c) \<Rightarrow> Some (Inl err, r, c)
     | (Inr buf, c) \<Rightarrow> do {
         res \<leftarrow> Open (r_AEAD r) (r_nonce r) buf;
         Some (res, r\<lparr>r_nonce := increment (r_nonce r)\<rparr>, c) })"

text \<open>\<open>read\<close>: the decrypted payload of the next record.\<close>

definition aead_read :: "aead_reader \<Rightarrow> conn \<Rightarrow> ((go_error + byte list) \<times> aead_reader \<times> conn) go" where
  "aead_read r c = do {
     (res, r, c) \<leftarrow> open_chunk 2 r c;
     (case res of
        Inl err \<Rightarrow> Some (Inl err, r, c)
      | Inr buf \<Rightarrow> do {
          b0 \<leftarrow> idx buf 0;
          b1 \<leftarrow> idx buf 1;
          open_chunk ((unat b0 * 256 + unat b1) AND payloadSizeMask) r c }) }"

text \<open>\<open>Read\<close> into a slice of \<open>len\<close> bytes: the bytes stored and the error.\<close>

definition aead_Read :: "nat \<Rightarrow> aead_reader \<Rightarrow> conn \<Rightarrow> (byte list \<times> go_error option \<times> aead_reader \<times> conn) go" where
  "aead_Read len r c =
     (if r_leftover r \<noteq> [] then
        Some (take len (r_leftover r), None, r\<lparr>r_leftover := drop len (r_leftover r)\<rparr>, c)
      else do {
        (res, r, c) \<leftarrow> aead_read r c;
        (case res of
           Inl err \<Rightarrow> Some ([], Some err, r, c)
         | Inr pt \<Rightarrow> Some (take len pt, None,
             (if len < length pt then r\<lparr>r_leftover := drop len pt\<rparr> else r), c)) })"

text \<open>
  \<open>WriteTo\<close>: the destination is a connection too. The result is the number of bytes written and
  the error; \<open>io.EOF\<close> is not reported.
\<close>

partial_function (option) aead_pump ::
  "nat \<Rightarrow> aead_reader \<Rightarrow> conn \<Rightarrow> conn \<Rightarrow> (nat \<times> go_error option \<times> aead_reader \<times> conn \<times> conn) option" where
  "aead_pump n r c d = do {
     (res, r, c) \<leftarrow> aead_read r c;
     (case res of
        Inl er \<Rightarrow> Some (n, (if er \<noteq> EOF then Some er else None), r, c, d)
      | Inr pt \<Rightarrow>
          (case (if pt \<noteq> [] then conn_Write pt d else (None, d)) of
             (Some ew, d) \<Rightarrow> Some (n, Some ew, r, c, d)
           | (None, d) \<Rightarrow> aead_pump (n + length pt) r c d)) }"

definition aead_WriteTo ::
  "aead_reader \<Rightarrow> conn \<Rightarrow> conn \<Rightarrow> (nat \<times> go_error option \<times> aead_reader \<times> conn \<times> conn) go" where
  "aead_WriteTo r c d =
     (if r_leftover r \<noteq> [] then
        (case conn_Write (r_leftover r) d of
           (Some ew, d) \<Rightarrow> Some (0, Some ew, r, c, d)
         | (None, d) \<Rightarrow> aead_pump (length (r_leftover r)) (r\<lparr>r_leftover := []\<rparr>) c d)
      else aead_pump 0 r c d)"

subsection \<open>stream.go: streamConn\<close>

record streamConn =
  sc_Conn :: conn
  sc_Cipher :: Cipher
  sc_r :: "aead_reader option"
  sc_w :: "aead_writer option"

definition NewConn :: "conn \<Rightarrow> Cipher \<Rightarrow> streamConn" where
  "NewConn c ciph = \<lparr>sc_Conn = c, sc_Cipher = ciph, sc_r = None, sc_w = None\<rparr>"

definition initReader :: "streamConn \<Rightarrow> (go_error option \<times> streamConn) go" where
  "initReader sc = (case ReadFull (SaltSize (sc_Cipher sc)) (sc_Conn sc) of
       (Inl err, c) \<Rightarrow> Some (Some err, sc\<lparr>sc_Conn := c\<rparr>)
     | (Inr salt, c) \<Rightarrow> do {
         aead \<leftarrow> Decrypter (sc_Cipher sc) salt;
         (case aead of
            Inl err \<Rightarrow> Some (Some err, sc\<lparr>sc_Conn := c\<rparr>)
          | Inr a \<Rightarrow> Some (None, sc\<lparr>sc_Conn := c, sc_r := Some (newReader a)\<rparr>)) })"

definition with_reader :: "streamConn \<Rightarrow> (go_error option \<times> streamConn) go" where
  "with_reader sc = (if sc_r sc = None then initReader sc else Some (None, sc))"

definition streamConn_Read :: "nat \<Rightarrow> streamConn \<Rightarrow> (byte list \<times> go_error option \<times> streamConn) go" where
  "streamConn_Read len sc = do {
     (err, sc) \<leftarrow> with_reader sc;
     (case err of
        Some e \<Rightarrow> Some ([], Some e, sc)
      | None \<Rightarrow> do {
          r \<leftarrow> sc_r sc;
          (bs, err, r, c) \<leftarrow> aead_Read len r (sc_Conn sc);
          Some (bs, err, sc\<lparr>sc_Conn := c, sc_r := Some r\<rparr>) }) }"

definition streamConn_WriteTo :: "streamConn \<Rightarrow> conn \<Rightarrow> (nat \<times> go_error option \<times> streamConn \<times> conn) go" where
  "streamConn_WriteTo sc d = do {
     (err, sc) \<leftarrow> with_reader sc;
     (case err of
        Some e \<Rightarrow> Some (0, Some e, sc, d)
      | None \<Rightarrow> do {
          r \<leftarrow> sc_r sc;
          (n, err, r, c, d) \<leftarrow> aead_WriteTo r (sc_Conn sc) d;
          Some (n, err, sc\<lparr>sc_Conn := c, sc_r := Some r\<rparr>, d) }) }"

definition initWriter :: "(nat \<Rightarrow> go_error + byte list) \<Rightarrow> streamConn \<Rightarrow> (go_error option \<times> streamConn) go" where
  "initWriter rnd sc = (case rnd (SaltSize (sc_Cipher sc)) of
       Inl err \<Rightarrow> Some (Some err, sc)
     | Inr salt \<Rightarrow> do {
         aead \<leftarrow> Encrypter (sc_Cipher sc) salt;
         (case aead of
            Inl err \<Rightarrow> Some (Some err, sc)
          | Inr a \<Rightarrow>
              (case conn_Write salt (sc_Conn sc) of
                 (Some err, c) \<Rightarrow> Some (Some err, sc\<lparr>sc_Conn := c\<rparr>)
               | (None, c) \<Rightarrow> Some (None, sc\<lparr>sc_Conn := c, sc_w := Some (newWriter a)\<rparr>))) })"

definition with_writer :: "(nat \<Rightarrow> go_error + byte list) \<Rightarrow> streamConn \<Rightarrow> (go_error option \<times> streamConn) go" where
  "with_writer rnd sc = (if sc_w sc = None then initWriter rnd sc else Some (None, sc))"

definition streamConn_Write ::
  "(nat \<Rightarrow> go_error + byte list) \<Rightarrow> byte list \<Rightarrow> streamConn \<Rightarrow> (nat \<times> go_error option \<times> streamConn) go" where
  "streamConn_Write rnd b sc = do {
     (err, sc) \<leftarrow> with_writer rnd sc;
     (case err of
        Some e \<Rightarrow> Some (0, Some e, sc)
      | None \<Rightarrow> do {
          w \<leftarrow> sc_w sc;
          (n, err, w, c) \<leftarrow> aead_Write b w (sc_Conn sc);
          Some (n, err, sc\<lparr>sc_Conn := c, sc_w := Some w\<rparr>) }) }"

definition streamConn_ReadFrom ::
  "(nat \<Rightarrow> go_error + byte list) \<Rightarrow> 's reader \<Rightarrow> 's \<Rightarrow> streamConn \<Rightarrow> (nat \<times> go_error option \<times> 's \<times> streamConn) go" where
  "streamConn_ReadFrom rnd rd s sc = do {
     (err, sc) \<leftarrow> with_writer rnd sc;
     (case err of
        Some e \<Rightarrow> Some (0, Some e, s, sc)
      | None \<Rightarrow> do {
          w \<leftarrow> sc_w sc;
          (n, err, s, w, c) \<leftarrow> aead_ReadFrom rd s 0 w (sc_Conn sc);
          Some (n, err, s, sc\<lparr>sc_Conn := c, sc_w := Some w\<rparr>) }) }"

end
