(* ===== verification/ShadowAeadStream.thy ===== *)
theory ShadowAeadStream
  imports ShadowAead
begin

text \<open>
  The record protocol of \<open>shadowaead\<close> as a byte stream: for every AEAD that meets the contract,
  what one side writes is what the other side reads, however the network cuts the ciphertext and
  however much each read asks for.
\<close>

lemma length_increment [simp]: "length (increment bs) = length bs"
  by (induction bs) (auto simp: Let_def)

lemma byte_in_w32: "drop_bit 8 (ucast (a :: byte) :: w32) = 0" "ucast (ucast a :: w32) = a"
  by (rule bit_word_eqI; auto simp: bit_drop_bit_eq bit_ucast_iff dest: bit_imp_le_length)+

text \<open>The nonce as a little-endian number counts up by one and wraps around.\<close>

lemma increment_carry: "increment bs = carry_add 1 bs"
proof (induction bs)
  case Nil
  then show ?case by simp
next
  case (Cons b bs)
  have b: "uint (1 + ucast b :: w32) = 1 + uint b"
    using uint_lt2p [of b] by (simp add: uint_word_ariths unsigned_ucast_eq take_bit_int_eq_self mod_pos_pos_trivial)
  have lo: "ucast (1 + ucast b :: w32) = b + 1"
  proof (rule word_uint_eqI)
    have "uint (ucast (1 + ucast b :: w32) :: byte) = (1 + uint b) mod 256"
      by (simp only: unsigned_ucast_eq b take_bit_eq_mod) simp
    then show "uint (ucast (1 + ucast b :: w32) :: byte) = uint (b + 1)"
      by (simp add: uint_word_ariths add.commute)
  qed
  have carry0: "carry_add 0 xs = xs" for xs
    by (induction xs) (simp_all add: byte_in_w32)
  have hi: "drop_bit 8 (1 + ucast b :: w32) = (if b + 1 = 0 then 1 else 0)"
  proof (rule word_uint_eqI)
    have "uint b + 1 \<noteq> 0" using uint_ge_0 [of b] by linarith
    then have "b + 1 = 0 \<longleftrightarrow> uint b = 255"
      using uint_lt2p [of b]
      by (cases "uint b = 255") (simp_all add: word_uint_eq_iff uint_word_ariths mod_pos_pos_trivial)
    then show "uint (drop_bit 8 (1 + ucast b :: w32)) = uint (if b + 1 = 0 then 1 else 0 :: w32)"
      using uint_lt2p [of b] by (simp add: drop_bit_eq_div uint_div_distrib b)
  qed
  show ?case using Cons by (simp add: Let_def lo hi carry0)
qed

text \<open>
  C32. After each sealed or opened chunk the nonce is the next number: read as a little-endian
  integer it is increased by one modulo \<open>256 ^ n\<close> for its \<open>n\<close> bytes, and its length is kept.
\<close>

theorem increment_counts:
  "horner_sum uint 256 (increment bs) = (horner_sum uint 256 bs + 1) mod 256 ^ length bs
   \<and> length (increment bs) = length bs"
  using carry_add_value [of 1 bs] by (simp add: increment_carry [symmetric])

subsection \<open>One record\<close>

locale aead_stream = aead_contract +
  assumes payload_fits: "payloadSizeMask \<le> limit"
begin

definition aligned :: "aead_writer \<Rightarrow> aead_reader \<Rightarrow> bool" where
  "aligned w r \<longleftrightarrow> w_AEAD w = A \<and> r_AEAD r = A \<and> w_nonce w = r_nonce r \<and> length (w_nonce w) = NonceSize A"

lemma new_aligned: "aligned (newWriter A) (newReader A)"
  by (simp add: aligned_def newWriter_def newReader_def)

lemma seal_record_returns:
  assumes "w_AEAD w = A" and "length (w_nonce w) = NonceSize A" and "length p \<le> payloadSizeMask"
  shows "\<exists>rec w'. seal_record p w = Some (rec, w') \<and> w_AEAD w' = A \<and> length (w_nonce w') = NonceSize A \<and>
    length rec = length p + 2 + 2 * Overhead A"
proof -
  have two: "2 \<le> limit" using payload_fits by (simp add: payloadSizeMask_def)
  let ?n1 = "increment (w_nonce w)"
  obtain s where "Seal A (w_nonce w) [of_nat (length p div 256), of_nat (length p)] = Some s" "length s = 2 + Overhead A"
    using Seal_returns [OF assms(2), of "[of_nat (length p div 256), of_nat (length p)]"] two by auto
  moreover obtain b where "Seal A ?n1 p = Some b" "length b = length p + Overhead A"
    using Seal_returns [of ?n1 p] assms payload_fits by auto
  ultimately show ?thesis using assms by (simp add: seal_record_def Let_def)
qed

lemma open_chunk_sealed:
  assumes "r_AEAD r = A" and "length (r_nonce r) = NonceSize A" and "length p \<le> limit"
    and "Seal A (r_nonce r) p = Some ct" and "pending c = ct @ rest" and "\<not> cn_closed c"
  shows "\<exists>c'. open_chunk (length p) r c = Some (Inr p, r\<lparr>r_nonce := increment (r_nonce r)\<rparr>, c') \<and>
    pending c' = rest \<and> reads_to c c'"
proof -
  have ct: "length ct = length p + Overhead A" "Open A (r_nonce r) ct = Some (Inr p)"
    using Seal_returns [OF assms(2,3)] assms(4) by auto
  then obtain c' where "ReadFull (length p + Overhead A) c = (Inr ct, c')" "pending c' = rest" "reads_to c c'"
    using ReadFull_enough [of "length p + Overhead A" c] assms(5,6) by auto
  with ct(2) assms(1) show ?thesis by (simp add: open_chunk_def)
qed

lemma size_bytes:
  assumes "n \<le> payloadSizeMask"
  shows "(unat (of_nat (n div 256) :: byte) * 256 + unat (of_nat n :: byte)) AND payloadSizeMask = n"
proof -
  have "n div 256 < 256" using assms by (simp add: payloadSizeMask_def)
  then have "unat (of_nat (n div 256) :: byte) * 256 + unat (of_nat n :: byte) = n"
    by (simp add: unat_of_nat take_bit_eq_mod)
  moreover have mask: "payloadSizeMask = mask 14" by (simp add: payloadSizeMask_def mask_eq_exp_minus_1)
  have "n AND payloadSizeMask = n"
    using assms unfolding mask take_bit_eq_mask [symmetric] by (simp add: mask_eq_exp_minus_1 take_bit_nat_eq_self)
  ultimately show ?thesis by simp
qed

lemma aead_read_record:
  assumes "seal_record p w = Some (rec, w')" and "aligned w r" and "length p \<le> payloadSizeMask"
    and "pending c = rec @ rest" and "\<not> cn_closed c"
  shows "\<exists>r' c'. aead_read r c = Some (Inr p, r', c') \<and> r' = r\<lparr>r_nonce := w_nonce w'\<rparr> \<and> aligned w' r' \<and>
    pending c' = rest \<and> reads_to c c'"
proof -
  let ?len = "length p" and ?na = "w_nonce w" and ?nb = "increment (w_nonce w)"
  let ?sz = "[of_nat (?len div 256), of_nat ?len] :: byte list"
  from assms(1,2) obtain s b where sb: "Seal A ?na ?sz = Some s" "Seal A ?nb p = Some b" "rec = s @ b"
      "w' = w\<lparr>w_nonce := increment ?nb\<rparr>"
    by (auto simp: seal_record_def Let_def aligned_def go_simps)
  have fits: "length ?sz \<le> limit" "length p \<le> limit"
    using payload_fits assms(3) by (simp_all add: payloadSizeMask_def)
  let ?rb = "r\<lparr>r_nonce := ?nb\<rparr>"
  obtain c1 where c1: "open_chunk 2 r c = Some (Inr ?sz, ?rb, c1)" "pending c1 = b @ rest" "reads_to c c1"
    using open_chunk_sealed [of r ?sz s c "b @ rest"] assms(2,4,5) sb(1,3) fits(1) by (auto simp: aligned_def numeral_2_eq_2)
  obtain c2 where c2: "open_chunk ?len ?rb c1 = Some (Inr p, ?rb\<lparr>r_nonce := increment ?nb\<rparr>, c2)" "pending c2 = rest" "reads_to c1 c2"
    using open_chunk_sealed [of ?rb p b c1 rest] assms(2,5) sb(2) fits(2) c1(2,3) reads_to_fields [OF c1(3)]
    by (auto simp: aligned_def)
  have "aead_read r c = Some (Inr p, r\<lparr>r_nonce := increment ?nb\<rparr>, c2)"
    using c1(1) c2(1) size_bytes [OF assms(3)] by (simp add: aead_read_def idx_def)
  moreover have "aligned w' (r\<lparr>r_nonce := increment ?nb\<rparr>)"
    using assms(2) sb(4) by (auto simp: aligned_def)
  ultimately show ?thesis using c2(2) reads_to_trans [OF c1(3) c2(3)] sb(4) by simp
qed

end

subsection \<open>Many records\<close>

text \<open>The payloads that one \<open>Write\<close> is cut into, and the records of a list of payloads.\<close>

function chunks :: "byte list \<Rightarrow> byte list list" where
  "chunks b = (if b = [] then [] else take payloadSizeMask b # chunks (drop payloadSizeMask b))"
  by pat_completeness auto
termination by (relation "measure length") (auto simp: payloadSizeMask_def)

declare chunks.simps [simp del]

fun seal_all :: "aead_writer \<Rightarrow> byte list list \<Rightarrow> (byte list list \<times> aead_writer) go" where
  "seal_all w [] = Some ([], w)"
| "seal_all w (p # ps) = do {
     (rec, w) \<leftarrow> seal_record p w;
     (recs, w) \<leftarrow> seal_all w ps;
     Some (rec # recs, w) }"

definition payload_ok :: "byte list \<Rightarrow> bool" where
  "payload_ok p \<longleftrightarrow> p \<noteq> [] \<and> length p \<le> payloadSizeMask"

lemma payloadSizeMask_pos: "payloadSizeMask \<noteq> 0"
  by (simp add: payloadSizeMask_def)

lemma concat_chunks: "concat (chunks b) = b"
  by (induction b rule: chunks.induct) (simp add: chunks.simps)

lemma chunks_ok: "\<forall>p \<in> set (chunks b). payload_ok p"
proof (induction b rule: chunks.induct)
  case (1 b)
  show ?case
  proof (cases "b = []")
    case False
    with 1 payloadSizeMask_pos show ?thesis by (simp add: chunks.simps [of b] payload_ok_def)
  qed (simp add: chunks.simps)
qed

lemma seal_all_append:
  "seal_all w (ps @ qs) = do {
     (recs, w) \<leftarrow> seal_all w ps;
     (recs', w) \<leftarrow> seal_all w qs;
     Some (recs @ recs', w) }"
  by (induction ps arbitrary: w) (auto split: Option.bind_split)

definition sink :: "conn \<Rightarrow> bool" where
  "sink c \<longleftrightarrow> \<not> cn_closed c \<and> cn_writes c = None"

lemma sink_Write: "sink c \<Longrightarrow> conn_Write bs c = (None, c\<lparr>cn_out := cn_out c @ [bs]\<rparr>)"
  by (simp add: sink_def conn_Write_def)

lemma sink_out [simp]: "sink (c\<lparr>cn_out := x\<rparr>) = sink c"
  by (simp add: sink_def)

lemma ReadFrom_buffer:
  assumes "seal_all w (chunks b) = Some (recs, w')" and "sink c"
  shows "aead_ReadFrom buffer_Read b n w c = Some (n + length b, None, [], w', c\<lparr>cn_out := cn_out c @ recs\<rparr>)"
  using assms
proof (induction b arbitrary: n w c recs rule: chunks.induct)
  case (1 b)
  show ?case
  proof (cases "b = []")
    case True
    with "1.prems" show ?thesis
      by (subst aead_ReadFrom.simps) (simp add: buffer_Read_def chunks.simps)
  next
    case False
    then obtain rec w1 recs1 where s: "seal_record (take payloadSizeMask b) w = Some (rec, w1)"
        "seal_all w1 (chunks (drop payloadSizeMask b)) = Some (recs1, w')" "recs = rec # recs1"
      using "1.prems"(1) by (auto simp: chunks.simps [of b] go_simps)
    have rd: "buffer_Read payloadSizeMask b = ((take payloadSizeMask b, None), drop payloadSizeMask b)"
      using False by (simp add: buffer_Read_def)
    have "aead_ReadFrom buffer_Read (drop payloadSizeMask b) (n + min (length b) payloadSizeMask) w1 (c\<lparr>cn_out := cn_out c @ [rec]\<rparr>) =
        Some (n + length b, None, [], w', c\<lparr>cn_out := cn_out c @ recs\<rparr>)"
      using "1.IH" [OF False s(2), of "c\<lparr>cn_out := cn_out c @ [rec]\<rparr>" "n + min (length b) payloadSizeMask"] "1.prems"(2) s(3)
      by simp
    then show ?thesis
      using False s(1) "1.prems"(2) payloadSizeMask_pos by (subst aead_ReadFrom.simps) (simp add: rd sink_Write)
  qed
qed

lemma aead_Write_sealed:
  assumes "seal_all w (chunks b) = Some (recs, w')" and "sink c"
  shows "aead_Write b w c = Some (length b, None, w', c\<lparr>cn_out := cn_out c @ recs\<rparr>)"
  using ReadFrom_buffer [OF assms, of 0] by (simp add: aead_Write_def)

context aead_stream
begin

lemma seal_all_returns:
  assumes "w_AEAD w = A" and "length (w_nonce w) = NonceSize A" and "\<forall>p \<in> set ps. payload_ok p"
  shows "\<exists>recs w'. seal_all w ps = Some (recs, w') \<and> w_AEAD w' = A \<and> length (w_nonce w') = NonceSize A"
  using assms
proof (induction ps arbitrary: w)
  case (Cons p ps)
  then obtain rec w1 where w1: "seal_record p w = Some (rec, w1)" "w_AEAD w1 = A" "length (w_nonce w1) = NonceSize A"
    using seal_record_returns [of w p] by (auto simp: payload_ok_def)
  with Cons.IH [of w1] Cons.prems(3) show ?case by auto
qed simp

text \<open>
  \<open>carries r c pt\<close>: the reader \<open>r\<close> on the connection \<open>c\<close> still has the plaintext \<open>pt\<close> to deliver, and
  nothing after it. This is the abstraction from records and nonces to a byte stream.
\<close>

definition carries :: "aead_reader \<Rightarrow> conn \<Rightarrow> byte list \<Rightarrow> bool" where
  "carries r c pt \<longleftrightarrow> \<not> cn_closed c \<and> (\<exists>w ps recs w'. aligned w r \<and> (\<forall>p \<in> set ps. payload_ok p) \<and>
     seal_all w ps = Some (recs, w') \<and> pending c = concat recs \<and> pt = r_leftover r @ concat ps)"

lemma aligned_leftover [simp]: "aligned w (r\<lparr>r_leftover := x\<rparr>) = aligned w r"
  by (simp add: aligned_def)

lemma carries_read:
  assumes "carries r c pt" and "r_leftover r = []" and "pt \<noteq> []"
  shows "\<exists>p r' c' pt'. aead_read r c = Some (Inr p, r', c') \<and> payload_ok p \<and> pt = p @ pt' \<and>
    carries r' c' pt' \<and> r_leftover r' = [] \<and> reads_to c c'"
proof -
  from assms obtain w p ps recs w' where h: "aligned w r" "\<forall>q \<in> set (p # ps). payload_ok q"
      "seal_all w (p # ps) = Some (recs, w')" "pending c = concat recs" "pt = p @ concat ps" "\<not> cn_closed c"
    unfolding carries_def by (metis append_Nil concat.simps list.exhaust)
  then obtain rec w1 recs1 where s: "seal_record p w = Some (rec, w1)" "seal_all w1 ps = Some (recs1, w')" "recs = rec # recs1"
    by (auto simp: go_simps)
  with h obtain r' c' where rd: "aead_read r c = Some (Inr p, r', c')" "r' = r\<lparr>r_nonce := w_nonce w1\<rparr>" "aligned w1 r'"
      "pending c' = concat recs1" "reads_to c c'"
    using aead_read_record [OF s(1) h(1), of c "concat recs1"] by (auto simp: payload_ok_def)
  then have "carries r' c' (concat ps)"
    using h s(2) reads_to_fields [OF rd(5)] assms(2) by (auto simp: carries_def)
  with rd h assms(2) show ?thesis by auto
qed

lemma carries_end:
  assumes "carries r c []"
  shows "\<exists>c'. aead_read r c = Some (Inl EOF, r, c') \<and> carries r c' [] \<and> reads_to c c'"
proof -
  from assms obtain w ps recs w' where h: "aligned w r" "\<forall>p \<in> set ps. payload_ok p" "seal_all w ps = Some (recs, w')"
      "pending c = concat recs" "r_leftover r = []" "concat ps = []" "\<not> cn_closed c"
    by (auto simp: carries_def)
  then have "ps = []" by (cases ps) (auto simp: payload_ok_def)
  with h have empty: "pending c = []" by simp
  then have "aead_read r c = Some (Inl EOF, r, c\<lparr>cn_in := []\<rparr>)"
    using ReadFull_empty [OF empty h(7), of "2 + Overhead (r_AEAD r)"] by (simp add: aead_read_def open_chunk_def)
  moreover have "carries r (c\<lparr>cn_in := []\<rparr>) []"
    unfolding carries_def using h by (auto simp: pending_def intro!: exI [of _ w] exI [of _ "[]"])
  ultimately show ?thesis by auto
qed

lemma aead_Read_refines:
  assumes "carries r c pt" and "0 < len"
  shows "\<exists>bs r' c'. aead_Read len r c = Some (bs, (if pt = [] then Some EOF else None), r', c') \<and>
    (pt \<noteq> [] \<longrightarrow> bs \<noteq> []) \<and> length bs \<le> len \<and> (\<exists>pt'. pt = bs @ pt' \<and> carries r' c' pt') \<and> reads_to c c'"
proof (cases "r_leftover r = []")
  case False
  with assms(1) obtain rest where rest: "pt = r_leftover r @ rest"
    by (auto simp: carries_def)
  let ?r = "r\<lparr>r_leftover := drop len (r_leftover r)\<rparr>"
  have "carries ?r c (drop len (r_leftover r) @ rest)"
    using assms(1) rest by (auto simp: carries_def)
  with False rest assms(2) show ?thesis
    by (auto simp: aead_Read_def intro!: exI [of _ "drop len (r_leftover r) @ rest"])
next
  case True
  show ?thesis
  proof (cases "pt = []")
    case True
    with assms carries_end [of r c] \<open>r_leftover r = []\<close> show ?thesis by (auto simp: aead_Read_def)
  next
    case False
    from carries_read [OF assms(1) True False] obtain p r' c' pt' where rd: "aead_read r c = Some (Inr p, r', c')" "payload_ok p"
        "pt = p @ pt'" "carries r' c' pt'" "r_leftover r' = []" "reads_to c c'" by blast
    have "carries (r'\<lparr>r_leftover := drop len p\<rparr>) c' (drop len p @ pt')"
      using rd(4,5) by (auto simp: carries_def)
    then show ?thesis
      using rd True False assms(2)
      by (cases "len < length p") (auto simp: aead_Read_def payload_ok_def intro!: exI [of _ "drop len p @ pt'"])
  qed
qed

lemma aead_pump_delivers:
  assumes "carries r c pt" and "r_leftover r = []" and "sink d"
  shows "\<exists>r' c' d'. aead_pump n r c d = Some (n + length pt, None, r', c', d') \<and>
    concat (cn_out d') = concat (cn_out d) @ pt"
  using assms
proof (induction "length pt" arbitrary: n r c d pt rule: less_induct)
  case less
  show ?case
  proof (cases "pt = []")
    case True
    with less.prems carries_end [of r c] show ?thesis
      by (subst aead_pump.simps) auto
  next
    case False
    from carries_read [OF less.prems(1,2) False] obtain p r' c' pt' where rd: "aead_read r c = Some (Inr p, r', c')"
        "payload_ok p" "pt = p @ pt'" "carries r' c' pt'" "r_leftover r' = []" by blast
    let ?d = "d\<lparr>cn_out := cn_out d @ [p]\<rparr>"
    have "length pt' < length pt" using rd(2,3) by (simp add: payload_ok_def)
    from less.hyps [OF this rd(4,5), of ?d "n + length p"] less.prems(3)
    obtain r2 c2 d2 where "aead_pump (n + length p) r' c' ?d = Some (n + length p + length pt', None, r2, c2, d2)"
        "concat (cn_out d2) = concat (cn_out ?d) @ pt'" by auto
    then show ?thesis
      using rd less.prems(3) by (subst aead_pump.simps) (simp add: sink_Write payload_ok_def)
  qed
qed

lemma aead_WriteTo_delivers:
  assumes "carries r c pt" and "sink d"
  shows "\<exists>r' c' d'. aead_WriteTo r c d = Some (length pt, None, r', c', d') \<and>
    concat (cn_out d') = concat (cn_out d) @ pt"
proof (cases "r_leftover r = []")
  case True
  with aead_pump_delivers [OF assms(1) True assms(2), of 0] show ?thesis by (simp add: aead_WriteTo_def)
next
  case False
  from assms(1) obtain pt' where pt: "pt = r_leftover r @ pt'" by (auto simp: carries_def)
  then have "carries (r\<lparr>r_leftover := []\<rparr>) c pt'"
    using assms(1) by (auto simp: carries_def)
  from aead_pump_delivers [OF this, of "d\<lparr>cn_out := cn_out d @ [r_leftover r]\<rparr>" "length (r_leftover r)"]
  show ?thesis using False assms(2) pt by (simp add: aead_WriteTo_def sink_Write)
qed

end

text \<open>A sequence of calls of \<open>Read\<close> on a connection: what each stored and its error.\<close>

fun conn_reads :: "nat list \<Rightarrow> streamConn \<Rightarrow> ((byte list \<times> go_error option) list \<times> streamConn) go" where
  "conn_reads [] sc = Some ([], sc)"
| "conn_reads (len # lens) sc = do {
     (bs, err, sc) \<leftarrow> streamConn_Read len sc;
     (rs, sc) \<leftarrow> conn_reads lens sc;
     Some ((bs, err) # rs, sc) }"

text \<open>
  What the calls of \<open>Read\<close> may answer on a plain byte stream that holds \<open>pt\<close> and is then at its end:
  each a non-empty prefix of what is left, no longer than asked for, then always \<open>io.EOF\<close>.
\<close>

fun stream_run :: "byte list \<Rightarrow> nat list \<Rightarrow> (byte list \<times> go_error option) list \<Rightarrow> bool" where
  "stream_run pt [] [] \<longleftrightarrow> True"
| "stream_run pt (len # lens) ((bs, err) # rs) \<longleftrightarrow>
     (if pt = [] then bs = [] \<and> err = Some EOF
      else bs \<noteq> [] \<and> length bs \<le> len \<and> take (length bs) pt = bs \<and> err = None) \<and>
     stream_run (drop (length bs) pt) lens rs"
| "stream_run pt _ _ \<longleftrightarrow> False"

subsection \<open>Connections\<close>

text \<open>A sequence of successful calls of \<open>Write\<close>.\<close>

definition sends :: "(nat \<Rightarrow> go_error + byte list) \<Rightarrow> byte list list \<Rightarrow> streamConn \<Rightarrow> streamConn go" where
  "sends rnd bss sc = foldM (\<lambda>sc b. do {
     (n, err, sc) \<leftarrow> streamConn_Write rnd b sc;
     (if err = None \<and> n = length b then Some sc else None) }) sc bss"

context aead_stream
begin

definition sent :: "byte list \<Rightarrow> byte list \<Rightarrow> streamConn \<Rightarrow> bool" where
  "sent salt pt sc \<longleftrightarrow> sink (sc_Conn sc) \<and> (\<exists>w ps recs. sc_w sc = Some w \<and> w_AEAD w = A \<and>
     length (w_nonce w) = NonceSize A \<and> (\<forall>p \<in> set ps. payload_ok p) \<and>
     seal_all (newWriter A) ps = Some (recs, w) \<and> cn_out (sc_Conn sc) = salt # recs \<and> pt = concat ps)"

lemma sent_Write:
  assumes "sent salt pt sc"
  shows "\<exists>sc'. streamConn_Write rnd b sc = Some (length b, None, sc') \<and> sent salt (pt @ b) sc'"
proof -
  from assms obtain w ps recs where h: "sink (sc_Conn sc)" "sc_w sc = Some w" "w_AEAD w = A" "length (w_nonce w) = NonceSize A"
      "\<forall>p \<in> set ps. payload_ok p" "seal_all (newWriter A) ps = Some (recs, w)" "cn_out (sc_Conn sc) = salt # recs" "pt = concat ps"
    by (auto simp: sent_def)
  obtain recs' w' where s: "seal_all w (chunks b) = Some (recs', w')" "w_AEAD w' = A" "length (w_nonce w') = NonceSize A"
    using seal_all_returns [OF h(3,4) chunks_ok] by blast
  let ?sc = "sc\<lparr>sc_Conn := (sc_Conn sc)\<lparr>cn_out := cn_out (sc_Conn sc) @ recs'\<rparr>, sc_w := Some w'\<rparr>"
  have "streamConn_Write rnd b sc = Some (length b, None, ?sc)"
    using aead_Write_sealed [OF s(1) h(1)] h(2) by (simp add: streamConn_Write_def with_writer_def)
  moreover have "sent salt (pt @ b) ?sc"
    unfolding sent_def using h s chunks_ok [of b]
    by (auto simp: seal_all_append concat_chunks intro!: exI [of _ "ps @ chunks b"])
  ultimately show ?thesis by blast
qed

lemma sent_all: "sent salt pt sc \<Longrightarrow> \<exists>sc'. sends rnd bss sc = Some sc' \<and> sent salt (pt @ concat bss) sc'"
proof (induction bss arbitrary: sc pt)
  case (Cons b bss)
  obtain sc1 where sc1: "streamConn_Write rnd b sc = Some (length b, None, sc1)" "sent salt (pt @ b) sc1"
    using sent_Write [OF Cons.prems, of rnd b] by blast
  then show ?case using Cons.IH [OF sc1(2)] by (simp add: sends_def)
qed (simp add: sends_def)

lemma first_Write:
  assumes "rnd (SaltSize ciph) = Inr salt" and "Encrypter ciph salt = Some (Inr A)" and "sink c" and "cn_out c = []"
  shows "\<exists>sc'. streamConn_Write rnd b (NewConn c ciph) = Some (length b, None, sc') \<and> sent salt b sc'"
proof -
  let ?sc = "\<lparr>sc_Conn = c\<lparr>cn_out := [salt]\<rparr>, sc_Cipher = ciph, sc_r = None, sc_w = Some (newWriter A)\<rparr>"
  have "sent salt [] ?sc"
    using assms(3) unfolding sent_def by (auto simp: newWriter_def intro!: exI [of _ "[]"])
  from sent_Write [OF this, of rnd b] show ?thesis
    using assms by (simp add: streamConn_Write_def with_writer_def initWriter_def NewConn_def sink_Write)
qed

lemma sent_carries:
  assumes "sent salt pt sc" and "pending c = concat (cn_out (sc_Conn sc))" and "\<not> cn_closed c"
    and "length salt = SaltSize ciph" and "Decrypter ciph salt = Some (Inr A)"
  shows "\<exists>c'. with_reader (NewConn c ciph) = Some (None, (NewConn c ciph)\<lparr>sc_Conn := c', sc_r := Some (newReader A)\<rparr>) \<and>
    carries (newReader A) c' pt"
proof -
  from assms(1) obtain w ps recs where h: "\<forall>p \<in> set ps. payload_ok p" "seal_all (newWriter A) ps = Some (recs, w)"
      "cn_out (sc_Conn sc) = salt # recs" "pt = concat ps"
    by (auto simp: sent_def)
  then obtain c' where c': "ReadFull (SaltSize ciph) c = (Inr salt, c')" "pending c' = concat recs" "reads_to c c'"
    using ReadFull_enough [of "SaltSize ciph" c] assms(2-4) by auto
  have "\<not> cn_closed c'" using reads_to_fields [OF c'(3)] assms(3) by simp
  moreover have "pt = r_leftover (newReader A) @ concat ps" using h(4) by (simp add: newReader_def)
  ultimately have "carries (newReader A) c' pt"
    unfolding carries_def using h(1,2) c'(2) new_aligned by blast
  with c'(1) assms(5) show ?thesis by (simp add: with_reader_def initReader_def NewConn_def)
qed

text \<open>A receiver whose reader is set up answers every sequence of reads from the plaintext it still carries.\<close>

lemma receiver_reads:
  assumes "sc_r sc = Some r" and "carries r (sc_Conn sc) pt" and "\<forall>len \<in> set lens. 0 < len"
  shows "\<exists>rs sc'. conn_reads lens sc = Some (rs, sc') \<and> stream_run pt lens rs"
  using assms
proof (induction lens arbitrary: sc r pt)
  case (Cons len lens)
  have "0 < len" using Cons.prems(3) by simp
  from aead_Read_refines [OF Cons.prems(2) this]
  obtain bs r' c' pt' where rd: "aead_Read len r (sc_Conn sc) = Some (bs, (if pt = [] then Some EOF else None), r', c')"
      "pt \<noteq> [] \<longrightarrow> bs \<noteq> []" "length bs \<le> len" "pt = bs @ pt'" "carries r' c' pt'"
    by blast
  let ?sc = "sc\<lparr>sc_Conn := c', sc_r := Some r'\<rparr>"
  have "streamConn_Read len sc = Some (bs, (if pt = [] then Some EOF else None), ?sc)"
    using rd(1) Cons.prems(1) by (simp add: streamConn_Read_def with_reader_def)
  moreover obtain rs sc' where "conn_reads lens ?sc = Some (rs, sc')" "stream_run pt' lens rs"
    using Cons.IH [of ?sc r' pt'] rd(5) Cons.prems(3) by fastforce
  moreover have "take (length bs) pt = bs" "drop (length bs) pt = pt'" by (simp_all add: rd(4))
  moreover have "pt = [] \<Longrightarrow> bs = []" using rd(4) by simp
  ultimately show ?case using rd(2,3) by simp
qed simp

lemma stream_read_back:
  assumes "rnd (SaltSize ciph) = Inr salt" and "length salt = SaltSize ciph"
    and "Encrypter ciph salt = Some (Inr A)" and "Decrypter ciph salt = Some (Inr A)" and "sink c" and "cn_out c = []"
  shows "\<exists>sc. sends rnd (b # bss) (NewConn c ciph) = Some sc \<and>
    (\<forall>segs lens. concat segs = concat (cn_out (sc_Conn sc)) \<and> (\<forall>len \<in> set lens. 0 < len) \<longrightarrow>
       (\<exists>rs rc. conn_reads lens (NewConn (arriving segs) ciph) = Some (rs, rc) \<and> stream_run (b @ concat bss) lens rs))"
proof -
  obtain sc0 where "streamConn_Write rnd b (NewConn c ciph) = Some (length b, None, sc0)" "sent salt b sc0"
    using first_Write [where rnd = rnd and ciph = ciph and c = c, OF assms(1,3,5,6)] by blast
  then obtain sc where sc: "sends rnd (b # bss) (NewConn c ciph) = Some sc" "sent salt (b @ concat bss) sc"
    using sent_all [of salt b sc0 rnd bss] by (auto simp: sends_def)
  have "\<exists>rs rc. conn_reads lens (NewConn (arriving segs) ciph) = Some (rs, rc) \<and> stream_run (b @ concat bss) lens rs"
    if segs: "concat segs = concat (cn_out (sc_Conn sc))" and lens: "\<forall>len \<in> set lens. 0 < len" for segs lens
  proof -
    let ?fresh = "NewConn (arriving segs) ciph"
    have "pending (arriving segs) = concat (cn_out (sc_Conn sc))" "\<not> cn_closed (arriving segs)"
      using segs by (simp_all add: pending_def arriving_def)
    with sent_carries [OF sc(2) _ _ assms(2,4)] obtain c' where c': "with_reader ?fresh =
        Some (None, ?fresh\<lparr>sc_Conn := c', sc_r := Some (newReader A)\<rparr>)" "carries (newReader A) c' (b @ concat bss)" by blast
    let ?sc = "?fresh\<lparr>sc_Conn := c', sc_r := Some (newReader A)\<rparr>"
    obtain rs rc where "conn_reads lens ?sc = Some (rs, rc)" "stream_run (b @ concat bss) lens rs"
      using receiver_reads [of ?sc "newReader A" "b @ concat bss" lens] c'(2) lens by auto
    moreover have "streamConn_Read len ?fresh = streamConn_Read len ?sc" for len
      using c'(1) by (simp add: streamConn_Read_def with_reader_def)
    ultimately show ?thesis by (cases lens) (simp_all only: conn_reads.simps, auto)
  qed
  with sc(1) show ?thesis by blast
qed

lemma stream_delivers:
  assumes "rnd (SaltSize ciph) = Inr salt" and "length salt = SaltSize ciph"
    and "Encrypter ciph salt = Some (Inr A)" and "Decrypter ciph salt = Some (Inr A)" and "sink c" and "cn_out c = []"
  shows "\<exists>sc. sends rnd (b # bss) (NewConn c ciph) = Some sc \<and>
    (\<forall>segs. concat segs = concat (cn_out (sc_Conn sc)) \<longrightarrow>
       (\<exists>rc d. streamConn_WriteTo (NewConn (arriving segs) ciph) (arriving []) = Some (length (b @ concat bss), None, rc, d) \<and>
          concat (cn_out d) = b @ concat bss))"
proof -
  obtain sc0 where "streamConn_Write rnd b (NewConn c ciph) = Some (length b, None, sc0)" "sent salt b sc0"
    using first_Write [where rnd = rnd and ciph = ciph and c = c, OF assms(1,3,5,6)] by blast
  then obtain sc where sc: "sends rnd (b # bss) (NewConn c ciph) = Some sc" "sent salt (b @ concat bss) sc"
    using sent_all [of salt b sc0 rnd bss] by (auto simp: sends_def)
  have "\<exists>rc d. streamConn_WriteTo (NewConn (arriving segs) ciph) (arriving []) = Some (length (b @ concat bss), None, rc, d) \<and>
      concat (cn_out d) = b @ concat bss" if segs: "concat segs = concat (cn_out (sc_Conn sc))" for segs
  proof -
    have "pending (arriving segs) = concat (cn_out (sc_Conn sc))" "\<not> cn_closed (arriving segs)" "sink (arriving [])"
      using segs by (simp_all add: pending_def arriving_def sink_def)
    with sent_carries [OF sc(2) _ _ assms(2,4)] obtain c' where "with_reader (NewConn (arriving segs) ciph) =
        Some (None, (NewConn (arriving segs) ciph)\<lparr>sc_Conn := c', sc_r := Some (newReader A)\<rparr>)"
        "carries (newReader A) c' (b @ concat bss)" by blast
    with aead_WriteTo_delivers [OF this(2) \<open>sink (arriving [])\<close>] show ?thesis
      by (auto simp: streamConn_WriteTo_def) (simp add: arriving_def)
  qed
  with sc(1) show ?thesis by blast
qed

end

subsection \<open>The ChaCha20-Poly1305 cipher\<close>

interpretation c20s: aead_stream "chacha20poly1305 key" "2 ^ 38 - 64" for key
  by unfold_locales (simp add: payloadSizeMask_def)

lemma hkdfSHA1_returns:
  assumes "\<And>k x. length (hmac k x) = 20" and "n \<le> 5100"
  shows "\<exists>key. hkdfSHA1 hmac secret salt info n = Some key \<and> length key = n"
  using hkdf_Read_from [of hmac 20 n secret salt info] hkdf_from_length [of "hmac (hmac salt secret)" 20 info 0 n] assms
  by (auto simp: hkdfSHA1_def)

lemma Chacha20Poly1305_cipher:
  assumes "\<And>k x. length (hmac k x) = 20" and "length psk = 32"
  shows "\<exists>ciph. Chacha20Poly1305 hmac psk = Inr ciph \<and> SaltSize ciph = 32 \<and>
    (\<forall>salt. \<exists>key. Encrypter ciph salt = Some (Inr (chacha20poly1305 key)) \<and>
       Decrypter ciph salt = Some (Inr (chacha20poly1305 key)))"
proof -
  have "\<exists>key. meta_AEAD hmac c20_New psk salt = Some (Inr (chacha20poly1305 key))" for salt
    using hkdfSHA1_returns [of hmac 32 psk salt ss_subkey] assms by (auto simp: meta_AEAD_def c20_New_def c20_KeySize_def)
  then show ?thesis using assms(2) by (simp add: Chacha20Poly1305_def c20_KeySize_def metaCipher_def)
qed

text \<open>
  C4. A Shadowsocks AEAD connection is a byte stream: with the ChaCha20-Poly1305 cipher of a 32-byte
  key, any non-empty sequence of writes on a fresh connection succeeds, and whatever way the network
  cuts the bytes that were sent, the receiver with the same key copies out exactly the plaintext
  of all writes in order, reports their total length and no error.
\<close>

theorem shadow_stream_roundtrip:
  assumes "\<And>k x. length (hmac k x) = 20" and "length psk = 32" and "rnd 32 = Inr salt" and "length salt = 32"
  shows "\<exists>ciph sc. Chacha20Poly1305 hmac psk = Inr ciph \<and> sends rnd (b # bss) (NewConn (arriving []) ciph) = Some sc \<and>
    (\<forall>segs. concat segs = concat (cn_out (sc_Conn sc)) \<longrightarrow>
       (\<exists>rc d. streamConn_WriteTo (NewConn (arriving segs) ciph) (arriving []) = Some (length (b @ concat bss), None, rc, d) \<and>
          concat (cn_out d) = b @ concat bss))"
proof -
  obtain ciph key where ciph: "Chacha20Poly1305 hmac psk = Inr ciph" "SaltSize ciph = 32"
      "Encrypter ciph salt = Some (Inr (chacha20poly1305 key))" "Decrypter ciph salt = Some (Inr (chacha20poly1305 key))"
    using Chacha20Poly1305_cipher [of hmac psk] assms(1,2) by blast
  have c: "sink (arriving [])" "cn_out (arriving []) = []" by (simp_all add: sink_def arriving_def)
  show ?thesis
    using c20s.stream_delivers [where rnd = rnd and ciph = ciph and salt = salt and key = key and c = "arriving []" and b = b and bss = bss]
      ciph assms(3,4) c by auto
qed

text \<open>A keyed checksum with digests of twenty bytes, in the place of HMAC-SHA1.\<close>

definition demo_hmac20 :: "byte list \<Rightarrow> byte list \<Rightarrow> byte list" where
  "demo_hmac20 k x = replicate 16 0 @ demo_hmac k x"

lemma length_demo_hmac20 [simp]: "length (demo_hmac20 k x) = 20"
  by (simp add: demo_hmac20_def demo_hmac_def)

theorem shadow_stream_roundtrip_witness:
  "\<exists>ciph sc rc d. Chacha20Poly1305 demo_hmac20 (replicate 32 7) = Inr ciph \<and>
    sends (\<lambda>n. Inr (replicate n 5)) [[1, 2], [3]] (NewConn (arriving []) ciph) = Some sc \<and>
    streamConn_WriteTo (NewConn (arriving (cn_out (sc_Conn sc))) ciph) (arriving []) = Some (3, None, rc, d) \<and>
    concat (cn_out d) = [1, 2, 3]"
  using shadow_stream_roundtrip [of demo_hmac20 "replicate 32 7" "\<lambda>n. Inr (replicate n 5)" "replicate 32 5" "[1, 2]" "[[3]]"]
  by auto

text \<open>
  C11. \<open>Read\<close> on a Shadowsocks AEAD connection refines a byte stream: after any non-empty sequence of
  writes on a fresh connection with the ChaCha20-Poly1305 cipher, and whatever way the network cuts
  the bytes that were sent, every sequence of calls of \<open>Read\<close> with positive lengths on a fresh receiver
  with the same key returns, and answers like a plain stream of the bytes of all writes: non-empty pieces no
  longer than asked for that continue one another without an error, then \<open>io.EOF\<close> exactly when nothing is
  left. No salt and no record boundary is visible.
\<close>

theorem shadow_Read_refines_stream:
  assumes "\<And>k x. length (hmac k x) = 20" and "length psk = 32" and "rnd 32 = Inr salt" and "length salt = 32"
  shows "\<exists>ciph sc. Chacha20Poly1305 hmac psk = Inr ciph \<and> sends rnd (b # bss) (NewConn (arriving []) ciph) = Some sc \<and>
    (\<forall>segs lens. concat segs = concat (cn_out (sc_Conn sc)) \<and> (\<forall>len \<in> set lens. 0 < len) \<longrightarrow>
       (\<exists>rs rc. conn_reads lens (NewConn (arriving segs) ciph) = Some (rs, rc) \<and> stream_run (b @ concat bss) lens rs))"
proof -
  obtain ciph key where ciph: "Chacha20Poly1305 hmac psk = Inr ciph" "SaltSize ciph = 32"
      "Encrypter ciph salt = Some (Inr (chacha20poly1305 key))" "Decrypter ciph salt = Some (Inr (chacha20poly1305 key))"
    using Chacha20Poly1305_cipher [of hmac psk] assms(1,2) by blast
  have c: "sink (arriving [])" "cn_out (arriving []) = []" by (simp_all add: sink_def arriving_def)
  show ?thesis
    using c20s.stream_read_back [where rnd = rnd and ciph = ciph and salt = salt and key = key and c = "arriving []" and b = b and bss = bss]
      ciph assms(3,4) c by auto
qed

theorem shadow_Read_refines_stream_witness:
  "\<exists>ciph sc rs rc. Chacha20Poly1305 demo_hmac20 (replicate 32 7) = Inr ciph \<and>
    sends (\<lambda>n. Inr (replicate n 5)) [[1, 2], [3]] (NewConn (arriving []) ciph) = Some sc \<and>
    conn_reads [1, 5, 1, 9] (NewConn (arriving (cn_out (sc_Conn sc))) ciph) = Some (rs, rc) \<and>
    stream_run [1, 2, 3] [1, 5, 1, 9] rs"
proof -
  obtain ciph sc where "Chacha20Poly1305 demo_hmac20 (replicate 32 7) = Inr ciph"
      "sends (\<lambda>n. Inr (replicate n 5)) [[1, 2], [3]] (NewConn (arriving []) ciph) = Some sc"
      "\<forall>segs lens. concat segs = concat (cn_out (sc_Conn sc)) \<and> (\<forall>len \<in> set lens. 0 < len) \<longrightarrow>
         (\<exists>rs rc. conn_reads lens (NewConn (arriving segs) ciph) = Some (rs, rc) \<and> stream_run [1, 2, 3] lens rs)"
    using shadow_Read_refines_stream [of demo_hmac20 "replicate 32 7" "\<lambda>n. Inr (replicate n 5)" "replicate 32 5" "[1, 2]" "[[3]]"]
    by auto
  moreover from this(3) [rule_format, of "cn_out (sc_Conn sc)" "[1, 5, 1, 9]"]
  have "\<exists>rs rc. conn_reads [1, 5, 1, 9] (NewConn (arriving (cn_out (sc_Conn sc))) ciph) = Some (rs, rc) \<and>
      stream_run [1, 2, 3] [1, 5, 1, 9] rs" by auto
  ultimately show ?thesis by blast
qed

end
