(* ===== verification/ShadowAeadPacket.thy ===== *)
theory ShadowAeadPacket
  imports ShadowAeadStream
begin

text \<open>
  Encrypted packets (\<^verbatim>\<open>src/proxyPool/ProxyClient/shadowaead/packet.go\<close>): every packet has its own
  salt and is sealed with the zero nonce. A receiver opens it from its buffer to the front of the same
  buffer, so the rule of the ciphers on overlapping memory is part of the model. Also here: what a stream receiver reports when the
  ciphertext ends between the two chunks of a record.
\<close>

subsection \<open>Packet connections\<close>

text \<open>
  A \<open>net.PacketConn\<close>: the datagrams to come with their senders, those sent, and the errors the
  network will report for the next sends.
\<close>

record pconn =
  pc_in :: "(byte list \<times> string) list"
  pc_out :: "(byte list \<times> string) list"
  pc_errs :: "go_error option list"

text \<open>A read into a buffer of \<open>len\<close> bytes drops what does not fit.\<close>

definition pconn_ReadFrom :: "nat \<Rightarrow> pconn \<Rightarrow> (byte list \<times> string \<times> go_error option) \<times> pconn" where
  "pconn_ReadFrom len c = (case pc_in c of
       [] \<Rightarrow> (([], [], Some ErrClosed), c)
     | (d, addr) # ds \<Rightarrow> ((take len d, addr, None), c\<lparr>pc_in := ds\<rparr>))"

definition pconn_WriteTo :: "byte list \<Rightarrow> string \<Rightarrow> pconn \<Rightarrow> go_error option \<times> pconn" where
  "pconn_WriteTo b addr c = (case pc_errs c of
       Some e # es \<Rightarrow> (Some e, c\<lparr>pc_errs := es\<rparr>)
     | None # es \<Rightarrow> (None, c\<lparr>pc_errs := es, pc_out := pc_out c @ [(b, addr)]\<rparr>)
     | [] \<Rightarrow> (None, c\<lparr>pc_out := pc_out c @ [(b, addr)]\<rparr>))"

subsection \<open>packet.go\<close>

definition ErrShortPacket :: go_error where
  "ErrShortPacket = Sentinel ''shadowaead.ErrShortPacket''"

text \<open>\<open>_zerononce[:n]\<close> of the 128-byte array.\<close>

definition zerononce :: "nat \<Rightarrow> byte list go" where
  "zerononce n = slice (replicate 128 0) 0 n"

text \<open>\<open>dst\<close> is the length of the destination buffer; slicing it to the salt panics if it is shorter.\<close>

definition Pack :: "(nat \<Rightarrow> go_error + byte list) \<Rightarrow> nat \<Rightarrow> byte list \<Rightarrow> Cipher \<Rightarrow> (go_error + byte list) go" where
  "Pack rnd dst plaintext ciph =
     (let saltSize = SaltSize ciph in
      if dst < saltSize then None
      else (case rnd saltSize of
        Inl err \<Rightarrow> Some (Inl err)
      | Inr salt \<Rightarrow> do {
          aead \<leftarrow> Encrypter ciph salt;
          (case aead of
             Inl err \<Rightarrow> Some (Inl err)
           | Inr a \<Rightarrow>
               if dst < saltSize + length plaintext + Overhead a then Some (Inl ErrShortBuffer)
               else do {
                 nonce \<leftarrow> zerononce (NonceSize a);
                 b \<leftarrow> Seal a nonce plaintext;
                 Some (Inr (salt @ b)) }) }))"

text \<open>
  \<open>shared\<close>: the packet is the front of the destination buffer, as \<open>ReadFrom\<close> calls it, so that the plaintext
  is stored over the salt and, if it is longer, over the ciphertext; otherwise they are disjoint.
\<close>

definition Unpack :: "bool \<Rightarrow> nat \<Rightarrow> byte list \<Rightarrow> Cipher \<Rightarrow> (go_error + byte list) go" where
  "Unpack shared dst pkt ciph =
     (let saltSize = SaltSize ciph in
      if length pkt < saltSize then Some (Inl ErrShortPacket)
      else do {
        aead \<leftarrow> Decrypter ciph (take saltSize pkt);
        (case aead of
           Inl err \<Rightarrow> Some (Inl err)
         | Inr a \<Rightarrow>
             if length pkt < saltSize + Overhead a then Some (Inl ErrShortPacket)
             else if saltSize + dst + Overhead a < length pkt then Some (Inl ErrShortBuffer)
             else do {
               nonce \<leftarrow> zerononce (NonceSize a);
               (if shared then OpenAhead a saltSize nonce pkt else Open a nonce (drop saltSize pkt)) }) })"

record packetConn =
  pk_Conn :: pconn
  pk_Cipher :: Cipher
  pk_buf :: nat

definition NewPacketConn :: "pconn \<Rightarrow> Cipher \<Rightarrow> packetConn" where
  "NewPacketConn c ciph = \<lparr>pk_Conn = c, pk_Cipher = ciph, pk_buf = 64 * 1024\<rparr>"

definition packetConn_WriteTo ::
  "(nat \<Rightarrow> go_error + byte list) \<Rightarrow> byte list \<Rightarrow> string \<Rightarrow> packetConn \<Rightarrow> (nat \<times> go_error option \<times> packetConn) go" where
  "packetConn_WriteTo rnd b addr c = do {
     buf \<leftarrow> Pack rnd (pk_buf c) b (pk_Cipher c);
     (case buf of
        Inl err \<Rightarrow> Some (0, Some err, c)
      | Inr p \<Rightarrow> (case pconn_WriteTo p addr (pk_Conn c) of
          (err, pc) \<Rightarrow> Some (length b, err, c\<lparr>pk_Conn := pc\<rparr>))) }"

text \<open>
  \<open>ReadFrom\<close> into a buffer of \<open>len\<close> bytes: the plaintext found in it, the sender, the error. The packet is
  read into the same buffer in which it is then unpacked.
\<close>

definition packetConn_ReadFrom ::
  "nat \<Rightarrow> packetConn \<Rightarrow> (byte list \<times> string \<times> go_error option \<times> packetConn) go" where
  "packetConn_ReadFrom len c = (case pconn_ReadFrom len (pk_Conn c) of
       ((d, addr, Some err), pc) \<Rightarrow> Some (d, addr, Some err, c\<lparr>pk_Conn := pc\<rparr>)
     | ((d, addr, None), pc) \<Rightarrow> do {
         b \<leftarrow> Unpack True len d (pk_Cipher c);
         Some (case b of Inl err \<Rightarrow> ([], addr, Some err, c\<lparr>pk_Conn := pc\<rparr>)
               | Inr p \<Rightarrow> (p, addr, None, c\<lparr>pk_Conn := pc\<rparr>)) })"

subsection \<open>Round trip\<close>

lemma zerononce_length: "n \<le> 128 \<Longrightarrow> \<exists>z. zerononce n = Some z \<and> length z = n"
  by (simp add: zerononce_def slice_def)

context aead_contract
begin

lemma Pack_Unpack:
  assumes "rnd (SaltSize ciph) = Inr salt" and "length salt = SaltSize ciph" and "NonceSize A \<le> 128"
    and "Encrypter ciph salt = Some (Inr A)" and "Decrypter ciph salt = Some (Inr A)"
    and "length p \<le> limit" and "SaltSize ciph + length p + Overhead A \<le> dst" and "length p \<le> dst'"
  shows "\<exists>pkt z. Pack rnd dst p ciph = Some (Inr pkt) \<and> length pkt = SaltSize ciph + length p + Overhead A \<and>
    Open A z (drop (SaltSize ciph) pkt) = Some (Inr p) \<and>
    Unpack False dst' pkt ciph = Some (Inr p) \<and> Unpack True dst' pkt ciph = OpenAhead A (SaltSize ciph) z pkt"
proof -
  obtain z where z: "zerononce (NonceSize A) = Some z" "length z = NonceSize A"
    using zerononce_length [OF assms(3)] by blast
  obtain ct where "Seal A z p = Some ct" "length ct = length p + Overhead A" "Open A z ct = Some (Inr p)"
    using Seal_returns [OF z(2) assms(6)] by blast
  with z(1) assms show ?thesis by (auto simp: Pack_def Unpack_def Let_def)
qed

text \<open>
  A datagram is read back when its text is no longer than the salt, so that nothing overlaps, or when
  the cipher does not mind; a cipher that enforces the rule panics on a longer one.
\<close>

lemma packet_roundtrip:
  assumes "rnd (SaltSize ciph) = Inr salt" and "length salt = SaltSize ciph" and "NonceSize A \<le> 128"
    and "Encrypter ciph salt = Some (Inr A)" and "Decrypter ciph salt = Some (Inr A)"
    and "length p \<le> limit" and "SaltSize ciph + length p + Overhead A \<le> 64 * 1024" and "SaltSize ciph + length p + Overhead A \<le> len"
    and "pc_errs tx = []"
  shows "\<exists>pkt. packetConn_WriteTo rnd p addr (NewPacketConn tx ciph) =
      Some (length p, None, NewPacketConn (tx\<lparr>pc_out := pc_out tx @ [(pkt, addr)]\<rparr>) ciph) \<and>
    (\<forall>rx src ds. pc_in rx = (pkt, src) # ds \<longrightarrow>
      (open_anyhow A \<or> open_apart A \<and> length p \<le> SaltSize ciph \<longrightarrow>
         packetConn_ReadFrom len (NewPacketConn rx ciph) = Some (p, src, None, NewPacketConn (rx\<lparr>pc_in := ds\<rparr>) ciph)) \<and>
      (open_strict A \<and> 0 < SaltSize ciph \<and> SaltSize ciph < length p \<longrightarrow>
         packetConn_ReadFrom len (NewPacketConn rx ciph) = None))"
proof -
  obtain pkt z where pkt: "Pack rnd (64 * 1024) p ciph = Some (Inr pkt)" "length pkt = SaltSize ciph + length p + Overhead A"
      "Open A z (drop (SaltSize ciph) pkt) = Some (Inr p)" "Unpack True len pkt ciph = OpenAhead A (SaltSize ciph) z pkt"
    using Pack_Unpack [where dst = "64 * 1024" and dst' = len and rnd = rnd and ciph = ciph and salt = salt and p = p] assms by auto
  have n: "length pkt - SaltSize ciph - Overhead A = length p" using pkt(2) by simp
  have "OpenAhead A (SaltSize ciph) z pkt = Some (Inr p)" if "open_anyhow A \<or> open_apart A \<and> length p \<le> SaltSize ciph"
    using that n pkt(3) by (auto simp: open_anyhow_def open_apart_def inexact_overlap_def)
  moreover have "OpenAhead A (SaltSize ciph) z pkt = None" if "open_strict A \<and> 0 < SaltSize ciph \<and> SaltSize ciph < length p"
    using that n by (auto simp: open_strict_def inexact_overlap_def)
  ultimately show ?thesis
    using pkt(1,2,4) assms(8,9)
    by (intro exI [of _ pkt])
      (auto simp: packetConn_WriteTo_def packetConn_ReadFrom_def NewPacketConn_def pconn_WriteTo_def pconn_ReadFrom_def)
qed

end

text \<open>
  A datagram survives the trip: with the ChaCha20-Poly1305 cipher, a payload that fits with its
  48 bytes of salt and tag into 64 KiB is sent as one packet, and the receiver with the same
  key whose buffer holds the whole packet gets exactly the payload and the sender's address.
\<close>

lemma shadow_packet_roundtrip:
  assumes "\<And>k x. length (hmac k x) = 20" and "length psk = 32" and "rnd 32 = Inr salt" and "length salt = 32"
    and "length p + 48 \<le> 64 * 1024" and "length p + 48 \<le> len" and "pc_errs tx = []"
  shows "\<exists>ciph pkt. Chacha20Poly1305 hmac psk = Inr ciph \<and>
    packetConn_WriteTo rnd p addr (NewPacketConn tx ciph) =
      Some (length p, None, NewPacketConn (tx\<lparr>pc_out := pc_out tx @ [(pkt, addr)]\<rparr>) ciph) \<and>
    (\<forall>rx src ds. pc_in rx = (pkt, src) # ds \<longrightarrow>
      packetConn_ReadFrom len (NewPacketConn rx ciph) = Some (p, src, None, NewPacketConn (rx\<lparr>pc_in := ds\<rparr>) ciph))"
proof -
  obtain ciph key where ciph: "Chacha20Poly1305 hmac psk = Inr ciph" "SaltSize ciph = 32"
      "Encrypter ciph salt = Some (Inr (chacha20poly1305 key))" "Decrypter ciph salt = Some (Inr (chacha20poly1305 key))"
    using Chacha20Poly1305_cipher [of hmac psk] assms(1,2) by blast
  have "NonceSize (chacha20poly1305 key) \<le> 128" "Overhead (chacha20poly1305 key) = 16" "length p \<le> 2 ^ 38 - 64"
    using assms(5) by (simp_all add: chacha20poly1305_def c20_NonceSize_def)
  then show ?thesis
    using c20.packet_roundtrip [where rnd = rnd and ciph = ciph and salt = salt and key = key and p = p and len = len and tx = tx and addr = addr]
      ciph assms(3-) c20_open_anyhow [of key] by auto
qed

definition demo_pconn :: pconn where
  "demo_pconn = \<lparr>pc_in = [], pc_out = [], pc_errs = []\<rparr>"

lemma shadow_packet_roundtrip_witness:
  "\<exists>ciph pkt. Chacha20Poly1305 demo_hmac20 (replicate 32 7) = Inr ciph \<and>
    packetConn_WriteTo (\<lambda>n. Inr (replicate n 5)) [1, 2, 3] ''a'' (NewPacketConn demo_pconn ciph) =
      Some (3, None, NewPacketConn (demo_pconn\<lparr>pc_out := [(pkt, ''a'')]\<rparr>) ciph) \<and>
    packetConn_ReadFrom 100 (NewPacketConn (demo_pconn\<lparr>pc_in := [(pkt, ''b'')]\<rparr>) ciph) =
      Some ([1, 2, 3], ''b'', None, NewPacketConn demo_pconn ciph)"
  using shadow_packet_roundtrip [of demo_hmac20 "replicate 32 7" "\<lambda>n. Inr (replicate n 5)" "replicate 32 5" "[1, 2, 3]" 100 demo_pconn "''a''"]
  by (force simp: demo_pconn_def)

subsection \<open>A record that is cut in the middle\<close>

context aead_stream
begin

lemma cut_record_read:
  assumes "seal_record p w = Some (rec, w')" and "aligned w r" and "length p \<le> payloadSizeMask"
    and "0 < length p + Overhead A" and "pending c = take (2 + Overhead A) rec" and "\<not> cn_closed c"
  shows "\<exists>r' c'. aead_read r c = Some (Inl EOF, r', c')"
proof -
  let ?sz = "[of_nat (length p div 256), of_nat (length p)] :: byte list"
  have two: "length ?sz \<le> limit" using payload_fits by (simp add: payloadSizeMask_def)
  from assms(1,2) obtain s b where sb: "Seal A (r_nonce r) ?sz = Some s" "rec = s @ b"
    by (auto simp: seal_record_def Let_def aligned_def go_simps)
  moreover from this assms(2) two have "length s = 2 + Overhead A"
    using Seal_returns [of "r_nonce r" ?sz] by (auto simp: aligned_def)
  ultimately have pend: "pending c = s @ []" using assms(5) by simp
  obtain c1 where c1: "open_chunk 2 r c = Some (Inr ?sz, r\<lparr>r_nonce := increment (r_nonce r)\<rparr>, c1)" "pending c1 = []" "reads_to c c1"
    using open_chunk_sealed [of r ?sz s c "[]"] assms(2,6) sb(1) two pend by (auto simp: aligned_def numeral_2_eq_2)
  have "\<not> cn_closed c1" using reads_to_fields [OF c1(3)] assms(6) by simp
  then have "ReadFull (length p + Overhead A) c1 = (Inl EOF, c1\<lparr>cn_in := []\<rparr>)"
    by (rule ReadFull_empty [OF c1(2)]) (use assms(4) in simp)
  then show ?thesis
    using c1(1) size_bytes [OF assms(3)] assms(2) by (simp add: aead_read_def idx_def open_chunk_def aligned_def)
qed

end

text \<open>
  C39. A stream that ends right after the length chunk of a record is reported as a clean end: the
  payload announced by the authenticated length is missing, yet \<open>WriteTo\<close> returns no error,
  because \<open>io.ReadFull\<close> answers \<open>io.EOF\<close> when not a single byte of the second chunk arrives.
\<close>

theorem cut_record_goes_unnoticed:
  assumes "seal_record p (newWriter (chacha20poly1305 key)) = Some (rec, w')" and "length p \<le> payloadSizeMask"
    and "concat segs = take 18 rec"
  shows "\<exists>r' c'. aead_WriteTo (newReader (chacha20poly1305 key)) (arriving segs) d = Some (0, None, r', c', d)"
proof -
  let ?a = "chacha20poly1305 key"
  have over: "Overhead ?a = 16" by (simp add: chacha20poly1305_def)
  have cut: "0 < length p + Overhead ?a" "pending (arriving segs) = take (2 + Overhead ?a) rec" "\<not> cn_closed (arriving segs)"
    using assms(3) by (simp_all add: over pending_def arriving_def)
  obtain r' c' where "aead_read (newReader ?a) (arriving segs) = Some (Inl EOF, r', c')"
    using c20s.cut_record_read [OF assms(1) c20s.new_aligned assms(2) cut] by blast
  then have "aead_pump 0 (newReader ?a) (arriving segs) d = Some (0, None, r', c', d)"
    by (subst aead_pump.simps) simp
  moreover have "r_leftover (newReader ?a) = []" by (simp add: newReader_def)
  ultimately show ?thesis by (simp add: aead_WriteTo_def)
qed

theorem cut_record_goes_unnoticed_witness:
  "\<exists>rec w' r' c'. seal_record [1, 2, 3] (newWriter (chacha20poly1305 [])) = Some (rec, w') \<and>
    aead_WriteTo (newReader (chacha20poly1305 [])) (arriving [take 18 rec]) (arriving []) = Some (0, None, r', c', arriving [])"
proof -
  obtain rec w' where rec: "seal_record [1, 2, 3] (newWriter (chacha20poly1305 [])) = Some (rec, w')"
    using c20s.seal_record_returns [of "newWriter (chacha20poly1305 [])" "[]" "[1, 2, 3]"]
    by (auto simp: newWriter_def payloadSizeMask_def)
  with cut_record_goes_unnoticed [OF rec, of "[take 18 rec]" "arriving []"] show ?thesis
    by (auto simp: payloadSizeMask_def)
qed

end
