(* ===== verification/ShadowStream.thy ===== *)
theory ShadowStream
  imports ShadowAeadPacket
begin

text \<open>
  Package \<open>shadowstream\<close> (\<^verbatim>\<open>src/proxyPool/ProxyClient/shadowstream\<close>): the original protocol, an IV
  followed by the text under a stream cipher. The AES block function of the standard library and
  the ChaCha20 package that the repository does not contain are arguments; the counter and
  cipher-feedback modes of \<open>crypto/cipher\<close> are modelled byte by byte.
\<close>

subsection \<open>Stream ciphers\<close>

text \<open>
  \<open>CTRStream blk ctr out\<close>: counter block and unused key stream. \<open>CFBStream blk decrypt out next used\<close>:
  the fields of Go's \<open>cfb\<close>. \<open>KeyStream ks pos\<close>: a key stream of bytes at a position.
\<close>

datatype Stream =
    CTRStream "byte list \<Rightarrow> byte list" "byte list" "byte list"
  | CFBStream "byte list \<Rightarrow> byte list" bool "byte list" "byte list" nat
  | KeyStream "nat \<Rightarrow> byte" nat

text \<open>The counter block is a big-endian number.\<close>

definition ctr_increment :: "byte list \<Rightarrow> byte list" where
  "ctr_increment ctr = rev (increment (rev ctr))"

fun stream_byte :: "Stream \<Rightarrow> byte \<Rightarrow> byte \<times> Stream" where
  "stream_byte (CTRStream blk ctr out) b =
     (let (out, ctr) = (if out = [] then (blk ctr, ctr_increment ctr) else (out, ctr))
      in (b XOR hd out, CTRStream blk ctr (tl out)))"
| "stream_byte (CFBStream blk decrypt out nxt used) b =
     (let (out, used) = (if used = length out then (blk nxt, 0) else (out, used));
          c = b XOR (out ! used)
      in (c, CFBStream blk decrypt out (nxt[used := (if decrypt then b else c)]) (used + 1)))"
| "stream_byte (KeyStream ks pos) b = (b XOR ks pos, KeyStream ks (pos + 1))"

fun stream_XOR :: "Stream \<Rightarrow> byte list \<Rightarrow> byte list \<times> Stream" where
  "stream_XOR s [] = ([], s)"
| "stream_XOR s (b # bs) = (let (c, s1) = stream_byte s b; (cs, s2) = stream_XOR s1 bs in (c # cs, s2))"

subsection \<open>cipher.go\<close>

text \<open>
  \<open>XORAhead off s mem\<close> is \<open>XORKeyStream\<close> of the stream \<open>s\<close> when the output begins \<open>off\<close> bytes in front of
  the input in the same memory \<open>mem\<close>. The modes of \<open>crypto/cipher\<close> enforce their rule with a panic.
\<close>

record SCipher =
  IVSize :: nat
  SEncrypter :: "byte list \<Rightarrow> Stream go"
  SDecrypter :: "byte list \<Rightarrow> Stream go"
  XORAhead :: "nat \<Rightarrow> Stream \<Rightarrow> byte list \<Rightarrow> byte list go"

definition strict_XORAhead :: "nat \<Rightarrow> Stream \<Rightarrow> byte list \<Rightarrow> byte list go" where
  "strict_XORAhead off s mem = (if inexact_overlap off (length mem - off) then None else Some (fst (stream_XOR s (drop off mem))))"

definition SKeySizeError :: "nat \<Rightarrow> go_error" where
  "SKeySizeError e = ErrMsg (''key size error: need '' @ Itoa (int e) @ '' bytes'')"

definition aes_BlockSize :: nat where
  "aes_BlockSize = 16"

definition ctrStream :: "(byte list \<Rightarrow> byte list) \<Rightarrow> SCipher" where
  "ctrStream blk = \<lparr>IVSize = aes_BlockSize,
     SEncrypter = \<lambda>iv. Some (CTRStream blk iv []), SDecrypter = \<lambda>iv. Some (CTRStream blk iv []), XORAhead = strict_XORAhead\<rparr>"

definition AESCTR :: "(byte list \<Rightarrow> go_error + (byte list \<Rightarrow> byte list)) \<Rightarrow> byte list \<Rightarrow> go_error + SCipher" where
  "AESCTR aes key = (case aes key of Inl err \<Rightarrow> Inl err | Inr blk \<Rightarrow> Inr (ctrStream blk))"

definition cfb_new :: "(byte list \<Rightarrow> byte list) \<Rightarrow> bool \<Rightarrow> byte list \<Rightarrow> Stream" where
  "cfb_new blk decrypt iv = CFBStream blk decrypt (replicate aes_BlockSize 0) iv aes_BlockSize"

definition cfbStream :: "(byte list \<Rightarrow> byte list) \<Rightarrow> SCipher" where
  "cfbStream blk = \<lparr>IVSize = aes_BlockSize,
     SEncrypter = \<lambda>iv. Some (cfb_new blk False iv), SDecrypter = \<lambda>iv. Some (cfb_new blk True iv), XORAhead = strict_XORAhead\<rparr>"

definition AESCFB :: "(byte list \<Rightarrow> go_error + (byte list \<Rightarrow> byte list)) \<Rightarrow> byte list \<Rightarrow> go_error + SCipher" where
  "AESCFB aes key = (case aes key of Inl err \<Rightarrow> Inl err | Inr blk \<Rightarrow> Inr (cfbStream blk))"

text \<open>
  The constants and the constructor of the \<open>chacha20\<close> package that is imported but not present, and what
  its streams do on shared memory.
\<close>

record chacha20_pkg =
  cc_KeySize :: nat
  cc_INonceSize :: nat
  cc_XNonceSize :: nat
  cc_NewCipher :: "byte list \<Rightarrow> byte list \<Rightarrow> go_error + (nat \<Rightarrow> byte)"
  cc_XORAhead :: "nat \<Rightarrow> Stream \<Rightarrow> byte list \<Rightarrow> byte list go"

definition chacha20_Stream :: "chacha20_pkg \<Rightarrow> byte list \<Rightarrow> byte list \<Rightarrow> Stream go" where
  "chacha20_Stream cc k iv = (case cc_NewCipher cc k iv of Inl err \<Rightarrow> None | Inr ks \<Rightarrow> Some (KeyStream ks 0))"

definition chacha20ietfkey :: "chacha20_pkg \<Rightarrow> byte list \<Rightarrow> SCipher" where
  "chacha20ietfkey cc k = \<lparr>IVSize = cc_INonceSize cc, SEncrypter = chacha20_Stream cc k, SDecrypter = chacha20_Stream cc k,
     XORAhead = cc_XORAhead cc\<rparr>"

definition Chacha20IETF :: "chacha20_pkg \<Rightarrow> byte list \<Rightarrow> go_error + SCipher" where
  "Chacha20IETF cc key = (if length key \<noteq> cc_KeySize cc then Inl (SKeySizeError (cc_KeySize cc)) else Inr (chacha20ietfkey cc key))"

definition xchacha20key :: "chacha20_pkg \<Rightarrow> byte list \<Rightarrow> SCipher" where
  "xchacha20key cc k = \<lparr>IVSize = cc_XNonceSize cc, SEncrypter = chacha20_Stream cc k, SDecrypter = chacha20_Stream cc k,
     XORAhead = cc_XORAhead cc\<rparr>"

definition Xchacha20 :: "chacha20_pkg \<Rightarrow> byte list \<Rightarrow> go_error + SCipher" where
  "Xchacha20 cc key = (if length key \<noteq> cc_KeySize cc then Inl (SKeySizeError (cc_KeySize cc)) else Inr (xchacha20key cc key))"

subsection \<open>stream.go\<close>

definition bufSize :: nat where
  "bufSize = 32 * 1024"

partial_function (option) stream_ReadFrom ::
  "'s reader \<Rightarrow> 's \<Rightarrow> nat \<Rightarrow> Stream \<Rightarrow> conn \<Rightarrow> (nat \<times> go_error option \<times> 's \<times> Stream \<times> conn) option" where
  "stream_ReadFrom rd s n w c = (case rd bufSize s of ((buf, er), s) \<Rightarrow>
     (case (if buf \<noteq> [] then
              (case stream_XOR w buf of (out, w) \<Rightarrow> case conn_Write out c of (ew, c) \<Rightarrow> (n + length buf, ew, w, c))
            else (n, None, w, c)) of
        (n, Some ew, w, c) \<Rightarrow> Some (n, Some ew, s, w, c)
      | (n, None, w, c) \<Rightarrow>
          (case er of
             Some e \<Rightarrow> Some (n, (if e \<noteq> EOF then Some e else None), s, w, c)
           | None \<Rightarrow> stream_ReadFrom rd s n w c)))"

definition stream_Write :: "byte list \<Rightarrow> Stream \<Rightarrow> conn \<Rightarrow> (nat \<times> go_error option \<times> Stream \<times> conn) go" where
  "stream_Write b w c = do {
     (n, err, _, w, c) \<leftarrow> stream_ReadFrom buffer_Read b 0 w c;
     Some (n, err, w, c) }"

definition stream_Read :: "nat \<Rightarrow> Stream \<Rightarrow> conn \<Rightarrow> byte list \<times> go_error option \<times> Stream \<times> conn" where
  "stream_Read len r c = (case conn_Read len c of
       (Inl err, c) \<Rightarrow> ([], Some err, r, c)
     | (Inr b, c) \<Rightarrow> (case stream_XOR r b of (p, r) \<Rightarrow> (p, None, r, c)))"

partial_function (option) stream_WriteTo ::
  "nat \<Rightarrow> Stream \<Rightarrow> conn \<Rightarrow> conn \<Rightarrow> (nat \<times> go_error option \<times> Stream \<times> conn \<times> conn) option" where
  "stream_WriteTo n r c d = (case stream_Read bufSize r c of (p, er, r, c) \<Rightarrow>
     (case (if p \<noteq> [] then conn_Write p d else (None, d)) of
        (Some ew, d) \<Rightarrow> Some (n, Some ew, r, c, d)
      | (None, d) \<Rightarrow>
          (case er of
             Some e \<Rightarrow> Some (n + length p, (if e \<noteq> EOF then Some e else None), r, c, d)
           | None \<Rightarrow> stream_WriteTo (n + length p) r c d)))"

record sconn =
  s_Conn :: conn
  s_Cipher :: SCipher
  s_r :: "Stream option"
  s_w :: "Stream option"

definition SNewConn :: "conn \<Rightarrow> SCipher \<Rightarrow> sconn" where
  "SNewConn c ciph = \<lparr>s_Conn = c, s_Cipher = ciph, s_r = None, s_w = None\<rparr>"

definition s_initReader :: "sconn \<Rightarrow> (go_error option \<times> sconn) go" where
  "s_initReader c = (if s_r c \<noteq> None then Some (None, c)
     else if bufSize < IVSize (s_Cipher c) then None
     else (case ReadFull (IVSize (s_Cipher c)) (s_Conn c) of
         (Inl err, cn) \<Rightarrow> Some (Some err, c\<lparr>s_Conn := cn\<rparr>)
       | (Inr iv, cn) \<Rightarrow> do {
           st \<leftarrow> SDecrypter (s_Cipher c) iv;
           Some (None, c\<lparr>s_Conn := cn, s_r := Some st\<rparr>) }))"

definition s_Read :: "nat \<Rightarrow> sconn \<Rightarrow> (byte list \<times> go_error option \<times> sconn) go" where
  "s_Read len c = do {
     (err, c) \<leftarrow> s_initReader c;
     (case err of
        Some e \<Rightarrow> Some ([], Some e, c)
      | None \<Rightarrow> do {
          r \<leftarrow> s_r c;
          (case stream_Read len r (s_Conn c) of (p, err, r, cn) \<Rightarrow> Some (p, err, c\<lparr>s_Conn := cn, s_r := Some r\<rparr>)) }) }"

definition s_WriteTo :: "sconn \<Rightarrow> conn \<Rightarrow> (nat \<times> go_error option \<times> sconn \<times> conn) go" where
  "s_WriteTo c d = do {
     (err, c) \<leftarrow> s_initReader c;
     (case err of
        Some e \<Rightarrow> Some (0, Some e, c, d)
      | None \<Rightarrow> do {
          r \<leftarrow> s_r c;
          (n, err, r, cn, d) \<leftarrow> stream_WriteTo 0 r (s_Conn c) d;
          Some (n, err, c\<lparr>s_Conn := cn, s_r := Some r\<rparr>, d) }) }"

definition s_initWriter :: "(nat \<Rightarrow> go_error + byte list) \<Rightarrow> sconn \<Rightarrow> (go_error option \<times> sconn) go" where
  "s_initWriter rnd c = (if s_w c \<noteq> None then Some (None, c)
     else if bufSize < IVSize (s_Cipher c) then None
     else (case rnd (IVSize (s_Cipher c)) of
         Inl err \<Rightarrow> Some (Some err, c)
       | Inr iv \<Rightarrow> (case conn_Write iv (s_Conn c) of
           (Some err, cn) \<Rightarrow> Some (Some err, c\<lparr>s_Conn := cn\<rparr>)
         | (None, cn) \<Rightarrow> do {
             st \<leftarrow> SEncrypter (s_Cipher c) iv;
             Some (None, c\<lparr>s_Conn := cn, s_w := Some st\<rparr>) })))"

definition s_Write :: "(nat \<Rightarrow> go_error + byte list) \<Rightarrow> byte list \<Rightarrow> sconn \<Rightarrow> (nat \<times> go_error option \<times> sconn) go" where
  "s_Write rnd b c = do {
     (err, c) \<leftarrow> s_initWriter rnd c;
     (case err of
        Some e \<Rightarrow> Some (0, Some e, c)
      | None \<Rightarrow> do {
          w \<leftarrow> s_w c;
          (n, err, w, cn) \<leftarrow> stream_Write b w (s_Conn c);
          Some (n, err, c\<lparr>s_Conn := cn, s_w := Some w\<rparr>) }) }"

definition s_ReadFrom ::
  "(nat \<Rightarrow> go_error + byte list) \<Rightarrow> 's reader \<Rightarrow> 's \<Rightarrow> sconn \<Rightarrow> (nat \<times> go_error option \<times> 's \<times> sconn) go" where
  "s_ReadFrom rnd rd s c = do {
     (err, c) \<leftarrow> s_initWriter rnd c;
     (case err of
        Some e \<Rightarrow> Some (0, Some e, s, c)
      | None \<Rightarrow> do {
          w \<leftarrow> s_w c;
          (n, err, s, w, cn) \<leftarrow> stream_ReadFrom rd s 0 w (s_Conn c);
          Some (n, err, s, c\<lparr>s_Conn := cn, s_w := Some w\<rparr>) }) }"

subsection \<open>packet.go\<close>

definition SErrShortPacket :: go_error where
  "SErrShortPacket = Sentinel ''shadowstream.ErrShortPacket''"

definition SPack :: "(nat \<Rightarrow> go_error + byte list) \<Rightarrow> nat \<Rightarrow> byte list \<Rightarrow> SCipher \<Rightarrow> (go_error + byte list) go" where
  "SPack rnd dst plaintext s =
     (if dst < IVSize s + length plaintext then Some (Inl ErrShortBuffer)
      else (case rnd (IVSize s) of
          Inl err \<Rightarrow> Some (Inl err)
        | Inr iv \<Rightarrow> do {
            st \<leftarrow> SEncrypter s iv;
            Some (Inr (iv @ fst (stream_XOR st plaintext))) }))"

text \<open>\<open>shared\<close>: the packet is the front of the destination buffer, as \<open>ReadFrom\<close> calls it.\<close>

definition SUnpack :: "bool \<Rightarrow> nat \<Rightarrow> byte list \<Rightarrow> SCipher \<Rightarrow> (go_error + byte list) go" where
  "SUnpack shared dst pkt s =
     (if length pkt < IVSize s then Some (Inl SErrShortPacket)
      else if dst < length pkt - IVSize s then Some (Inl ErrShortBuffer)
      else do {
        st \<leftarrow> SDecrypter s (take (IVSize s) pkt);
        out \<leftarrow> (if shared then XORAhead s (IVSize s) st pkt else Some (fst (stream_XOR st (drop (IVSize s) pkt))));
        Some (Inr out) })"

record spacketConn =
  spk_Conn :: pconn
  spk_Cipher :: SCipher
  spk_buf :: nat

definition SNewPacketConn :: "pconn \<Rightarrow> SCipher \<Rightarrow> spacketConn" where
  "SNewPacketConn c ciph = \<lparr>spk_Conn = c, spk_Cipher = ciph, spk_buf = 64 * 1024\<rparr>"

definition spacketConn_WriteTo ::
  "(nat \<Rightarrow> go_error + byte list) \<Rightarrow> byte list \<Rightarrow> string \<Rightarrow> spacketConn \<Rightarrow> (nat \<times> go_error option \<times> spacketConn) go" where
  "spacketConn_WriteTo rnd b addr c = do {
     buf \<leftarrow> SPack rnd (spk_buf c) b (spk_Cipher c);
     (case buf of
        Inl err \<Rightarrow> Some (0, Some err, c)
      | Inr p \<Rightarrow> (case pconn_WriteTo p addr (spk_Conn c) of
          (err, pc) \<Rightarrow> Some (length b, err, c\<lparr>spk_Conn := pc\<rparr>))) }"

definition spacketConn_ReadFrom ::
  "nat \<Rightarrow> spacketConn \<Rightarrow> (byte list \<times> string \<times> go_error option \<times> spacketConn) go" where
  "spacketConn_ReadFrom len c = (case pconn_ReadFrom len (spk_Conn c) of
       ((d, addr, Some err), pc) \<Rightarrow> Some (d, addr, Some err, c\<lparr>spk_Conn := pc\<rparr>)
     | ((d, addr, None), pc) \<Rightarrow> do {
         b \<leftarrow> SUnpack True len d (spk_Cipher c);
         Some (case b of Inl err \<Rightarrow> ([], addr, Some err, c\<lparr>spk_Conn := pc\<rparr>)
               | Inr p \<Rightarrow> (p, addr, None, c\<lparr>spk_Conn := pc\<rparr>)) })"

subsection \<open>Encryption and decryption in step\<close>

text \<open>The receiver's stream after the same bytes: the same state, with the direction of CFB turned.\<close>

fun mirror :: "Stream \<Rightarrow> Stream" where
  "mirror (CFBStream blk decrypt out nxt used) = CFBStream blk (\<not> decrypt) out nxt used"
| "mirror s = s"

fun encrypts :: "Stream \<Rightarrow> bool" where
  "encrypts (CFBStream blk decrypt out nxt used) = (\<not> decrypt)"
| "encrypts s = True"

lemma stream_byte_mirror:
  "encrypts s \<Longrightarrow> stream_byte s b = (c, s') \<Longrightarrow> stream_byte (mirror s) c = (b, mirror s') \<and> encrypts s'"
  by (cases s) (auto simp: Let_def xor.assoc split: if_splits prod.splits)

lemma stream_XOR_mirror:
  "encrypts s \<Longrightarrow> stream_XOR s bs = (cs, s') \<Longrightarrow> stream_XOR (mirror s) cs = (bs, mirror s') \<and> encrypts s'"
proof (induction bs arbitrary: s cs)
  case (Cons b bs)
  obtain c s1 where c: "stream_byte s b = (c, s1)" by fastforce
  obtain cs1 where "stream_XOR s1 bs = (cs1, s')" "cs = c # cs1"
    using Cons.prems(2) c by (auto split: prod.splits)
  with Cons.IH [of s1 cs1] stream_byte_mirror [OF Cons.prems(1) c] show ?case by simp
qed simp

lemma stream_XOR_append:
  "stream_XOR s (xs @ ys) = (let (a, s1) = stream_XOR s xs; (b, s2) = stream_XOR s1 ys in (a @ b, s2))"
  by (induction xs arbitrary: s) (auto split: prod.splits)

lemma length_stream_XOR [simp]: "length (fst (stream_XOR s bs)) = length bs"
  by (induction bs arbitrary: s) (simp_all add: case_prod_unfold Let_def)

lemma bufSize_pos: "0 < bufSize"
  by (simp add: bufSize_def)

lemma stream_ReadFrom_buffer:
  assumes "stream_XOR w b = (cs, w')" and "sink c"
  shows "\<exists>outs. stream_ReadFrom buffer_Read b n w c = Some (n + length b, None, [], w', c\<lparr>cn_out := cn_out c @ outs\<rparr>) \<and>
    concat outs = cs"
  using assms
proof (induction "length b" arbitrary: n b w c cs rule: less_induct)
  case less
  show ?case
  proof (cases "b = []")
    case True
    with less.prems show ?thesis
      by (subst stream_ReadFrom.simps) (auto simp: buffer_Read_def intro!: exI [of _ "[]"])
  next
    case False
    let ?p = "take bufSize b" and ?q = "drop bufSize b"
    have rd: "buffer_Read bufSize b = ((?p, None), ?q)" using False by (simp add: buffer_Read_def)
    obtain x w1 where x: "stream_XOR w ?p = (x, w1)" by fastforce
    obtain y where y: "stream_XOR w1 ?q = (y, w')" "cs = x @ y"
      using less.prems(1) x stream_XOR_append [of w ?p ?q] by (auto split: prod.splits)
    let ?c = "c\<lparr>cn_out := cn_out c @ [x]\<rparr>"
    have "length ?q < length b" using False bufSize_pos by simp
    then obtain outs where outs: "stream_ReadFrom buffer_Read ?q (n + length ?p) w1 ?c =
        Some (n + length ?p + length ?q, None, [], w', ?c\<lparr>cn_out := cn_out ?c @ outs\<rparr>)" "concat outs = y"
      using less.hyps [OF _ y(1), of ?c "n + length ?p"] less.prems(2) by auto
    have "n + length ?p + length ?q = n + length b" by simp
    then have "stream_ReadFrom buffer_Read b n w c = Some (n + length b, None, [], w', c\<lparr>cn_out := cn_out c @ x # outs\<rparr>)"
      using False x rd outs(1) less.prems(2) bufSize_pos by (subst stream_ReadFrom.simps) (simp add: sink_Write)
    with outs(2) y(2) show ?thesis by (intro exI [of _ "x # outs"]) simp
  qed
qed

lemma stream_WriteTo_delivers:
  assumes "stream_XOR r (pending c) = (p, r')" and "\<not> cn_closed c" and "sink d"
  shows "\<exists>c' d'. stream_WriteTo n r c d = Some (n + length p, None, r', c', d') \<and> concat (cn_out d') = concat (cn_out d) @ p"
  using assms
proof (induction "length (pending c)" arbitrary: n r c d p rule: less_induct)
  case less
  show ?case
  proof (cases "pending c = []")
    case True
    with less.prems conn_Read_at_end [OF True less.prems(2) bufSize_pos] show ?thesis
      by (subst stream_WriteTo.simps) (simp add: stream_Read_def)
  next
    case False
    then obtain b c1 where rd: "conn_Read bufSize c = (Inr b, c1)"
      using conn_Read_progress less.prems(2) bufSize_pos by blast
    note f = conn_Read_Inr [OF rd bufSize_pos]
    obtain x r1 where x: "stream_XOR r b = (x, r1)" by fastforce
    obtain y where y: "stream_XOR r1 (pending c1) = (y, r')" "p = x @ y"
      using less.prems(1) f(1) x by (auto simp: stream_XOR_append split: prod.splits)
    have "length x = length b" using x by (metis fst_conv length_stream_XOR)
    then have "x \<noteq> []" using f(2) by auto
    let ?d = "d\<lparr>cn_out := cn_out d @ [x]\<rparr>"
    have "length (pending c1) < length (pending c)" "\<not> cn_closed c1"
      using f reads_to_fields [OF f(5)] by simp_all
    then obtain c' d' where "stream_WriteTo (n + length x) r1 c1 ?d = Some (n + length x + length y, None, r', c', d')"
        "concat (cn_out d') = concat (cn_out ?d) @ y"
      using less.hyps [OF _ y(1), of ?d "n + length x"] less.prems(3) by auto
    with x rd \<open>x \<noteq> []\<close> y(2) less.prems(3) show ?thesis
      by (subst stream_WriteTo.simps) (simp add: stream_Read_def sink_Write)
  qed
qed

text \<open>
  What the protocol needs of a cipher: an IV of the announced size gives a sender and a receiver
  that are mirror images. Every cipher of the package meets it.
\<close>

definition scipher_ok :: "SCipher \<Rightarrow> bool" where
  "scipher_ok ciph \<longleftrightarrow> IVSize ciph \<le> bufSize \<and>
     (\<forall>iv. length iv = IVSize ciph \<longrightarrow> (\<exists>e. SEncrypter ciph iv = Some e \<and> SDecrypter ciph iv = Some (mirror e) \<and> encrypts e))"

lemma AES_scipher_ok: "scipher_ok (ctrStream blk)" "scipher_ok (cfbStream blk)"
  by (simp_all add: scipher_ok_def ctrStream_def cfbStream_def cfb_new_def aes_BlockSize_def bufSize_def)

lemma chacha20_scipher_ok:
  assumes "\<And>iv. length iv = cc_INonceSize cc \<Longrightarrow> \<exists>ks. cc_NewCipher cc k iv = Inr ks" and "cc_INonceSize cc \<le> 32"
  shows "scipher_ok (chacha20ietfkey cc k)"
  using assms by (fastforce simp: scipher_ok_def chacha20ietfkey_def chacha20_Stream_def bufSize_def)

lemma xchacha20_scipher_ok:
  assumes "\<And>iv. length iv = cc_XNonceSize cc \<Longrightarrow> \<exists>ks. cc_NewCipher cc k iv = Inr ks" and "cc_XNonceSize cc \<le> 32"
  shows "scipher_ok (xchacha20key cc k)"
  using assms by (fastforce simp: scipher_ok_def xchacha20key_def chacha20_Stream_def bufSize_def)

definition s_sends :: "(nat \<Rightarrow> go_error + byte list) \<Rightarrow> byte list list \<Rightarrow> sconn \<Rightarrow> sconn go" where
  "s_sends rnd bss c = foldM (\<lambda>c b. do {
     (n, err, c) \<leftarrow> s_Write rnd b c;
     (if err = None \<and> n = length b then Some c else None) }) c bss"

text \<open>The sender has sent the IV and the plaintext \<open>pt\<close> under the stream that started as \<open>e\<close>.\<close>

definition s_sent :: "byte list \<Rightarrow> Stream \<Rightarrow> byte list \<Rightarrow> sconn \<Rightarrow> bool" where
  "s_sent iv e pt c \<longleftrightarrow> sink (s_Conn c) \<and> (\<exists>w cs. s_w c = Some w \<and> stream_XOR e pt = (cs, w) \<and>
     concat (cn_out (s_Conn c)) = iv @ cs)"

lemma s_sent_Write:
  assumes "s_sent iv e pt c"
  shows "\<exists>c'. s_Write rnd b c = Some (length b, None, c') \<and> s_sent iv e (pt @ b) c'"
proof -
  from assms obtain w cs where h: "sink (s_Conn c)" "s_w c = Some w" "stream_XOR e pt = (cs, w)" "concat (cn_out (s_Conn c)) = iv @ cs"
    by (auto simp: s_sent_def)
  obtain ds w' where ds: "stream_XOR w b = (ds, w')" by fastforce
  obtain outs where outs: "stream_ReadFrom buffer_Read b 0 w (s_Conn c) =
      Some (length b, None, [], w', (s_Conn c)\<lparr>cn_out := cn_out (s_Conn c) @ outs\<rparr>)" "concat outs = ds"
    using stream_ReadFrom_buffer [OF ds h(1), of 0] by auto
  let ?c = "c\<lparr>s_Conn := (s_Conn c)\<lparr>cn_out := cn_out (s_Conn c) @ outs\<rparr>, s_w := Some w'\<rparr>"
  have "s_Write rnd b c = Some (length b, None, ?c)"
    using outs(1) h(2) by (simp add: s_Write_def s_initWriter_def stream_Write_def)
  moreover have "s_sent iv e (pt @ b) ?c"
    using h ds outs(2) by (simp add: s_sent_def stream_XOR_append)
  ultimately show ?thesis by blast
qed

lemma s_sent_all: "s_sent iv e pt c \<Longrightarrow> \<exists>c'. s_sends rnd bss c = Some c' \<and> s_sent iv e (pt @ concat bss) c'"
proof (induction bss arbitrary: c pt)
  case (Cons b bss)
  obtain c1 where c1: "s_Write rnd b c = Some (length b, None, c1)" "s_sent iv e (pt @ b) c1"
    using s_sent_Write [OF Cons.prems, of rnd b] by blast
  then show ?case using Cons.IH [OF c1(2)] by (simp add: s_sends_def)
qed (simp add: s_sends_def)

lemma s_first_Write:
  assumes "rnd (IVSize ciph) = Inr iv" and "SEncrypter ciph iv = Some e" and "IVSize ciph \<le> bufSize" and "sink c" and "cn_out c = []"
  shows "\<exists>c'. s_Write rnd b (SNewConn c ciph) = Some (length b, None, c') \<and> s_sent iv e b c'"
proof -
  let ?c = "\<lparr>s_Conn = c\<lparr>cn_out := [iv]\<rparr>, s_Cipher = ciph, s_r = None, s_w = Some e\<rparr>"
  have "s_sent iv e [] ?c" using assms(4) by (simp add: s_sent_def)
  from s_sent_Write [OF this, of rnd b] show ?thesis
    using assms by (simp add: s_Write_def s_initWriter_def SNewConn_def sink_Write)
qed

lemma stream_conn_delivers:
  assumes "scipher_ok ciph" and "rnd (IVSize ciph) = Inr iv" and "length iv = IVSize ciph"
  shows "\<exists>sc. s_sends rnd (b # bss) (SNewConn (arriving []) ciph) = Some sc \<and>
    (\<forall>segs. concat segs = concat (cn_out (s_Conn sc)) \<longrightarrow>
       (\<exists>rc d. s_WriteTo (SNewConn (arriving segs) ciph) (arriving []) = Some (length (b @ concat bss), None, rc, d) \<and>
          concat (cn_out d) = b @ concat bss))"
proof -
  from assms obtain e where e: "SEncrypter ciph iv = Some e" "SDecrypter ciph iv = Some (mirror e)" "encrypts e" "IVSize ciph \<le> bufSize"
    by (auto simp: scipher_ok_def)
  have "sink (arriving [])" "cn_out (arriving []) = []" by (simp_all add: sink_def arriving_def)
  then obtain c1 where "s_Write rnd b (SNewConn (arriving []) ciph) = Some (length b, None, c1)" "s_sent iv e b c1"
    using s_first_Write [where rnd = rnd and ciph = ciph, OF assms(2) e(1,4)] by blast
  then obtain sc where sc: "s_sends rnd (b # bss) (SNewConn (arriving []) ciph) = Some sc" "s_sent iv e (b @ concat bss) sc"
    using s_sent_all [of iv e b c1 rnd bss] by (auto simp: s_sends_def)
  from sc(2) obtain w cs where cs: "stream_XOR e (b @ concat bss) = (cs, w)" "concat (cn_out (s_Conn sc)) = iv @ cs"
    by (auto simp: s_sent_def)
  have "\<exists>rc d. s_WriteTo (SNewConn (arriving segs) ciph) (arriving []) = Some (length (b @ concat bss), None, rc, d) \<and>
      concat (cn_out d) = b @ concat bss" if segs: "concat segs = concat (cn_out (s_Conn sc))" for segs
  proof -
    have "\<exists>c'. ReadFull (IVSize ciph) (arriving segs) = (Inr iv, c') \<and> pending c' = cs \<and> reads_to (arriving segs) c'"
      using ReadFull_enough [of "IVSize ciph" "arriving segs"] segs cs(2) assms(3) by (auto simp: pending_def arriving_def)
    then obtain c' where c': "ReadFull (IVSize ciph) (arriving segs) = (Inr iv, c')" "pending c' = cs" "\<not> cn_closed c'"
      using reads_to_fields by (fastforce simp: arriving_def)
    have "stream_XOR (mirror e) (pending c') = (b @ concat bss, mirror w)"
      using stream_XOR_mirror [OF e(3) cs(1)] c'(2) by simp
    from stream_WriteTo_delivers [OF this c'(3) \<open>sink (arriving [])\<close>, of 0]
    show ?thesis using c'(1) e(2,4) by (auto simp: s_WriteTo_def s_initReader_def SNewConn_def arriving_def)
  qed
  with sc(1) show ?thesis by blast
qed

text \<open>
  A connection under any stream cipher of the package carries a byte stream: for a cipher whose
  receiving stream mirrors the sending one (the AES modes always do), any non-empty sequence of
  writes succeeds, and however the bytes are cut on the way the receiver copies out exactly the
  concatenation of the writes and reports no error.
\<close>

lemma stream_conn_roundtrip:
  assumes "scipher_ok ciph" and "rnd (IVSize ciph) = Inr iv" and "length iv = IVSize ciph"
  shows "\<exists>sc. s_sends rnd (b # bss) (SNewConn (arriving []) ciph) = Some sc \<and>
    (\<forall>segs. concat segs = concat (cn_out (s_Conn sc)) \<longrightarrow>
       (\<exists>rc d. s_WriteTo (SNewConn (arriving segs) ciph) (arriving []) = Some (length (b @ concat bss), None, rc, d) \<and>
          concat (cn_out d) = b @ concat bss))"
  using assms by (rule stream_conn_delivers)

lemma stream_conn_roundtrip_witness:
  "\<exists>sc rc d. s_sends (\<lambda>n. Inr (replicate n 5)) [[1, 2], [3]] (SNewConn (arriving []) (cfbStream (map NOT))) = Some sc \<and>
    s_WriteTo (SNewConn (arriving (cn_out (s_Conn sc))) (cfbStream (map NOT))) (arriving []) = Some (3, None, rc, d) \<and>
    concat (cn_out d) = [1, 2, 3]"
  using stream_conn_roundtrip [OF AES_scipher_ok(2), of "\<lambda>n. Inr (replicate n 5)" "map NOT" "replicate 16 5" "[1, 2]" "[[3]]"]
  by (auto simp: cfbStream_def aes_BlockSize_def)

text \<open>
  Packets under a stream cipher survive the trip, with any disjoint buffers that hold them; but nothing
  authenticates them: every packet at least as long as the IV is accepted, whatever its bytes.
\<close>

lemma stream_packet_roundtrip:
  assumes "scipher_ok ciph" and "rnd (IVSize ciph) = Inr iv" and "length iv = IVSize ciph"
    and "IVSize ciph + length p \<le> dst" and "length p \<le> dst'"
  shows "\<exists>pkt. SPack rnd dst p ciph = Some (Inr pkt) \<and> length pkt = IVSize ciph + length p \<and> SUnpack False dst' pkt ciph = Some (Inr p) \<and>
    (\<exists>st st'. stream_XOR st (drop (IVSize ciph) pkt) = (p, st') \<and> SUnpack True dst' pkt ciph = map_option Inr (XORAhead ciph (IVSize ciph) st pkt)) \<and>
    (\<forall>forged. length forged = length pkt \<longrightarrow> (\<exists>q. SUnpack False dst' forged ciph = Some (Inr q) \<and> length q = length p))"
proof -
  from assms(1,3) obtain e where e: "SEncrypter ciph iv = Some e" "SDecrypter ciph iv = Some (mirror e)" "encrypts e"
    by (auto simp: scipher_ok_def)
  obtain cs w where cs: "stream_XOR e p = (cs, w)" by fastforce
  have len: "length cs = length p" using cs by (metis fst_conv length_stream_XOR)
  have "\<exists>q. SUnpack False dst' forged ciph = Some (Inr q) \<and> length q = length p" if f: "length forged = IVSize ciph + length p" for forged
  proof -
    have "length (take (IVSize ciph) forged) = IVSize ciph" using f by simp
    then obtain x where "SDecrypter ciph (take (IVSize ciph) forged) = Some (mirror x)"
      using assms(1) unfolding scipher_ok_def by blast
    then show ?thesis using f assms(5) by (simp add: SUnpack_def)
  qed
  then show ?thesis
    using e cs len assms(2-5) stream_XOR_mirror [OF e(3) cs]
    by (auto simp: SPack_def SUnpack_def split: Option.bind_split)
qed

text \<open>What the ciphers do on overlapping memory: as if apart when they are, and a panic when the rule is enforced.\<close>

definition xor_apart :: "SCipher \<Rightarrow> bool" where
  "xor_apart s \<longleftrightarrow> (\<forall>off st mem. \<not> inexact_overlap off (length mem - off) \<longrightarrow>
     XORAhead s off st mem = Some (fst (stream_XOR st (drop off mem))))"

definition xor_strict :: "SCipher \<Rightarrow> bool" where
  "xor_strict s \<longleftrightarrow> (\<forall>off st mem. inexact_overlap off (length mem - off) \<longrightarrow> XORAhead s off st mem = None)"

lemma AES_xor: "xor_apart (ctrStream blk)" "xor_strict (ctrStream blk)" "xor_apart (cfbStream blk)" "xor_strict (cfbStream blk)"
  by (simp_all add: xor_apart_def xor_strict_def ctrStream_def cfbStream_def strict_XORAhead_def)

lemma stream_datagram:
  assumes "scipher_ok ciph" "rnd (IVSize ciph) = Inr iv" "length iv = IVSize ciph"
    and "IVSize ciph + length p \<le> 64 * 1024" "IVSize ciph + length p \<le> len" "pc_errs tx = []"
  shows "\<exists>pkt. spacketConn_WriteTo rnd p addr (SNewPacketConn tx ciph) =
      Some (length p, None, SNewPacketConn (tx\<lparr>pc_out := pc_out tx @ [(pkt, addr)]\<rparr>) ciph) \<and>
    (\<forall>rx src ds. pc_in rx = (pkt, src) # ds \<longrightarrow>
      (xor_apart ciph \<and> length p \<le> IVSize ciph \<longrightarrow>
         spacketConn_ReadFrom len (SNewPacketConn rx ciph) = Some (p, src, None, SNewPacketConn (rx\<lparr>pc_in := ds\<rparr>) ciph)) \<and>
      (xor_strict ciph \<and> 0 < IVSize ciph \<and> IVSize ciph < length p \<longrightarrow>
         spacketConn_ReadFrom len (SNewPacketConn rx ciph) = None))"
proof -
  obtain pkt st st' where pkt: "SPack rnd (64 * 1024) p ciph = Some (Inr pkt)" "length pkt = IVSize ciph + length p"
      "stream_XOR st (drop (IVSize ciph) pkt) = (p, st')"
      "SUnpack True len pkt ciph = map_option Inr (XORAhead ciph (IVSize ciph) st pkt)"
    using stream_packet_roundtrip [where rnd = rnd and iv = iv, OF assms(1-3), of p "64 * 1024" len] assms(4,5) by auto
  have "XORAhead ciph (IVSize ciph) st pkt = Some p" if "xor_apart ciph \<and> length p \<le> IVSize ciph"
    using that pkt(2,3) by (simp add: xor_apart_def inexact_overlap_def)
  moreover have "XORAhead ciph (IVSize ciph) st pkt = None" if "xor_strict ciph \<and> 0 < IVSize ciph \<and> IVSize ciph < length p"
    using that pkt(2) by (auto simp: xor_strict_def inexact_overlap_def)
  ultimately show ?thesis
    using pkt(1,2,4) assms(5,6)
    by (intro exI [of _ pkt])
      (auto simp: spacketConn_WriteTo_def spacketConn_ReadFrom_def SNewPacketConn_def pconn_WriteTo_def pconn_ReadFrom_def)
qed

lemma stream_packet_roundtrip_witness:
  "\<exists>pkt q. SPack (\<lambda>n. Inr (replicate n 5)) 100 [1, 2] (ctrStream (map NOT)) = Some (Inr pkt) \<and>
    SUnpack False 100 pkt (ctrStream (map NOT)) = Some (Inr [1, 2]) \<and>
    SUnpack False 100 (replicate 18 9) (ctrStream (map NOT)) = Some (Inr q) \<and> length q = 2"
  using stream_packet_roundtrip [OF AES_scipher_ok(1), of "\<lambda>n. Inr (replicate n 5)" "map NOT" "replicate 16 5" "[1, 2]" 100 100]
  by (auto simp: ctrStream_def aes_BlockSize_def dest!: spec [of _ "replicate 18 9"])

end
