(* ===== verification/GoText.thy ===== *)
theory GoText
  imports GoNet
begin

text \<open>
  Text handling of Go's standard library that the network packages use: upper and lower case,
  \<open>net.SplitHostPort\<close> and \<open>net.JoinHostPort\<close>, \<open>strconv.ParseUint\<close> for ports, and the text form of IP
  addresses in both directions. Strings are byte strings; the case functions are those of ASCII,
  which is what the scheme and network names consist of.
\<close>

subsection \<open>Bytes and characters\<close>

definition bytes_of :: "string \<Rightarrow> byte list" where
  "bytes_of s = map of_char s"

definition string_of :: "byte list \<Rightarrow> string" where
  "string_of bs = map (\<lambda>b. char_of (unat b)) bs"

lemma length_bytes_of [simp]: "length (bytes_of s) = length s"
  and length_string_of [simp]: "length (string_of bs) = length bs"
  by (simp_all add: bytes_of_def string_of_def)

lemma of_char_unat: "unat (of_char c :: byte) = of_char c"
proof -
  have "(of_char c :: byte) = of_nat (of_char c)" by (simp only: of_nat_of_char)
  moreover have "(of_char c :: nat) < 256" by simp
  ultimately show ?thesis by (simp add: unat_of_nat take_bit_nat_eq_self)
qed

lemma string_of_bytes_of [simp]: "string_of (bytes_of s) = s"
  by (induction s) (simp_all add: string_of_def bytes_of_def of_char_unat)

definition upper_char :: "char \<Rightarrow> char" where
  "upper_char c = (let n = of_char c :: nat in if 97 \<le> n \<and> n \<le> 122 then char_of (n - 32) else c)"

definition lower_char :: "char \<Rightarrow> char" where
  "lower_char c = (let n = of_char c :: nat in if 65 \<le> n \<and> n \<le> 90 then char_of (n + 32) else c)"

definition ToUpper :: "string \<Rightarrow> string" where "ToUpper s = map upper_char s"
definition ToLower :: "string \<Rightarrow> string" where "ToLower s = map lower_char s"

lemma upper_char_idem [simp]: "upper_char (upper_char c) = upper_char c"
  by (auto simp: upper_char_def Let_def)

lemma ToUpper_idem [simp]: "ToUpper (ToUpper s) = ToUpper s"
  by (simp add: ToUpper_def)

subsection \<open>Host and port\<close>

fun find_char :: "char \<Rightarrow> string \<Rightarrow> nat option" where
  "find_char c [] = None"
| "find_char c (x # xs) = (if x = c then Some 0 else map_option Suc (find_char c xs))"

definition find_last :: "char \<Rightarrow> string \<Rightarrow> nat option" where
  "find_last c s = map_option (\<lambda>i. length s - 1 - i) (find_char c (rev s))"

definition addrErr :: "string \<Rightarrow> go_error + 'a" where
  "addrErr why = Inl (ErrMsg why)"

definition SplitHostPort :: "string \<Rightarrow> go_error + string \<times> string" where
  "SplitHostPort hostport =
     (case find_last (CHR '':'') hostport of
        None \<Rightarrow> addrErr ''missing port in address''
      | Some i \<Rightarrow>
          (case (if hd hostport = CHR ''['' then
                   (case find_char (CHR '']'') hostport of
                      None \<Rightarrow> addrErr ''missing bracket in address''
                    | Some e \<Rightarrow>
                        if e + 1 = length hostport then addrErr ''missing port in address''
                        else if e + 1 = i then Inr (take (e - 1) (drop 1 hostport), 1, e + 1)
                        else if hostport ! (e + 1) = CHR '':'' then addrErr ''too many colons in address''
                        else addrErr ''missing port in address'')
                 else if CHR '':'' \<in> set (take i hostport) then addrErr ''too many colons in address''
                 else Inr (take i hostport, 0, 0)) of
             Inl e \<Rightarrow> Inl e
           | Inr (host, j, k) \<Rightarrow>
               if CHR ''['' \<in> set (drop j hostport) then addrErr ''unexpected bracket in address''
               else if CHR '']'' \<in> set (drop k hostport) then addrErr ''unexpected bracket in address''
               else Inr (host, drop (i + 1) hostport)))"

definition JoinHostPort :: "string \<Rightarrow> string \<Rightarrow> string" where
  "JoinHostPort host port =
     (if CHR '':'' \<in> set host \<or> CHR ''%'' \<in> set host then ''['' @ host @ '']:'' @ port
      else host @ '':'' @ port)"

lemma find_char_append: "c \<notin> set xs \<Longrightarrow> find_char c (xs @ c # ys) = Some (length xs)"
  by (induction xs) auto

lemma find_char_None: "find_char c xs = None \<longleftrightarrow> c \<notin> set xs"
  by (induction xs) auto

lemma find_last_append:
  assumes "c \<notin> set ys"
  shows "find_last c (xs @ c # ys) = Some (length xs)"
proof -
  have "find_char c (rev ys @ c # rev xs) = Some (length (rev ys))"
    by (rule find_char_append) (simp add: assms)
  then show ?thesis by (simp add: find_last_def)
qed

text \<open>Splitting undoes joining for every host without brackets and port without colon and brackets.\<close>

lemma Split_JoinHostPort:
  assumes "set host \<inter> {CHR ''['', CHR '']''} = {}" and "set port \<inter> {CHR ''['', CHR '']'', CHR '':''} = {}"
  shows "SplitHostPort (JoinHostPort host port) = Inr (host, port)"
proof (cases "CHR '':'' \<in> set host \<or> CHR ''%'' \<in> set host")
  case True
  let ?s = "CHR ''['' # host @ CHR '']'' # CHR '':'' # port"
  have s: "JoinHostPort host port = ?s" using True by (simp add: JoinHostPort_def)
  have "find_last (CHR '':'') ((CHR ''['' # host @ [CHR '']'']) @ CHR '':'' # port) = Some (length (CHR ''['' # host @ [CHR '']'']))"
    by (rule find_last_append) (use assms(2) in auto)
  then have i: "find_last (CHR '':'') ?s = Some (length host + 2)" by simp
  have "find_char (CHR '']'') ((CHR ''['' # host) @ CHR '']'' # CHR '':'' # port) = Some (length (CHR ''['' # host))"
    by (rule find_char_append) (use assms(1) in auto)
  then have e: "find_char (CHR '']'') ?s = Some (length host + 1)" by simp
  show ?thesis using assms unfolding s SplitHostPort_def i e by (auto simp: numeral_2_eq_2)
next
  case False
  let ?s = "host @ CHR '':'' # port"
  have s: "JoinHostPort host port = ?s" using False by (simp add: JoinHostPort_def)
  have i: "find_last (CHR '':'') ?s = Some (length host)"
    by (rule find_last_append) (use assms(2) in auto)
  have h: "hd ?s \<noteq> CHR ''[''" using assms(1) by (cases host) auto
  show ?thesis using assms False h unfolding s SplitHostPort_def i by auto
qed

subsection \<open>Ports\<close>

text \<open>\<open>strconv.ParseUint(s, 10, 16)\<close>: decimal digits only, at most 65535.\<close>

definition ParseUint16 :: "string \<Rightarrow> nat option" where
  "ParseUint16 s = (if s = [] then None
     else (case digits_val 0 s of None \<Rightarrow> None | Some n \<Rightarrow> if n \<le> 65535 then Some n else None))"

lemma ParseUint16_itoa: "n \<le> 65535 \<Longrightarrow> ParseUint16 (itoa_nat n) = Some n"
  by (simp add: ParseUint16_def digits_val_itoa)

definition BE_PutUint16 :: "nat \<Rightarrow> byte list" where
  "BE_PutUint16 n = [of_nat (n div 256), of_nat n]"

definition BE_Uint16 :: "byte list \<Rightarrow> nat go" where
  "BE_Uint16 b = do { hi \<leftarrow> idx b 0; lo \<leftarrow> idx b 1; Some (256 * unat hi + unat lo) }"

lemma BE_Uint16_Put: "n \<le> 65535 \<Longrightarrow> BE_Uint16 (BE_PutUint16 n) = Some n"
  by (simp add: BE_Uint16_def BE_PutUint16_def idx_def unat_of_nat take_bit_eq_mod)

lemma length_BE_PutUint16 [simp]: "length (BE_PutUint16 n) = 2"
  by (simp add: BE_PutUint16_def)

subsection \<open>IP addresses as text\<close>

definition dotted :: "byte list \<Rightarrow> string" where
  "dotted ip = Join (CHR ''.'') (map (\<lambda>b. itoa_nat (unat b)) ip)"

definition hex_char :: "nat \<Rightarrow> char" where
  "hex_char d = (if d < 10 then char_of (48 + d) else char_of (87 + d))"

fun hex_nat :: "nat \<Rightarrow> string" where
  "hex_nat n = (if n < 16 then [hex_char n] else hex_nat (n div 16) @ [hex_char (n mod 16)])"

declare hex_nat.simps [simp del]

definition v4InV6 :: "byte list" where
  "v4InV6 = replicate 10 0 @ [255, 255]"

definition To4 :: "byte list \<Rightarrow> byte list option" where
  "To4 ip = (if length ip = 4 then Some ip
     else if length ip = 16 \<and> take 12 ip = v4InV6 then Some (drop 12 ip) else None)"

fun groups16 :: "byte list \<Rightarrow> nat list" where
  "groups16 (a # b # r) = (256 * unat a + unat b) # groups16 r"
| "groups16 _ = []"

text \<open>The first longest run of zero groups, from \<open>e0\<close> up to but excluding \<open>e1\<close>.\<close>

fun zero_runs :: "nat \<Rightarrow> nat list \<Rightarrow> nat \<times> nat \<Rightarrow> nat \<times> nat" where
  "zero_runs i [] best = best"
| "zero_runs i (g # gs) (e0, e1) =
     (let n = length (takeWhile (\<lambda>x. x = 0) (g # gs)) in
      zero_runs (i + 1) gs (if n > e1 - e0 then (i, i + n) else (e0, e1)))"

definition ipv6_text :: "nat list \<Rightarrow> string" where
  "ipv6_text gs = (case zero_runs 0 gs (0, 0) of (e0, e1) \<Rightarrow>
     if e1 - e0 \<le> 1 then Join (CHR '':'') (map hex_nat gs)
     else Join (CHR '':'') (map hex_nat (take e0 gs)) @ ''::'' @ Join (CHR '':'') (map hex_nat (drop e1 gs)))"

definition IP_String :: "byte list \<Rightarrow> string" where
  "IP_String ip = (if ip = [] then ''<nil>''
     else (case To4 ip of Some p4 \<Rightarrow> dotted p4
       | None \<Rightarrow> if length ip = 16 then ipv6_text (groups16 ip)
           else ''?'' @ concat (map (\<lambda>b. [hex_char (unat b div 16), hex_char (unat b mod 16)]) ip)))"

subsection \<open>net.ParseIP\<close>

text \<open>One decimal part of a dotted address.\<close>

definition parse_octet :: "string \<Rightarrow> byte option" where
  "parse_octet s = (if s = [] then None
     else (case digits_val 0 s of None \<Rightarrow> None | Some n \<Rightarrow> if n \<le> 255 then Some (of_nat n) else None))"

definition parseIPv4 :: "string \<Rightarrow> byte list option" where
  "parseIPv4 s = (case map parse_octet (Split (CHR ''.'') s) of
       [Some a, Some b, Some c, Some d] \<Rightarrow> Some [a, b, c, d]
     | _ \<Rightarrow> None)"

definition hex_val :: "char \<Rightarrow> nat option" where
  "hex_val c = (let n = of_char c :: nat in
     if 48 \<le> n \<and> n \<le> 57 then Some (n - 48)
     else if 97 \<le> n \<and> n \<le> 102 then Some (n - 87)
     else if 65 \<le> n \<and> n \<le> 70 then Some (n - 55) else None)"

text \<open>
  The loop of \<open>parseIPv6\<close>: the bytes so far and the place of the double colon. Each round adds two
  bytes and stops at sixteen, so nine rounds are enough.
\<close>

fun ipv6_loop :: "nat \<Rightarrow> string \<Rightarrow> byte list \<Rightarrow> nat option \<Rightarrow> (byte list \<times> nat option) option" where
  "ipv6_loop 0 s ip ellipsis = None"
| "ipv6_loop (Suc fuel) s ip ellipsis =
     (if 16 \<le> length ip then (if s = [] then Some (ip, ellipsis) else None)
      else
        let hs = takeWhile (\<lambda>c. hex_val c \<noteq> None) s; s' = drop (length hs) s;
            n = foldl (\<lambda>a c. 16 * a + the (hex_val c)) 0 hs
        in if hs = [] \<or> 65535 < n then None
           else if s' \<noteq> [] \<and> hd s' = CHR ''.'' then
             (if ellipsis = None \<and> length ip \<noteq> 12 \<or> 16 < length ip + 4 then None
              else map_option (\<lambda>ip4. (ip @ ip4, ellipsis)) (parseIPv4 s))
           else
             let ip' = ip @ BE_PutUint16 n
             in if s' = [] then Some (ip', ellipsis)
                else if hd s' \<noteq> CHR '':'' \<or> length s' = 1 then None
                else if hd (tl s') = CHR '':'' then
                  (if ellipsis \<noteq> None then None
                   else if tl (tl s') = [] then Some (ip', Some (length ip'))
                   else ipv6_loop fuel (tl (tl s')) ip' (Some (length ip')))
                else ipv6_loop fuel (tl s') ip' ellipsis)"

definition parseIPv6 :: "string \<Rightarrow> byte list option" where
  "parseIPv6 s =
     (if s = ''::'' then Some (replicate 16 0)
      else
        let start = (if take 2 s = ''::'' then (drop 2 s, Some 0) else (s, None))
        in case ipv6_loop 9 (fst start) [] (snd start) of
             None \<Rightarrow> None
           | Some (ip, ellipsis) \<Rightarrow>
               if length ip < 16 then
                 map_option (\<lambda>e. take e ip @ replicate (16 - length ip) 0 @ drop e ip) ellipsis
               else if ellipsis \<noteq> None then None else Some ip)"

text \<open>The sixteen-byte form, or \<open>None\<close> for \<open>nil\<close>.\<close>

definition ParseIP :: "string \<Rightarrow> byte list option" where
  "ParseIP s = (case dropWhile (\<lambda>c. c \<noteq> CHR ''.'' \<and> c \<noteq> CHR '':'') s of
       [] \<Rightarrow> None
     | c # _ \<Rightarrow> if c = CHR ''.'' then map_option (\<lambda>ip4. v4InV6 @ ip4) (parseIPv4 s) else parseIPv6 s)"

lemma unat_byte: "unat (b :: byte) < 256"
proof -
  have "unat b < 2 ^ LENGTH(8)" by (rule unsigned_less)
  then show ?thesis by simp
qed

lemma parse_octet_itoa: "parse_octet (itoa_nat (unat b)) = Some b"
  using unat_byte [of b] by (simp add: parse_octet_def digits_val_itoa)

lemma itoa_no_sep: "CHR ''.'' \<notin> set (itoa_nat n)" "CHR '':'' \<notin> set (itoa_nat n)"
  using Itoa_no_dot [of "int n"] by (simp_all add: Itoa_def)

lemma parseIPv4_dotted:
  assumes "length ip = 4"
  shows "parseIPv4 (dotted ip) = Some ip"
proof -
  obtain a b c d where ip: "ip = [a, b, c, d]"
    using assms by (auto simp: numeral_eq_Suc length_Suc_conv)
  have "Split (CHR ''.'') (dotted ip) = map (\<lambda>b. itoa_nat (unat b)) ip"
    unfolding dotted_def by (rule Split_Join) (auto simp: ip itoa_no_sep)
  then show ?thesis by (simp add: parseIPv4_def ip parse_octet_itoa)
qed

lemma ParseIP_dotted:
  assumes "length ip = 4"
  shows "ParseIP (dotted ip) = Some (v4InV6 @ ip)"
proof -
  obtain a b c d where ip: "ip = [a, b, c, d]"
    using assms by (auto simp: numeral_eq_Suc length_Suc_conv)
  let ?P = "\<lambda>c. c \<noteq> CHR ''.'' \<and> c \<noteq> CHR '':''"
  have "\<exists>r. dotted ip = itoa_nat (unat a) @ CHR ''.'' # r" by (auto simp: dotted_def ip)
  then obtain r where r: "dotted ip = itoa_nat (unat a) @ CHR ''.'' # r" by blast
  have "\<forall>c \<in> set (itoa_nat (unat a)). ?P c" using itoa_no_sep by blast
  then have "dropWhile ?P (dotted ip) = CHR ''.'' # r" unfolding r by (subst dropWhile_append2) auto
  then show ?thesis using parseIPv4_dotted [OF assms] by (simp add: ParseIP_def)
qed

text \<open>Which characters occur in numbers and dotted addresses.\<close>

lemma itoa_ord: "c \<in> set (itoa_nat n) \<Longrightarrow> 48 \<le> (of_char c :: nat) \<and> (of_char c :: nat) < 58"
  using itoa_nat_chars [of c n] by (auto simp: digit_char_def)

lemma itoa_plain: "set (itoa_nat n) \<inter> {CHR ''['', CHR '']'', CHR '':''} = {}"
  by (auto dest!: itoa_ord simp: of_char_def)

lemma set_Join: "set (Join c ps) \<subseteq> insert c (\<Union>p \<in> set ps. set p)"
  by (induction c ps rule: Join.induct) auto

lemma dotted_plain: "set (dotted ip) \<inter> {CHR ''['', CHR '']'', CHR '':'', CHR ''%''} = {}"
proof -
  have "c = CHR ''.'' \<or> 48 \<le> (of_char c :: nat) \<and> (of_char c :: nat) < 58" if "c \<in> set (dotted ip)" for c
    using that set_Join [of "CHR ''.''" "map (\<lambda>b. itoa_nat (unat b)) ip"] itoa_ord by (auto simp: dotted_def)
  then show ?thesis by (fastforce simp: of_char_def)
qed

lemma Split_dotted_port:
  "SplitHostPort (JoinHostPort (dotted ip) (itoa_nat port)) = Inr (dotted ip, itoa_nat port)"
  by (rule Split_JoinHostPort) (use dotted_plain [of ip] itoa_plain [of port] in auto)

end
