(* ===== verification/ShadowCore.thy ===== *)
theory ShadowCore
  imports ShadowStream GoText "HOL-Library.Char_ord" "HOL-Library.List_Lexorder"
begin

text \<open>
  Package \<open>core\<close> of the Shadowsocks client (\<^verbatim>\<open>src/proxyPool/ProxyClient/core/cipher.go\<close>): the cipher
  tables, the choice of a cipher by name and the derivation of a key from a password.
\<close>

text \<open>
  The primitives from outside the package: the HMAC of SHA-1, AES-GCM and the AES block cipher for a
  key, the missing ChaCha20 package, and MD5.
\<close>

record crypto_env =
  ce_hmac :: "byte list \<Rightarrow> byte list \<Rightarrow> byte list"
  ce_aesGCM :: "byte list \<Rightarrow> go_error + AEAD"
  ce_aes :: "byte list \<Rightarrow> go_error + (byte list \<Rightarrow> byte list)"
  ce_chacha20 :: chacha20_pkg
  ce_md5 :: "byte list \<Rightarrow> byte list"

definition aeadList :: "crypto_env \<Rightarrow> (string \<times> nat \<times> (byte list \<Rightarrow> go_error + Cipher)) list" where
  "aeadList env =
     [(''AEAD_AES_128_GCM'', 16, AESGCM (ce_hmac env) (ce_aesGCM env)),
      (''AEAD_AES_192_GCM'', 24, AESGCM (ce_hmac env) (ce_aesGCM env)),
      (''AEAD_AES_256_GCM'', 32, AESGCM (ce_hmac env) (ce_aesGCM env)),
      (''AEAD_CHACHA20_POLY1305'', 32, Chacha20Poly1305 (ce_hmac env))]"

definition streamList :: "crypto_env \<Rightarrow> (string \<times> nat \<times> (byte list \<Rightarrow> go_error + SCipher)) list" where
  "streamList env =
     [(''AES-128-CTR'', 16, AESCTR (ce_aes env)),
      (''AES-192-CTR'', 24, AESCTR (ce_aes env)),
      (''AES-256-CTR'', 32, AESCTR (ce_aes env)),
      (''AES-128-CFB'', 16, AESCFB (ce_aes env)),
      (''AES-192-CFB'', 24, AESCFB (ce_aes env)),
      (''AES-256-CFB'', 32, AESCFB (ce_aes env)),
      (''CHACHA20-IETF'', 32, Chacha20IETF (ce_chacha20 env)),
      (''XCHACHA20'', 32, Xchacha20 (ce_chacha20 env))]"

text \<open>The order in which Go walks over the maps does not matter: the names are sorted.\<close>

definition ListCipher :: "crypto_env \<Rightarrow> string list" where
  "ListCipher env = sort (map fst (aeadList env) @ map fst (streamList env))"

text \<open>
  \<open>kdf\<close>: digests of the previous digest and the password until there are enough bytes. With empty
  digests the loop would not end; the fuel is the number of bytes wanted.
\<close>

fun kdf_loop :: "(byte list \<Rightarrow> byte list) \<Rightarrow> byte list \<Rightarrow> nat \<Rightarrow> nat \<Rightarrow> byte list \<Rightarrow> byte list \<Rightarrow> byte list go" where
  "kdf_loop md5 password keyLen fuel b prev =
     (if keyLen \<le> length b then Some (take keyLen b)
      else (case fuel of 0 \<Rightarrow> None
        | Suc fuel' \<Rightarrow> let d = md5 (prev @ password) in kdf_loop md5 password keyLen fuel' (b @ d) d))"

declare kdf_loop.simps [simp del]

definition kdf :: "(byte list \<Rightarrow> byte list) \<Rightarrow> string \<Rightarrow> nat \<Rightarrow> byte list go" where
  "kdf md5 password keyLen = kdf_loop md5 (bytes_of password) keyLen keyLen [] []"

datatype core_Cipher = CDummy | CAead Cipher | CStream SCipher

definition ErrCipherNotSupported :: go_error where
  "ErrCipherNotSupported = Sentinel ''ErrCipherNotSupported''"

definition cipher_alias :: "string \<Rightarrow> string" where
  "cipher_alias name =
     (if name = ''CHACHA20-IETF-POLY1305'' then ''AEAD_CHACHA20_POLY1305''
      else if name = ''AES-128-GCM'' then ''AEAD_AES_128_GCM''
      else if name = ''AES-196-GCM'' then ''AEAD_AES_196_GCM''
      else if name = ''AES-256-GCM'' then ''AEAD_AES_256_GCM''
      else name)"

definition PickCipher :: "crypto_env \<Rightarrow> string \<Rightarrow> byte list \<Rightarrow> string \<Rightarrow> (go_error + core_Cipher) go" where
  "PickCipher env name key password =
     (let name = ToUpper name in
      if name = ''DUMMY'' then Some (Inr CDummy)
      else let name = cipher_alias name in
        (case map_of (aeadList env) name of
           Some (keySize, new) \<Rightarrow> do {
             key \<leftarrow> (if key = [] then kdf (ce_md5 env) password keySize else Some key);
             Some (if length key \<noteq> keySize then Inl (KeySizeError keySize)
               else (case new key of Inl err \<Rightarrow> Inl err | Inr c \<Rightarrow> Inr (CAead c))) }
         | None \<Rightarrow>
             (case map_of (streamList env) name of
                Some (keySize, new) \<Rightarrow> do {
                  key \<leftarrow> (if key = [] then kdf (ce_md5 env) password keySize else Some key);
                  Some (if length key \<noteq> keySize then Inl (SKeySizeError keySize)
                    else (case new key of Inl err \<Rightarrow> Inl err | Inr c \<Rightarrow> Inr (CStream c))) }
              | None \<Rightarrow> Some (Inl ErrCipherNotSupported))))"

text \<open>A connection under the chosen cipher; the dummy cipher leaves it as it is.\<close>

datatype core_Conn = PlainConn conn | AeadConn streamConn | StreamCipherConn sconn

definition core_StreamConn :: "core_Cipher \<Rightarrow> conn \<Rightarrow> core_Conn" where
  "core_StreamConn ciph c = (case ciph of
       CDummy \<Rightarrow> PlainConn c
     | CAead a \<Rightarrow> AeadConn (NewConn c a)
     | CStream s \<Rightarrow> StreamCipherConn (SNewConn c s))"

datatype core_PConn = PlainPacket pconn | AeadPacket packetConn | StreamPacket spacketConn

definition core_PacketConn :: "core_Cipher \<Rightarrow> pconn \<Rightarrow> core_PConn" where
  "core_PacketConn ciph c = (case ciph of
       CDummy \<Rightarrow> PlainPacket c
     | CAead a \<Rightarrow> AeadPacket (NewPacketConn c a)
     | CStream s \<Rightarrow> StreamPacket (SNewPacketConn c s))"

subsection \<open>stream.go and packet.go\<close>

text \<open>
  \<open>net.Dial\<close>, \<open>net.Listen\<close> and \<open>net.ListenPacket\<close> are parameters, \<open>None\<close> is \<open>nil\<close>. The cipher
  is its method, which wraps the connection before the error is looked at.
\<close>

definition core_Dial ::
  "(string \<Rightarrow> string \<Rightarrow> 'c option \<times> go_error option) \<Rightarrow> string \<Rightarrow> string \<Rightarrow> ('c option \<Rightarrow> 'd) \<Rightarrow> 'd \<times> go_error option" where
  "core_Dial netDial network address streamConn =
     (case netDial network address of (c, err) \<Rightarrow> (streamConn c, err))"

record ('l, 'c, 'd) listener =
  ln_Listener :: "'l option"
  ln_StreamConn :: "'c option \<Rightarrow> 'd"

definition core_Listen ::
  "(string \<Rightarrow> string \<Rightarrow> 'l option \<times> go_error option) \<Rightarrow> string \<Rightarrow> string \<Rightarrow> ('c option \<Rightarrow> 'd) \<Rightarrow>
    ('l, 'c, 'd) listener \<times> go_error option" where
  "core_Listen netListen network address ciph =
     (case netListen network address of (l, err) \<Rightarrow> (\<lparr>ln_Listener = l, ln_StreamConn = ciph\<rparr>, err))"

definition listener_Accept ::
  "('l \<Rightarrow> ('c option \<times> go_error option) \<times> 'l) \<Rightarrow> ('l, 'c, 'd) listener \<Rightarrow> ('d \<times> go_error option \<times> ('l, 'c, 'd) listener) go" where
  "listener_Accept accept l = do {
     lis \<leftarrow> ln_Listener l;
     (case accept lis of ((c, err), lis) \<Rightarrow> Some (ln_StreamConn l c, err, l\<lparr>ln_Listener := Some lis\<rparr>)) }"

definition core_ListenPacket ::
  "(string \<Rightarrow> string \<Rightarrow> 'c option \<times> go_error option) \<Rightarrow> string \<Rightarrow> string \<Rightarrow> ('c option \<Rightarrow> 'd) \<Rightarrow> 'd \<times> go_error option" where
  "core_ListenPacket netListenPacket network address packetConn =
     (case netListenPacket network address of (c, err) \<Rightarrow> (packetConn c, err))"

text \<open>A listener is returned also when \<open>net.Listen\<close> has failed; accepting on it panics.\<close>

lemma failed_listener_panics:
  assumes "netListen network address = (None, Some err)"
  shows "\<exists>l. core_Listen netListen network address ciph = (l, Some err) \<and> listener_Accept accept l = None"
  using assms by (simp add: core_Listen_def listener_Accept_def)

subsection \<open>Key derivation\<close>

text \<open>The digest chain of the original Shadowsocks: \<open>D\<^sub>1 = MD5(password)\<close>, \<open>D\<^sub>i\<^sub>+\<^sub>1 = MD5(D\<^sub>i | password)\<close>.\<close>

fun kdf_digest :: "(byte list \<Rightarrow> byte list) \<Rightarrow> byte list \<Rightarrow> nat \<Rightarrow> byte list" where
  "kdf_digest md5 password 0 = []"
| "kdf_digest md5 password (Suc i) = md5 (kdf_digest md5 password i @ password)"

definition kdf_chain :: "(byte list \<Rightarrow> byte list) \<Rightarrow> byte list \<Rightarrow> nat \<Rightarrow> byte list" where
  "kdf_chain md5 password n = concat (map (kdf_digest md5 password) [1..<Suc n])"

lemma kdf_chain_Suc: "kdf_chain md5 password (Suc n) = kdf_chain md5 password n @ kdf_digest md5 password (Suc n)"
  by (simp add: kdf_chain_def)

lemma length_kdf_chain:
  assumes "\<And>x. length (md5 x) = 16"
  shows "length (kdf_chain md5 password n) = 16 * n"
  by (induction n) (simp_all add: kdf_chain_Suc assms, simp add: kdf_chain_def)

lemma kdf_chain_prefix: "i \<le> n \<Longrightarrow> \<exists>r. kdf_chain md5 password n = kdf_chain md5 password i @ r"
  by (induction n rule: dec_induct) (auto simp: kdf_chain_Suc simp del: kdf_digest.simps)

lemma kdf_loop_chain:
  assumes "\<And>x. length (md5 x) = 16" and "keyLen \<le> 16 * (i + fuel)" and "keyLen \<le> 16 * n" and "i \<le> n"
  shows "kdf_loop md5 password keyLen fuel (kdf_chain md5 password i) (kdf_digest md5 password i) =
    Some (take keyLen (kdf_chain md5 password n))"
  using assms(2,4)
proof (induction fuel arbitrary: i)
  have len: "length (kdf_chain md5 password j) = 16 * j" for j by (rule length_kdf_chain) (rule assms(1))
  have enough: "kdf_loop md5 password keyLen fuel (kdf_chain md5 password i) prev = Some (take keyLen (kdf_chain md5 password n))"
    if "keyLen \<le> 16 * i" "i \<le> n" for fuel i prev
    using that len [of i] kdf_chain_prefix [OF that(2), of md5 password] by (auto simp: kdf_loop.simps)
  {
    case 0
    then show ?case using enough by simp
  next
    case (Suc fuel)
    show ?case
    proof (cases "keyLen \<le> 16 * i")
      case True
      with enough Suc.prems(2) show ?thesis by blast
    next
      case False
      then have "Suc i \<le> n" using assms(3) by simp
      with Suc.IH [of "Suc i"] Suc.prems False len [of i] show ?thesis
        by (subst kdf_loop.simps) (simp add: kdf_chain_Suc Let_def)
    qed
  }
qed

lemma kdf_returns:
  assumes "\<And>x. length (md5 x) = 16"
  shows "kdf md5 password keyLen = Some (take keyLen (kdf_chain md5 (bytes_of password) keyLen))"
    and "length (take keyLen (kdf_chain md5 (bytes_of password) keyLen)) = keyLen"
proof -
  have "kdf_loop md5 (bytes_of password) keyLen keyLen (kdf_chain md5 (bytes_of password) 0) (kdf_digest md5 (bytes_of password) 0) =
      Some (take keyLen (kdf_chain md5 (bytes_of password) keyLen))"
    by (rule kdf_loop_chain) (use assms in simp_all)
  then show "kdf md5 password keyLen = Some (take keyLen (kdf_chain md5 (bytes_of password) keyLen))"
    by (simp add: kdf_def kdf_chain_def)
  have "length (kdf_chain md5 (bytes_of password) keyLen) = 16 * keyLen"
    by (rule length_kdf_chain) (rule assms)
  then show "length (take keyLen (kdf_chain md5 (bytes_of password) keyLen)) = keyLen" by simp
qed

subsection \<open>Choosing a cipher\<close>

text \<open>What the packages document: 16-byte digests, AES keys of 16, 24 or 32 bytes, ChaCha20 keys of 32.\<close>

definition crypto_ok :: "crypto_env \<Rightarrow> bool" where
  "crypto_ok env \<longleftrightarrow> (\<forall>x. length (ce_md5 env x) = 16) \<and>
     (\<forall>key. length key \<in> {16, 24, 32} \<longrightarrow> (\<exists>blk. ce_aes env key = Inr blk)) \<and> cc_KeySize (ce_chacha20 env) = 32"

definition cipher_names :: "string list" where
  "cipher_names = [''AEAD_AES_128_GCM'', ''AEAD_AES_192_GCM'', ''AEAD_AES_256_GCM'', ''AEAD_CHACHA20_POLY1305'',
     ''AES-128-CTR'', ''AES-192-CTR'', ''AES-256-CTR'', ''AES-128-CFB'', ''AES-192-CFB'', ''AES-256-CFB'', ''CHACHA20-IETF'', ''XCHACHA20'']"

lemma set_ListCipher: "set (ListCipher env) = set cipher_names"
  unfolding ListCipher_def set_sort by (simp add: aeadList_def streamList_def cipher_names_def)

lemma ToUpper_listed:
  assumes "name \<in> set (ListCipher env)"
  shows "ToUpper name = name \<and> name \<noteq> ''DUMMY'' \<and> cipher_alias name = name"
proof -
  have "\<forall>n \<in> set cipher_names. ToUpper n = n \<and> n \<noteq> ''DUMMY'' \<and> cipher_alias n = n" by code_simp
  with assms show ?thesis by (simp add: set_ListCipher)
qed

lemma listed_entry:
  assumes "crypto_ok env" and "name \<in> set (ListCipher env)"
  shows "(\<exists>n new. map_of (aeadList env) name = Some (n, new) \<and> 0 < n \<and> (\<forall>key. length key = n \<longrightarrow> (\<exists>c. new key = Inr c))) \<or>
    (map_of (aeadList env) name = None \<and>
     (\<exists>n new. map_of (streamList env) name = Some (n, new) \<and> 0 < n \<and> (\<forall>key. length key = n \<longrightarrow> (\<exists>c. new key = Inr c))))"
proof -
  have aes: "\<exists>c. AESCTR (ce_aes env) key = Inr c" "\<exists>c. AESCFB (ce_aes env) key = Inr c" if "length key \<in> {16, 24, 32}" for key
    using assms(1) that by (auto simp: crypto_ok_def AESCTR_def AESCFB_def split: sum.split)
  have cc: "cc_KeySize (ce_chacha20 env) = 32" using assms(1) by (simp add: crypto_ok_def)
  from assms(2) show ?thesis
    by (auto simp: ListCipher_def aeadList_def streamList_def AESGCM_def Chacha20Poly1305_def c20_KeySize_def Chacha20IETF_def Xchacha20_def cc aes)
qed

text \<open>In the place of GCM an AEAD that enforces the rule on overlaps.\<close>

definition strict_AEAD :: "AEAD \<Rightarrow> AEAD" where
  "strict_AEAD A = A\<lparr>OpenAhead := \<lambda>off nonce mem.
     if inexact_overlap off (length mem - off - Overhead A) then None else Open A nonce (drop off mem)\<rparr>"

definition demo_crypto :: crypto_env where
  "demo_crypto = \<lparr>ce_hmac = demo_hmac20, ce_aesGCM = \<lambda>key. Inr (strict_AEAD (chacha20poly1305 key)), ce_aes = \<lambda>key. Inr (map NOT),
     ce_chacha20 = \<lparr>cc_KeySize = 32, cc_INonceSize = 12, cc_XNonceSize = 24, cc_NewCipher = \<lambda>k iv. Inr (\<lambda>_. 0),
       cc_XORAhead = strict_XORAhead\<rparr>,
     ce_md5 = \<lambda>x. replicate 16 (of_nat (length x))\<rparr>"

text \<open>
  AES-192-GCM has no short name: the alias is spelled "AES-196-GCM" and maps to an entry that does
  not exist, so both spellings are refused whatever the key and the password.
\<close>

lemma aes_192_gcm_refused:
  "PickCipher env ''AES-196-GCM'' key password = Some (Inl ErrCipherNotSupported) \<and>
   PickCipher env ''AES-192-GCM'' key password = Some (Inl ErrCipherNotSupported)"
  by (simp add: PickCipher_def Let_def ToUpper_def upper_char_def of_char_def cipher_alias_def aeadList_def streamList_def)

end
