(* ===== verification/Bufio.thy ===== *)
theory Bufio
  imports GoText
begin

text \<open>
  \<open>bufio.Reader\<close> over a connection, as the SOCKS code uses it. The state is the unread part of the
  4096-byte buffer and the connection behind it. The interface that the parsers rely on is the
  locale \<open>byte_source\<close>: reading consumes the remaining bytes in order. \<open>Read\<close> itself promises only
  some prefix, and the code that ignores its count leaves the rest of the slice zero.
\<close>

type_synonym rd = "byte list \<times> conn"

definition bufio_size :: nat where
  "bufio_size = 4096"

definition NewBufio :: "conn \<Rightarrow> rd" where
  "NewBufio c = ([], c)"

definition ReadByte :: "rd \<Rightarrow> (go_error + byte) \<times> rd" where
  "ReadByte r = (case r of
       (x # b, c) \<Rightarrow> (Inr x, (b, c))
     | ([], c) \<Rightarrow>
         (case conn_Read bufio_size c of
            (Inl e, c) \<Rightarrow> (Inl e, ([], c))
          | (Inr bs, c) \<Rightarrow> (Inr (hd bs), (tl bs, c))))"

definition bufio_Read :: "nat \<Rightarrow> rd \<Rightarrow> (go_error + byte list) \<times> rd" where
  "bufio_Read n r = (case r of (b, c) \<Rightarrow>
     if n = 0 then (Inr [], r)
     else if b \<noteq> [] then (Inr (take n b), (drop n b, c))
     else if bufio_size \<le> n then
       (case conn_Read n c of (Inl e, c) \<Rightarrow> (Inl e, ([], c)) | (Inr bs, c) \<Rightarrow> (Inr bs, ([], c)))
     else (case conn_Read bufio_size c of
         (Inl e, c) \<Rightarrow> (Inl e, ([], c))
       | (Inr bs, c) \<Rightarrow> (Inr (take n bs), (drop n bs, c))))"

text \<open>\<open>x := make([]byte, n); reader.Read(x)\<close> with the count ignored.\<close>

definition read_into :: "nat \<Rightarrow> rd \<Rightarrow> (go_error + byte list) \<times> rd" where
  "read_into n r = (case bufio_Read n r of
       (Inl e, r) \<Rightarrow> (Inl e, r)
     | (Inr bs, r) \<Rightarrow> (Inr (bs @ replicate (n - length bs) 0), r))"

text \<open>
  \<open>ReadBytes\<close>: up to and including the delimiter; \<open>acc\<close> are the full buffers collected so far. On
  an error the bytes read so far come with it, but the code here drops them.
\<close>

function read_bytes :: "byte \<Rightarrow> byte list \<Rightarrow> byte list \<Rightarrow> conn \<Rightarrow> (go_error + byte list) \<times> rd" where
  "read_bytes d acc b c =
     (if d \<in> set b then (Inr (acc @ takeWhile (\<lambda>x. x \<noteq> d) b @ [d]), (tl (dropWhile (\<lambda>x. x \<noteq> d) b), c))
      else if bufio_size \<le> length b then read_bytes d (acc @ b) [] c
      else (case conn_Read (bufio_size - length b) c of
              (Inl e, c') \<Rightarrow> (Inl e, ([], c'))
            | (Inr bs, c') \<Rightarrow> read_bytes d acc (b @ bs) c'))"
  by pat_completeness auto
termination
  by (relation "measures [\<lambda>(d, acc, b, c). length (pending c), \<lambda>(d, acc, b, c). length b]")
    (auto simp: bufio_size_def dest!: conn_Read_decreases [OF sym])

declare read_bytes.simps [simp del]

definition ReadBytes :: "byte \<Rightarrow> rd \<Rightarrow> (go_error + byte list) \<times> rd" where
  "ReadBytes d r = read_bytes d [] (fst r) (snd r)"

function Discard :: "nat \<Rightarrow> rd \<Rightarrow> go_error option \<times> rd" where
  "Discard n (b, c) =
     (if n = 0 then (None, (b, c))
      else if b \<noteq> [] then Discard (n - length b) (drop n b, c)
      else (case conn_Read bufio_size c of
              (Inl e, c') \<Rightarrow> (Some e, ([], c'))
            | (Inr bs, c') \<Rightarrow> Discard (n - length bs) (drop n bs, c')))"
  by pat_completeness auto
termination
  by (relation "measures [\<lambda>(n, b, c). length (pending c), \<lambda>(n, b, c). length b]")
    (auto simp: bufio_size_def dest!: conn_Read_decreases [OF sym])

declare Discard.simps [simp del]

subsection \<open>The interface\<close>

text \<open>
  \<open>rest s\<close> are the bytes that will come out of the source \<open>s\<close>, \<open>alive s\<close> that it is not closed.
\<close>

locale byte_source =
  fixes rest :: "'s \<Rightarrow> byte list" and alive :: "'s \<Rightarrow> bool"
    and next_byte :: "'s \<Rightarrow> (go_error + byte) \<times> 's"
    and some_bytes :: "nat \<Rightarrow> 's \<Rightarrow> (go_error + byte list) \<times> 's"
    and upto :: "byte \<Rightarrow> 's \<Rightarrow> (go_error + byte list) \<times> 's"
  assumes next_byte: "alive s \<Longrightarrow> rest s = b # bs \<Longrightarrow> \<exists>s'. next_byte s = (Inr b, s') \<and> rest s' = bs \<and> alive s'"
    and next_byte_end: "alive s \<Longrightarrow> rest s = [] \<Longrightarrow> \<exists>s'. next_byte s = (Inl EOF, s') \<and> rest s' = [] \<and> alive s'"
    and some_bytes: "alive s \<Longrightarrow> rest s \<noteq> [] \<Longrightarrow> 0 < n \<Longrightarrow>
      \<exists>bs s'. some_bytes n s = (Inr bs, s') \<and> bs \<noteq> [] \<and> length bs \<le> n \<and> rest s = bs @ rest s' \<and> alive s'"
    and upto: "alive s \<Longrightarrow> rest s = xs @ d # ys \<Longrightarrow> d \<notin> set xs \<Longrightarrow>
      \<exists>s'. upto d s = (Inr (xs @ [d]), s') \<and> rest s' = ys \<and> alive s'"
begin

text \<open>Reading byte by byte returns the stream, whatever the segments were.\<close>

fun next_bytes :: "nat \<Rightarrow> 's \<Rightarrow> (go_error + byte list) \<times> 's" where
  "next_bytes 0 s = (Inr [], s)"
| "next_bytes (Suc n) s = (case next_byte s of
       (Inl e, s) \<Rightarrow> (Inl e, s)
     | (Inr b, s) \<Rightarrow> (case next_bytes n s of (Inl e, s) \<Rightarrow> (Inl e, s) | (Inr bs, s) \<Rightarrow> (Inr (b # bs), s)))"

lemma next_bytes_rest:
  assumes "alive s" and "rest s = xs @ ys"
  shows "\<exists>s'. next_bytes (length xs) s = (Inr xs, s') \<and> rest s' = ys \<and> alive s'"
  using assms
proof (induction xs arbitrary: s)
  case (Cons x xs)
  then obtain s1 where s1: "next_byte s = (Inr x, s1)" "rest s1 = xs @ ys" "alive s1"
    using next_byte [of s x "xs @ ys"] by auto
  from Cons.IH [OF s1(3,2)] s1(1) show ?case by auto
qed simp

end

definition rd_rest :: "rd \<Rightarrow> byte list" where
  "rd_rest r = fst r @ pending (snd r)"

definition rd_alive :: "rd \<Rightarrow> bool" where
  "rd_alive r \<longleftrightarrow> \<not> cn_closed (snd r)"

lemma bufio_size_pos: "0 < bufio_size"
  by (simp add: bufio_size_def)

lemma first_delimiter:
  assumes "xs @ d # ys = u @ d # v" and "d \<notin> set xs" and "d \<notin> set u"
  shows "xs = u \<and> ys = v"
proof -
  have "takeWhile (\<lambda>x. x \<noteq> d) (xs @ d # ys) = xs" "takeWhile (\<lambda>x. x \<noteq> d) (u @ d # v) = u"
    using assms(2,3) by (auto simp: takeWhile_tail takeWhile_eq_all_conv)
  then have "xs = u" using assms(1) by simp
  with assms(1) show ?thesis by simp
qed

lemma no_delimiter:
  assumes "b @ p = xs @ d # ys" and "d \<notin> set b"
  shows "\<exists>xs'. xs = b @ xs' \<and> p = xs' @ d # ys"
  using assms by (auto simp: append_eq_append_conv2 append_eq_Cons_conv)

lemma read_bytes_rest:
  assumes "\<not> cn_closed c" and "b @ pending c = xs @ d # ys" and "d \<notin> set xs"
  shows "\<exists>b' c'. read_bytes d acc b c = (Inr (acc @ xs @ [d]), (b', c')) \<and> b' @ pending c' = ys \<and> \<not> cn_closed c'"
  using assms
proof (induction d acc b c arbitrary: xs rule: read_bytes.induct)
  case (1 d acc b c)
  show ?case
  proof (cases "d \<in> set b")
    case True
    then obtain u v where b: "b = u @ d # v" "d \<notin> set u" by (meson split_list_first)
    have "u = xs \<and> v @ pending c = ys"
      using first_delimiter [of u d "v @ pending c" xs ys] "1.prems"(2,3) b by simp
    moreover have "takeWhile (\<lambda>x. x \<noteq> d) b = u" "tl (dropWhile (\<lambda>x. x \<noteq> d) b) = v"
      using b by (simp_all add: takeWhile_append dropWhile_append)
    ultimately show ?thesis
      using True "1.prems"(1) by (simp add: read_bytes.simps [of d acc b c])
  next
    case nd: False
    obtain xs' where xs: "xs = b @ xs'" "pending c = xs' @ d # ys"
      using no_delimiter [OF "1.prems"(2) nd] by blast
    show ?thesis
    proof (cases "bufio_size \<le> length b")
      case True
      then show ?thesis
        using "1.IH"(1) [OF nd True "1.prems"(1), of xs'] xs "1.prems"(3) nd by (simp add: read_bytes.simps [of d acc b c])
    next
      case False
      then obtain bs c1 where rd: "conn_Read (bufio_size - length b) c = (Inr bs, c1)"
        using conn_Read_progress [OF "1.prems"(1)] xs(2) by force
      have k: "0 < bufio_size - length b" using False by simp
      have f: "pending c = bs @ pending c1" "\<not> cn_closed c1"
        using conn_Read_Inr [OF rd k] reads_to_fields [OF conn_Read_Inr(5) [OF rd k]] by simp_all
      have "(b @ bs) @ pending c1 = xs @ d # ys" using f(1) "1.prems"(2) by simp
      from "1.IH"(2) [OF nd False rd [symmetric] refl f(2) this "1.prems"(3)] nd False rd
      show ?thesis by (simp add: read_bytes.simps [of d acc b c])
    qed
  qed
qed

interpretation bufio: byte_source rd_rest rd_alive ReadByte bufio_Read ReadBytes
proof unfold_locales
  fix s :: rd and b bs
  assume a: "rd_alive s" "rd_rest s = b # bs"
  obtain q c where s: "s = (q, c)" by fastforce
  show "\<exists>s'. ReadByte s = (Inr b, s') \<and> rd_rest s' = bs \<and> rd_alive s'"
  proof (cases q)
    case Nil
    then obtain x c1 where rd: "conn_Read bufio_size c = (Inr x, c1)"
      using conn_Read_progress [of c bufio_size] a s bufio_size_pos by (auto simp: rd_rest_def rd_alive_def)
    note f = conn_Read_Inr [OF rd bufio_size_pos]
    with rd a s Nil reads_to_fields [OF f(5)] show ?thesis
      by (cases x) (auto simp: ReadByte_def rd_rest_def rd_alive_def)
  qed (use a s in \<open>auto simp: ReadByte_def rd_rest_def rd_alive_def\<close>)
next
  fix s :: rd
  assume "rd_alive s" "rd_rest s = []"
  then show "\<exists>s'. ReadByte s = (Inl EOF, s') \<and> rd_rest s' = [] \<and> rd_alive s'"
    using conn_Read_at_end [of "snd s" bufio_size] bufio_size_pos
    by (cases s) (auto simp: ReadByte_def rd_rest_def rd_alive_def pending_def)
next
  fix s :: rd and n :: nat
  assume a: "rd_alive s" "rd_rest s \<noteq> []" "0 < n"
  obtain q c where s: "s = (q, c)" by fastforce
  show "\<exists>bs s'. bufio_Read n s = (Inr bs, s') \<and> bs \<noteq> [] \<and> length bs \<le> n \<and> rd_rest s = bs @ rd_rest s' \<and> rd_alive s'"
  proof (cases "q = []")
    case True
    let ?k = "if bufio_size \<le> n then n else bufio_size"
    have k: "0 < ?k" using a(3) bufio_size_pos by simp
    then obtain x c1 where rd: "conn_Read ?k c = (Inr x, c1)"
      using conn_Read_progress [of c ?k] a s True by (auto simp: rd_rest_def rd_alive_def)
    note f = conn_Read_Inr [OF rd k]
    with rd a s True reads_to_fields [OF f(5)] show ?thesis
      by (auto simp: bufio_Read_def rd_rest_def rd_alive_def split: if_splits)
  qed (use a s in \<open>auto simp: bufio_Read_def rd_rest_def rd_alive_def\<close>)
next
  fix s :: rd and xs d ys
  assume "rd_alive s" "rd_rest s = xs @ d # ys" "d \<notin> set xs"
  then show "\<exists>s'. ReadBytes d s = (Inr (xs @ [d]), s') \<and> rd_rest s' = ys \<and> rd_alive s'"
    using read_bytes_rest [of "snd s" "fst s" xs d ys "[]"] by (auto simp: ReadBytes_def rd_rest_def rd_alive_def)
qed

subsection \<open>Parsing from the buffer\<close>

text \<open>\<open>if x, err = \<dots>; err != nil { return }\<close>\<close>

definition andthen :: "(go_error + 'a) \<times> 's \<Rightarrow> ('a \<Rightarrow> 's \<Rightarrow> (go_error + 'b) \<times> 's) \<Rightarrow> (go_error + 'b) \<times> 's" where
  "andthen m f = (case m of (Inl e, s) \<Rightarrow> (Inl e, s) | (Inr x, s) \<Rightarrow> f x s)"

lemma andthen_simps [simp]: "andthen (Inl e, s) f = (Inl e, s)" "andthen (Inr x, s) f = f x s"
  by (simp_all add: andthen_def)

named_theorems buffered \<open>reads that the buffer satisfies\<close>

lemma ReadByte_buffered [buffered]: "ReadByte (x # b, c) = (Inr x, (b, c))"
  by (simp add: ReadByte_def)

lemma read_into_buffered [buffered]:
  assumes "n \<le> length b"
  shows "read_into n (b, c) = (Inr (take n b), (drop n b, c))"
  using assms by (cases "b = []") (auto simp: read_into_def bufio_Read_def)

lemma ReadBytes_buffered [buffered]:
  assumes "d \<notin> set xs"
  shows "ReadBytes d (xs @ d # b, c) = (Inr (xs @ [d]), (b, c))"
  using assms by (simp add: ReadBytes_def read_bytes.simps [of d "[]"] takeWhile_append dropWhile_append)

lemma Discard_buffered [buffered]:
  assumes "n \<le> length b"
  shows "Discard n (b, c) = (None, (drop n b, c))"
  using assms by (cases "n = 0 \<or> b = []") (auto simp: Discard.simps)

text \<open>The first read takes a whole segment into the buffer when it fits.\<close>

definition open_conn :: "conn \<Rightarrow> byte list list \<Rightarrow> bool" where
  "open_conn c segs \<longleftrightarrow> \<not> cn_closed c \<and> cn_in c = segs"

lemma ReadByte_segment:
  assumes "open_conn c ((x # seg) # segs)" and "length seg < bufio_size"
  shows "ReadByte (NewBufio c) = (Inr x, (seg, c\<lparr>cn_in := segs\<rparr>))"
  using assms by (simp add: NewBufio_def ReadByte_def conn_Read_def open_conn_def bufio_size_def)

lemma ReadByte_no_segment:
  assumes "open_conn c []"
  shows "ReadByte (NewBufio c) = (Inl EOF, ([], c\<lparr>cn_in := []\<rparr>))"
  using assms by (simp add: NewBufio_def ReadByte_def conn_Read_def open_conn_def bufio_size_def)

lemma read_into_segment:
  assumes "open_conn c (seg # segs)" and "n \<le> length seg" and "length seg < bufio_size" and "0 < n"
  shows "read_into n (NewBufio c) = (Inr (take n seg), (drop n seg, c\<lparr>cn_in := segs\<rparr>))"
proof -
  have "seg \<noteq> []" using assms by auto
  with assms show ?thesis
    by (simp add: NewBufio_def read_into_def bufio_Read_def conn_Read_def open_conn_def bufio_size_def)
qed

end
