(* ===== verification/SocksPacket.thy ===== *)
theory SocksPacket
  imports Bufio
begin

text \<open>
  Packets of the SOCKS package: \<^verbatim>\<open>const.go\<close>, \<^verbatim>\<open>packet.go\<close>, \<^verbatim>\<open>utils.go\<close> and \<open>splitHostPort\<close> of
  \<^verbatim>\<open>client.go\<close> under \<^verbatim>\<open>src/proxyPool/SOCKSProxy\<close>. A \<open>nil\<close> slice is the empty list.
\<close>

subsection \<open>const.go\<close>

definition socks4version :: byte where "socks4version = 4"
definition socks5version :: byte where "socks5version = 5"
definition commandConnect :: byte where "commandConnect = 1"
definition commandUDPAssociate :: byte where "commandUDPAssociate = 3"
definition socks4StatusGranted :: byte where "socks4StatusGranted = 90"
definition socks4StatusRejected :: byte where "socks4StatusRejected = 91"
definition socks5AddressTypeIPv4 :: byte where "socks5AddressTypeIPv4 = 1"
definition socks5AddressTypeFQDN :: byte where "socks5AddressTypeFQDN = 3"
definition socks5AddressTypeIPv6 :: byte where "socks5AddressTypeIPv6 = 4"
definition socks5StatusSucceeded :: byte where "socks5StatusSucceeded = 0"
definition socks5StatusGeneral :: byte where "socks5StatusGeneral = 1"
definition socks5StatusHostUnreachable :: byte where "socks5StatusHostUnreachable = 4"
definition socks5StatusCommandNotSupported :: byte where "socks5StatusCommandNotSupported = 7"
definition socks5StatusAddressTypeNotSupported :: byte where "socks5StatusAddressTypeNotSupported = 8"
definition socks5AuthMethodNoRequired :: byte where "socks5AuthMethodNoRequired = 0"
definition socks5AuthMethodPassword :: byte where "socks5AuthMethodPassword = 2"
definition socks5AuthMethodTLSPassword :: byte where "socks5AuthMethodTLSPassword = 0x82"
definition socks5AuthMethodNoAcceptable :: byte where "socks5AuthMethodNoAcceptable = 0xFF"

lemmas socks_consts = socks4version_def socks5version_def commandConnect_def commandUDPAssociate_def
  socks4StatusGranted_def socks4StatusRejected_def socks5AddressTypeIPv4_def socks5AddressTypeFQDN_def
  socks5AddressTypeIPv6_def socks5StatusSucceeded_def socks5StatusGeneral_def socks5StatusHostUnreachable_def
  socks5StatusCommandNotSupported_def socks5StatusAddressTypeNotSupported_def socks5AuthMethodNoRequired_def
  socks5AuthMethodPassword_def socks5AuthMethodTLSPassword_def socks5AuthMethodNoAcceptable_def

definition errVersionError :: go_error where "errVersionError = Sentinel ''errVersionError''"
definition errCommandNotSupported :: go_error where "errCommandNotSupported = Sentinel ''errCommandNotSupported''"
definition errAddressTypeNotSupported :: go_error where "errAddressTypeNotSupported = Sentinel ''errAddressTypeNotSupported''"
definition errAuthMethodNotSupported :: go_error where "errAuthMethodNotSupported = Sentinel ''errAuthMethodNotSupported''"

lemmas socks_errors = errVersionError_def errCommandNotSupported_def errAddressTypeNotSupported_def errAuthMethodNotSupported_def

subsection \<open>utils.go and splitHostPort\<close>

definition toPort :: "string \<Rightarrow> byte list" where
  "toPort port = (case ParseUint16 port of Some n \<Rightarrow> BE_PutUint16 n | None \<Rightarrow> [])"

definition splitHostPort :: "string \<Rightarrow> go_error + byte list \<times> byte list" where
  "splitHostPort addr = (case SplitHostPort addr of
       Inl err \<Rightarrow> Inl err
     | Inr (hostName, hostPort) \<Rightarrow> Inr (bytes_of hostName, toPort hostPort))"

subsection \<open>SOCKS4 packets\<close>

record socks4Request =
  s4_command :: byte
  s4_port :: "byte list"
  s4_ip :: "byte list"
  s4_userId :: "byte list"
  s4_fqdn :: "byte list"

definition new_socks4Request :: socks4Request where
  "new_socks4Request = \<lparr>s4_command = 0, s4_port = [], s4_ip = [], s4_userId = [], s4_fqdn = []\<rparr>"

definition IsSOCKS4A :: "socks4Request \<Rightarrow> bool go" where
  "IsSOCKS4A request = do {
     a \<leftarrow> idx (s4_ip request) 0;
     if a \<noteq> 0 then Some False else do {
       b \<leftarrow> idx (s4_ip request) 1;
       if b \<noteq> 0 then Some False else do {
         c \<leftarrow> idx (s4_ip request) 2;
         if c \<noteq> 0 then Some False else do {
           d \<leftarrow> idx (s4_ip request) 3;
           Some (d \<noteq> 0) } } } }"

definition socks4_Address :: "socks4Request \<Rightarrow> string go" where
  "socks4_Address request = do {
     a \<leftarrow> IsSOCKS4A request;
     let host = (if a then string_of (s4_fqdn request) else IP_String (s4_ip request));
     port \<leftarrow> BE_Uint16 (s4_port request);
     Some (JoinHostPort host (itoa_nat port)) }"

definition socks4_ToPacket :: "socks4Request \<Rightarrow> byte list go" where
  "socks4_ToPacket request = do {
     a \<leftarrow> IsSOCKS4A request;
     Some ([socks4version, s4_command request] @ s4_port request @ s4_ip request @ s4_userId request @ [0] @
       (if a then s4_fqdn request @ [0] else [])) }"

record socks4Response =
  r4_status :: byte
  r4_port :: "byte list"
  r4_ip :: "byte list"

definition socks4Response_ToPacket :: "socks4Response \<Rightarrow> byte list" where
  "socks4Response_ToPacket response = [0, r4_status response] @ r4_port response @ r4_ip response"

text \<open>
  The request is returned filled as far as reading got, together with the error; the server
  answers on the partial request.
\<close>

definition readSocks4Request :: "conn \<Rightarrow> ((socks4Request \<times> go_error option) \<times> conn) go" where
  "readSocks4Request conn = (let request = new_socks4Request in
     case ReadByte (NewBufio conn) of
       (Inl err, reader) \<Rightarrow> Some ((request, Some err), snd reader)
     | (Inr command, reader) \<Rightarrow> (let request = request\<lparr>s4_command := command, s4_port := replicate 2 0\<rparr> in
     case read_into 2 reader of
       (Inl err, reader) \<Rightarrow> Some ((request, Some err), snd reader)
     | (Inr port, reader) \<Rightarrow> (let request = request\<lparr>s4_port := port, s4_ip := replicate 4 0\<rparr> in
     case read_into 4 reader of
       (Inl err, reader) \<Rightarrow> Some ((request, Some err), snd reader)
     | (Inr ip, reader) \<Rightarrow> (let request = request\<lparr>s4_ip := ip\<rparr> in
     case ReadBytes 0 reader of
       (Inl err, reader) \<Rightarrow> Some ((request, Some err), snd reader)
     | (Inr userId, reader) \<Rightarrow> (let request = request\<lparr>s4_userId := userId\<rparr> in do {
         a \<leftarrow> IsSOCKS4A request;
         if \<not> a then Some ((request, None), snd reader)
         else (case ReadBytes 0 reader of
             (Inl err, reader) \<Rightarrow> Some ((request, Some err), snd reader)
           | (Inr fqdn, reader) \<Rightarrow> Some ((request\<lparr>s4_fqdn := fqdn\<rparr>, None), snd reader)) })))))"

subsection \<open>SOCKS5 packets\<close>

record socks5Addr =
  a_addrType :: byte
  a_addr :: "byte list"
  a_port :: "byte list"

definition readSocks5Addr :: "rd \<Rightarrow> (go_error + socks5Addr) \<times> rd" where
  "readSocks5Addr reader =
     andthen (ReadByte reader) (\<lambda>addrType reader.
     andthen
       (if addrType = socks5AddressTypeIPv4 \<or> addrType = socks5AddressTypeIPv6 then
          read_into (if addrType = socks5AddressTypeIPv6 then 16 else 4) reader
        else if addrType = socks5AddressTypeFQDN then
          andthen (ReadByte reader) (\<lambda>length reader. read_into (unat length) reader)
        else (Inl errAddressTypeNotSupported, reader)) (\<lambda>addr reader.
     andthen (read_into 2 reader) (\<lambda>port reader.
       (Inr \<lparr>a_addrType = addrType, a_addr = addr, a_port = port\<rparr>, reader))))"

record socks5InitialRequest =
  i5_version :: byte
  i5_methods :: "byte list"

definition socks5Initial_ToPacket :: "socks5InitialRequest \<Rightarrow> byte list" where
  "socks5Initial_ToPacket request = [i5_version request, of_nat (length (i5_methods request))] @ i5_methods request"

record socks5Request =
  s5_version :: byte
  s5_command :: byte
  s5_addr :: socks5Addr

definition socks5_ToPacket :: "socks5Request \<Rightarrow> byte list" where
  "socks5_ToPacket request =
     [s5_version request, s5_command request, 0, a_addrType (s5_addr request)] @ a_addr (s5_addr request) @ a_port (s5_addr request)"

definition socks5_Address :: "socks5Request \<Rightarrow> string go" where
  "socks5_Address request = (let a = s5_addr request;
     host = (if a_addrType a = socks5AddressTypeIPv4 \<or> a_addrType a = socks5AddressTypeIPv6 then IP_String (a_addr a)
             else if a_addrType a = socks5AddressTypeFQDN then string_of (a_addr a) else []) in do {
     port \<leftarrow> BE_Uint16 (a_port a);
     Some (JoinHostPort host (itoa_nat port)) })"

definition readSocks5Request :: "conn \<Rightarrow> (go_error + socks5Request) \<times> conn" where
  "readSocks5Request conn =
     (case andthen (ReadByte (NewBufio conn)) (\<lambda>version reader.
           andthen (ReadByte reader) (\<lambda>command reader.
           andthen (ReadByte reader) (\<lambda>_ reader.
           andthen (readSocks5Addr reader) (\<lambda>addr reader.
             (Inr \<lparr>s5_version = version, s5_command = command, s5_addr = addr\<rparr>, reader))))) of
        (res, reader) \<Rightarrow> (res, snd reader))"

subsection \<open>Round trips\<close>

text \<open>The request that the client of the package builds for a host name.\<close>

definition fqdn_request :: "byte \<Rightarrow> byte list \<Rightarrow> byte list \<Rightarrow> socks5Request" where
  "fqdn_request command host port = \<lparr>s5_version = socks5version, s5_command = command,
     s5_addr = \<lparr>a_addrType = socks5AddressTypeFQDN, a_addr = of_nat (length host) # host, a_port = port\<rparr>\<rparr>"

definition parsed_request :: "byte \<Rightarrow> byte list \<Rightarrow> byte list \<Rightarrow> socks5Request" where
  "parsed_request command host port = \<lparr>s5_version = socks5version, s5_command = command,
     s5_addr = \<lparr>a_addrType = socks5AddressTypeFQDN, a_addr = host, a_port = port\<rparr>\<rparr>"

lemma readSocks5Request_fqdn:
  assumes "open_conn c ((socks5_ToPacket (fqdn_request command host port) @ extra) # segs)"
    and "length host \<le> 255" and "length port = 2" and "length extra < 3000"
  shows "readSocks5Request c = (Inr (parsed_request command host port), c\<lparr>cn_in := segs\<rparr>)"
proof -
  let ?rest = "command # 0 # socks5AddressTypeFQDN # of_nat (length host) # host @ port @ extra"
  have seg: "open_conn c ((socks5version # ?rest) # segs)"
    using assms(1) by (simp add: socks5_ToPacket_def fqdn_request_def)
  have "length ?rest < bufio_size" using assms(2-4) by (simp add: bufio_size_def)
  note first = ReadByte_segment [OF seg this]
  have len: "unat (of_nat (length host) :: byte) = length host"
    using assms(2) by (simp add: unat_of_nat take_bit_nat_eq_self)
  show ?thesis
    using assms(3) by (simp add: readSocks5Request_def readSocks5Addr_def first buffered len parsed_request_def
        socks5AddressTypeFQDN_def socks5AddressTypeIPv4_def socks5AddressTypeIPv6_def)
qed

lemma readSocks4Request_packet:
  assumes "open_conn c ((command # port @ ip @ userId @ [0] @ fqdn @ [0] @ extra) # segs)"
    and "length port = 2" and "ip = [0, 0, 0, d]" and "d \<noteq> 0" and "0 \<notin> set userId" and "0 \<notin> set fqdn"
    and "length userId + length fqdn + length extra < 4000"
  shows "readSocks4Request c = Some ((\<lparr>s4_command = command, s4_port = port, s4_ip = ip, s4_userId = userId @ [0], s4_fqdn = fqdn @ [0]\<rparr>, None), c\<lparr>cn_in := segs\<rparr>)"
proof -
  let ?rest = "port @ ip @ userId @ [0] @ fqdn @ [0] @ extra"
  have "length ?rest < bufio_size" using assms(2,3,7) by (simp add: bufio_size_def)
  note first = ReadByte_segment [OF assms(1) this]
  show ?thesis
    using assms(2,3,4) ReadBytes_buffered [OF assms(5)] ReadBytes_buffered [OF assms(6)]
    by (simp add: readSocks4Request_def first buffered new_socks4Request_def IsSOCKS4A_def idx_def Let_def)
qed

end
