(* ===== verification/SocksServer.thy ===== *)
theory SocksServer
  imports SocksPacket
begin

text \<open>
  The SOCKS server (\<^verbatim>\<open>conn.go\<close>, \<^verbatim>\<open>conn_socks4.go\<close>, \<^verbatim>\<open>conn_socks5.go\<close> under
  \<^verbatim>\<open>src/proxyPool/SOCKSProxy\<close>): one accepted connection from its first byte to the relay. A served
  connection is the error that is handed to \<open>HandleError\<close>, the connection as it is left, and the
  remote connection that the two copying goroutines join to it, if any.
\<close>

text \<open>
  \<open>conf_Dial\<close> is the dial function of the configuration, \<open>conf_TLS\<close> what \<open>tls.Server\<close> makes of a
  connection, and \<open>conf_netError\<close> tells whether an error implements \<open>net.Error\<close> and if so whether it
  is a timeout.
\<close>

record SOCKSConf =
  conf_Auth :: "(string \<Rightarrow> string \<Rightarrow> bool) option"
  conf_Dial :: "string \<Rightarrow> string \<Rightarrow> go_error + conn"
  conf_TLS :: "(conn \<Rightarrow> conn) option"
  conf_netError :: "go_error \<Rightarrow> bool option"

type_synonym served = "go_error option \<times> conn \<times> conn option"

subsection \<open>conn_socks4.go\<close>

definition socks4_sendReply :: "socks4Request \<Rightarrow> byte \<Rightarrow> conn \<Rightarrow> conn go" where
  "socks4_sendReply request status c = do {
     a \<leftarrow> IsSOCKS4A request;
     let response = (if a then \<lparr>r4_status = status, r4_port = s4_port request, r4_ip = s4_ip request\<rparr>
       else \<lparr>r4_status = status, r4_port = replicate 2 0, r4_ip = replicate 4 0\<rparr>);
     Some (snd (conn_Write (socks4Response_ToPacket response) c)) }"

definition socks4_Serve :: "SOCKSConf \<Rightarrow> conn \<Rightarrow> served go" where
  "socks4_Serve conf c = do {
     ((request, err), c) \<leftarrow> readSocks4Request c;
     (case err of
        Some e \<Rightarrow> do {
          c \<leftarrow> socks4_sendReply request socks4StatusRejected c;
          Some (Some e, c, None) }
      | None \<Rightarrow>
          if s4_command request = commandConnect then do {
            c \<leftarrow> socks4_sendReply request socks4StatusGranted c;
            host \<leftarrow> socks4_Address request;
            (case conf_Dial conf ''tcp'' host of
               Inl e \<Rightarrow> do {
                 c \<leftarrow> socks4_sendReply request socks4StatusRejected c;
                 Some (Some e, c, None) }
             | Inr remoteConn \<Rightarrow> Some (None, c, Some remoteConn)) }
          else do {
            c \<leftarrow> socks4_sendReply request socks4StatusRejected c;
            Some (Some errCommandNotSupported, c, None) }) }"

subsection \<open>conn_socks5.go\<close>

definition sendAuthReply :: "byte \<Rightarrow> conn \<Rightarrow> conn" where
  "sendAuthReply status c = snd (conn_Write [socks5version, status] c)"

definition socks5_sendReply :: "byte \<Rightarrow> conn \<Rightarrow> conn" where
  "socks5_sendReply status c =
     (let hp = (case splitHostPort (cn_local c) of Inl _ \<Rightarrow> ([], []) | Inr hp \<Rightarrow> hp);
          ip = ParseIP (string_of (fst hp));
          addrType = (if ip \<noteq> None then socks5AddressTypeIPv6 else socks5AddressTypeIPv4);
          reply = [socks5version, status, 0, addrType] @ (case ip of None \<Rightarrow> [] | Some b \<Rightarrow> b) @ snd hp;
          c = snd (conn_Write reply c)
      in if status \<noteq> socks5StatusSucceeded then conn_Close c else c)"

definition sendUDPReply :: "socks5Request \<Rightarrow> conn \<Rightarrow> conn" where
  "sendUDPReply request c = (let a = s5_addr request in
     snd (conn_Write ([0, 0] @ [0] @ [a_addrType a] @ a_addr a @ a_port a) c))"

text \<open>
  \<open>*net.OpError\<close> and \<open>syscall.Errno\<close> implement \<open>net.Error\<close>, so of the type switch only the first
  and the default case can be taken.
\<close>

definition sendReplyWithError :: "SOCKSConf \<Rightarrow> go_error \<Rightarrow> conn \<Rightarrow> conn" where
  "sendReplyWithError conf err c = (case conf_netError conf err of
       Some timeout \<Rightarrow> if timeout then socks5_sendReply socks5StatusHostUnreachable c else c
     | None \<Rightarrow> socks5_sendReply socks5StatusGeneral c)"

definition socks5_relay :: "SOCKSConf \<Rightarrow> string \<Rightarrow> socks5Request \<Rightarrow> conn \<Rightarrow> served go" where
  "socks5_relay conf network request c = do {
     addr \<leftarrow> socks5_Address request;
     (case conf_Dial conf network addr of
        Inl err \<Rightarrow> Some (Some err, sendReplyWithError conf err c, None)
      | Inr remoteConn \<Rightarrow> Some (None, c, Some remoteConn)) }"

definition socks5_handleConnect :: "SOCKSConf \<Rightarrow> socks5Request \<Rightarrow> conn \<Rightarrow> served go" where
  "socks5_handleConnect conf request c = socks5_relay conf ''tcp'' request (socks5_sendReply socks5StatusSucceeded c)"

definition socks5_handleUDPAssociate :: "SOCKSConf \<Rightarrow> socks5Request \<Rightarrow> conn \<Rightarrow> served go" where
  "socks5_handleUDPAssociate conf request c = socks5_relay conf ''udp'' request (sendUDPReply request c)"

text \<open>
  The version byte is tested before the error of reading it. The result of the password check is only
  sent to the client: the function returns no error either way.
\<close>

definition authBasedPassword :: "SOCKSConf \<Rightarrow> (string \<Rightarrow> string \<Rightarrow> bool) \<Rightarrow> byte list \<Rightarrow> conn \<Rightarrow> go_error option \<times> conn" where
  "authBasedPassword conf auth methods c =
     (let m = (if conf_TLS conf \<noteq> None then socks5AuthMethodTLSPassword else socks5AuthMethodPassword) in
      if m \<notin> set methods then (Some errAuthMethodNotSupported, sendAuthReply socks5AuthMethodNoAcceptable c)
      else let c = sendAuthReply m c in
        (case ReadByte (NewBufio c) of
           (Inl _, reader) \<Rightarrow> (Some errAuthMethodNotSupported, snd reader)
         | (Inr version, reader) \<Rightarrow>
             if version \<noteq> 1 then (Some errAuthMethodNotSupported, snd reader)
             else (case
                 andthen (ReadByte reader) (\<lambda>usernameLength reader.
                 andthen (read_into (unat usernameLength) reader) (\<lambda>username reader.
                 andthen (ReadByte reader) (\<lambda>passwordLength reader.
                 andthen (read_into (unat passwordLength) reader) (\<lambda>password reader.
                   (Inr (username, password), reader))))) of
               (Inl err, reader) \<Rightarrow> (Some err, snd reader)
             | (Inr (username, password), reader) \<Rightarrow>
                 (None, snd (conn_Write (if auth (string_of username) (string_of password) then [1, 1] else [1, 0]) (snd reader))))))"

definition socks5_handshake :: "SOCKSConf \<Rightarrow> conn \<Rightarrow> go_error option \<times> conn" where
  "socks5_handshake conf c =
     (case andthen (ReadByte (NewBufio c)) (\<lambda>n reader. read_into (unat n) reader) of
        (Inl err, reader) \<Rightarrow> (Some err, snd reader)
      | (Inr methods, reader) \<Rightarrow>
          (case conf_Auth conf of
             None \<Rightarrow> (None, sendAuthReply socks5AuthMethodNoRequired (snd reader))
           | Some auth \<Rightarrow> authBasedPassword conf auth methods (snd reader)))"

definition socks5_Serve :: "SOCKSConf \<Rightarrow> conn \<Rightarrow> served go" where
  "socks5_Serve conf c =
     (case socks5_handshake conf c of
        (Some err, c) \<Rightarrow> Some (Some err, (if err = errAuthMethodNotSupported then conn_Close c else c), None)
      | (None, c) \<Rightarrow>
          (case readSocks5Request c of
             (Inl err, c) \<Rightarrow>
               Some (Some err, (if err = errAddressTypeNotSupported then socks5_sendReply socks5StatusAddressTypeNotSupported c else c), None)
           | (Inr request, c) \<Rightarrow>
               if s5_version request \<noteq> socks5version then Some (Some errVersionError, c, None)
               else if s5_command request = commandConnect then socks5_handleConnect conf request c
               else if s5_command request = commandUDPAssociate then socks5_handleUDPAssociate conf request c
               else Some (Some errCommandNotSupported, socks5_sendReply socks5StatusCommandNotSupported c, None)))"

subsection \<open>conn.go\<close>

definition handleConn :: "SOCKSConf \<Rightarrow> conn \<Rightarrow> served go" where
  "handleConn conf conn =
     (case conn_Read 1 conn of
        (Inl err, conn) \<Rightarrow> Some (Some err, conn, None)
      | (Inr buffer, conn) \<Rightarrow>
          if buffer = [socks4version] then
            (if conf_Auth conf \<noteq> None \<or> conf_TLS conf \<noteq> None then Some (None, conn, None)
             else socks4_Serve conf conn)
          else if buffer = [socks5version] then
            socks5_Serve conf (case conf_TLS conf of None \<Rightarrow> conn | Some tls \<Rightarrow> tls conn)
          else Some (None, conn, None))"

definition IsSOCKS :: "conn \<Rightarrow> bool \<times> conn" where
  "IsSOCKS c = (case conn_Read 1 c of
       (Inl _, c) \<Rightarrow> (False, c)
     | (Inr header, c) \<Rightarrow> (hd header = 4 \<or> hd header = 5, c))"

end
