(* ===== verification/SocksServerSpec.thy ===== *)
theory SocksServerSpec
  imports SocksServer
begin

text \<open>
  What a client of the SOCKS server gets: the served connection for a well-formed exchange, and the
  exchanges that go wrong (a failed password that is let through, a request that is lost because
  it came too early, one byte that ends the process).
\<close>

definition writable :: "conn \<Rightarrow> bool" where
  "writable c \<longleftrightarrow> \<not> cn_closed c \<and> cn_writes c = None"

lemma writable_Write: "writable c \<Longrightarrow> snd (conn_Write bs c) = c\<lparr>cn_out := cn_out c @ [bs]\<rparr>"
  by (simp add: writable_def conn_Write_def)

lemma writable_fields [simp]:
  "writable (c\<lparr>cn_out := x\<rparr>) = writable c" "writable (c\<lparr>cn_in := y\<rparr>) = writable c"
  "open_conn (c\<lparr>cn_out := x\<rparr>) segs = open_conn c segs"
  by (simp_all add: writable_def open_conn_def)

lemma open_conn_in [simp]: "writable c \<Longrightarrow> open_conn (c\<lparr>cn_in := segs\<rparr>) segs"
  by (simp add: writable_def open_conn_def)

text \<open>The first read takes the version byte and leaves the rest of the segment.\<close>

lemma first_byte:
  assumes "open_conn c ((v # seg) # segs)"
  shows "conn_Read 1 c = (Inr [v], c\<lparr>cn_in := (if seg = [] then segs else seg # segs)\<rparr>)"
  using assms by (simp add: conn_Read_def open_conn_def)

definition greeting :: "byte list \<Rightarrow> byte list" where
  "greeting methods = of_nat (length methods) # methods"

lemma read_greeting:
  assumes "open_conn c ((greeting methods @ extra) # segs)" and "length methods \<le> 255" and "length extra < 3000"
  shows "andthen (ReadByte (NewBufio c)) (\<lambda>n reader. read_into (unat n) reader) = (Inr methods, (extra, c\<lparr>cn_in := segs\<rparr>))"
proof -
  have seg: "open_conn c ((of_nat (length methods) # methods @ extra) # segs)" using assms(1) by (simp add: greeting_def)
  have "length (methods @ extra) < bufio_size" using assms(2,3) by (simp add: bufio_size_def)
  note first = ReadByte_segment [OF seg this]
  have "unat (of_nat (length methods) :: byte) = length methods"
    using assms(2) by (simp add: unat_of_nat take_bit_nat_eq_self)
  then show ?thesis by (simp add: first buffered)
qed

text \<open>The bytes of the reply that announces success, from the local address.\<close>

definition success_reply :: "conn \<Rightarrow> byte list" where
  "success_reply c =
     (let hp = (case splitHostPort (cn_local c) of Inl _ \<Rightarrow> ([], []) | Inr hp \<Rightarrow> hp); ip = ParseIP (string_of (fst hp)) in
      [5, 0, 0, (if ip \<noteq> None then 4 else 1)] @ (case ip of None \<Rightarrow> [] | Some b \<Rightarrow> b) @ snd hp)"

lemma sendReply_success:
  assumes "writable c"
  shows "socks5_sendReply socks5StatusSucceeded c = c\<lparr>cn_out := cn_out c @ [success_reply c]\<rparr>"
  using assms by (simp add: socks5_sendReply_def success_reply_def Let_def writable_Write socks_consts)

definition relayed :: "SOCKSConf \<Rightarrow> byte list \<Rightarrow> nat \<Rightarrow> conn \<Rightarrow> served" where
  "relayed conf host port c = (case conf_Dial conf ''tcp'' (JoinHostPort (string_of host) (itoa_nat port)) of
       Inl err \<Rightarrow> (Some err, sendReplyWithError conf err c, None)
     | Inr remoteConn \<Rightarrow> (None, c, Some remoteConn))"

lemma serve_request:
  assumes "open_conn c ((socks5_ToPacket (fqdn_request commandConnect host (BE_PutUint16 port)) @ extra) # segs)"
    and "writable c" and "length host \<le> 255" and "port \<le> 65535" and "length extra < 3000"
  shows "(case readSocks5Request c of
      (Inl err, c) \<Rightarrow> None
    | (Inr request, c) \<Rightarrow> if s5_version request \<noteq> socks5version \<or> s5_command request \<noteq> commandConnect then None
        else socks5_handleConnect conf request c) =
    Some (relayed conf host port (c\<lparr>cn_in := segs, cn_out := cn_out c @ [success_reply c]\<rparr>))"
proof -
  have rd: "readSocks5Request c = (Inr (parsed_request commandConnect host (BE_PutUint16 port)), c\<lparr>cn_in := segs\<rparr>)"
    by (rule readSocks5Request_fqdn) (use assms in auto)
  have adr: "socks5_Address (parsed_request commandConnect host (BE_PutUint16 port)) = Some (JoinHostPort (string_of host) (itoa_nat port))"
    using BE_Uint16_Put [OF assms(4)] by (simp add: socks5_Address_def parsed_request_def Let_def socks_consts)
  have "success_reply (c\<lparr>cn_in := segs\<rparr>) = success_reply c" by (simp add: success_reply_def)
  then show ?thesis
    using assms(2) sendReply_success [of "c\<lparr>cn_in := segs\<rparr>"]
    by (simp add: rd socks5_handleConnect_def socks5_relay_def adr relayed_def split: sum.split)
      (simp add: parsed_request_def)
qed

text \<open>After a handshake without error, a well-formed connect request is served.\<close>

lemma Serve_after_handshake:
  assumes "socks5_handshake conf c0 = (None, c)"
    and "open_conn c ((socks5_ToPacket (fqdn_request commandConnect host (BE_PutUint16 port)) @ extra) # segs)"
    and "writable c" and "length host \<le> 255" and "port \<le> 65535" and "length extra < 3000"
  shows "socks5_Serve conf c0 = Some (relayed conf host port (c\<lparr>cn_in := segs, cn_out := cn_out c @ [success_reply c]\<rparr>))"
  using serve_request [OF assms(2-), of conf] assms(1)
  by (auto simp: socks5_Serve_def split: sum.splits prod.splits if_splits)

lemma handleConn_socks5:
  assumes "open_conn c ((socks5version # x # xs) # segs)" and "conf_TLS conf = None"
  shows "handleConn conf c = socks5_Serve conf (c\<lparr>cn_in := (x # xs) # segs\<rparr>)"
  using first_byte [OF assms(1)] assms(2) by (simp add: handleConn_def socks_consts)

text \<open>
  C12. A SOCKS5 CONNECT is served as the client asks: without authentication and TLS configured, a greeting and
  a connect request for a host name, each arriving as one segment, make the server dial exactly that host and port, and relay
  to the connection it gets. In either case the reply "succeeded" is on the wire before the dial.
\<close>

theorem socks5_connect_served:
  assumes "open_conn c [socks5version # greeting methods, socks5_ToPacket (fqdn_request commandConnect host (BE_PutUint16 port))]"
    and "writable c" and "conf_Auth conf = None" and "conf_TLS conf = None"
    and "length methods \<le> 255" and "length host \<le> 255" and "port \<le> 65535"
  shows "handleConn conf c =
    Some (relayed conf host port (c\<lparr>cn_in := [], cn_out := cn_out c @ [[5, 0], success_reply c]\<rparr>))"
proof -
  let ?pkt = "socks5_ToPacket (fqdn_request commandConnect host (BE_PutUint16 port))"
  let ?c0 = "c\<lparr>cn_in := [greeting methods, ?pkt]\<rparr>"
  let ?c1 = "c\<lparr>cn_in := [?pkt], cn_out := cn_out c @ [[5, 0]]\<rparr>"
  have "andthen (ReadByte (NewBufio ?c0)) (\<lambda>n reader. read_into (unat n) reader) = (Inr methods, ([], ?c0\<lparr>cn_in := [?pkt]\<rparr>))"
    by (rule read_greeting) (use assms(2,5) in \<open>simp_all add: open_conn_in\<close>)
  then have "socks5_handshake conf ?c0 = (None, ?c1)"
    using assms(2,3) by (simp add: socks5_handshake_def sendAuthReply_def writable_Write socks_consts)
  then have "socks5_Serve conf ?c0 = Some (relayed conf host port (?c1\<lparr>cn_in := [], cn_out := cn_out ?c1 @ [success_reply ?c1]\<rparr>))"
    by (rule Serve_after_handshake [where extra = "[]"]) (use assms(2,6,7) in \<open>simp_all add: open_conn_def writable_def\<close>)
  moreover have "success_reply ?c1 = success_reply c" by (simp add: success_reply_def)
  moreover have "handleConn conf c = socks5_Serve conf ?c0"
    using handleConn_socks5 [of c "of_nat (length methods)" methods "[?pkt]" conf] assms(1,4) by (simp add: greeting_def)
  ultimately show ?thesis by simp
qed

definition demo_conf :: "(string \<Rightarrow> string \<Rightarrow> bool) option \<Rightarrow> SOCKSConf" where
  "demo_conf auth = \<lparr>conf_Auth = auth, conf_Dial = \<lambda>network addr. Inr (arriving [bytes_of addr]), conf_TLS = None,
     conf_netError = \<lambda>_. Some False\<rparr>"

theorem socks5_connect_served_witness:
  "handleConn (demo_conf None) (arriving [[5, 1, 0], [5, 1, 0, 3, 3, 97, 46, 98, 31, 144]]) =
    Some (None, (arriving [])\<lparr>cn_out := [[5, 0], [5, 0, 0, 1]]\<rparr>, Some (arriving [bytes_of ''a.b:8080'']))"
proof -
  let ?c = "arriving [[5, 1, 0], [5, 1, 0, 3, 3, 97, 46, 98, 31, 144]]"
  have "handleConn (demo_conf None) ?c =
      Some (relayed (demo_conf None) [97, 46, 98] 8080 (?c\<lparr>cn_in := [], cn_out := cn_out ?c @ [[5, 0], success_reply ?c]\<rparr>))"
    by (rule socks5_connect_served [where methods = "[0]"])
      (simp_all add: arriving_def open_conn_def writable_def demo_conf_def greeting_def socks5_ToPacket_def fqdn_request_def
        socks_consts BE_PutUint16_def)
  moreover have "success_reply ?c = [5, 0, 0, 1]" by (simp add: arriving_def success_reply_def splitHostPort_def SplitHostPort_def
      find_last_def addrErr_def ParseIP_def string_of_def)
  moreover have "JoinHostPort (string_of [97, 46, 98]) (itoa_nat 8080) = ''a.b:8080''"
    by (simp add: JoinHostPort_def string_of_def itoa_nat.simps digit_char_def char_of_def bit_Suc_0_iff)
  ultimately show ?thesis by (simp add: relayed_def demo_conf_def arriving_def)
qed

subsection \<open>Authentication\<close>

definition password_packet :: "byte list \<Rightarrow> byte list \<Rightarrow> byte list" where
  "password_packet user pass = [1, of_nat (length user)] @ user @ [of_nat (length pass)] @ pass"

lemma auth_password:
  assumes "open_conn c (password_packet user pass # segs)" and "writable c" and "conf_TLS conf = None"
    and "2 \<in> set methods" and "length user \<le> 255" and "length pass \<le> 255"
  shows "authBasedPassword conf auth methods c = (None, c\<lparr>cn_in := segs, cn_out := cn_out c @
    [[5, 2], if auth (string_of user) (string_of pass) then [1, 1] else [1, 0]]\<rparr>)"
proof -
  let ?c = "c\<lparr>cn_out := cn_out c @ [[5, 2]]\<rparr>"
  let ?rest = "of_nat (length user) # user @ of_nat (length pass) # pass"
  have len: "unat (of_nat (length user) :: byte) = length user" "unat (of_nat (length pass) :: byte) = length pass"
    using assms(5,6) by (simp_all add: unat_of_nat take_bit_nat_eq_self)
  have seg: "open_conn ?c ((1 # ?rest) # segs)" using assms(1) by (simp add: password_packet_def)
  have "length ?rest < bufio_size" using assms(5,6) by (simp add: bufio_size_def)
  note first = ReadByte_segment [OF seg this]
  have reply: "sendAuthReply 2 c = ?c" using assms(2) by (simp add: sendAuthReply_def writable_Write socks_consts)
  show ?thesis
    using assms(2,3,4) len
    by (simp add: authBasedPassword_def Let_def reply first buffered writable_Write socks5AuthMethodPassword_def)
qed

text \<open>
  C34. The password protects nothing: with authentication configured, a client that sends any user name
  and password is served like one that gave the right ones. The server answers "failed" to a wrong
  password, and then dials and relays for the client all the same.
\<close>

theorem socks5_wrong_password_served:
  assumes "open_conn c [socks5version # greeting methods, password_packet user pass,
      socks5_ToPacket (fqdn_request commandConnect host (BE_PutUint16 port))]"
    and "writable c" and "conf_Auth conf = Some auth" and "conf_TLS conf = None" and "2 \<in> set methods"
    and "length methods \<le> 255" and "length user \<le> 255" and "length pass \<le> 255" and "length host \<le> 255" and "port \<le> 65535"
  shows "handleConn conf c =
    Some (relayed conf host port (c\<lparr>cn_in := [], cn_out := cn_out c @
      [[5, 2], if auth (string_of user) (string_of pass) then [1, 1] else [1, 0], success_reply c]\<rparr>))"
proof -
  let ?pkt = "socks5_ToPacket (fqdn_request commandConnect host (BE_PutUint16 port))" and ?pw = "password_packet user pass"
  let ?ok = "if auth (string_of user) (string_of pass) then [1, 1] else [1, 0] :: byte list"
  let ?c0 = "c\<lparr>cn_in := [greeting methods, ?pw, ?pkt]\<rparr>" and ?ca = "c\<lparr>cn_in := [?pw, ?pkt]\<rparr>"
  let ?cb = "c\<lparr>cn_in := [?pkt], cn_out := cn_out c @ [[5, 2], ?ok]\<rparr>"
  have "andthen (ReadByte (NewBufio ?c0)) (\<lambda>n reader. read_into (unat n) reader) = (Inr methods, ([], ?c0\<lparr>cn_in := [?pw, ?pkt]\<rparr>))"
    by (rule read_greeting) (use assms(2,6) in \<open>simp_all add: open_conn_in\<close>)
  moreover have "authBasedPassword conf auth methods ?ca = (None, ?cb)"
    using auth_password [of ?ca user pass "[?pkt]" conf methods auth] assms(2,4,5,7,8) by (simp add: open_conn_in)
  ultimately have "socks5_handshake conf ?c0 = (None, ?cb)" using assms(3) by (simp add: socks5_handshake_def)
  then have "socks5_Serve conf ?c0 = Some (relayed conf host port (?cb\<lparr>cn_in := [], cn_out := cn_out ?cb @ [success_reply ?cb]\<rparr>))"
    by (rule Serve_after_handshake [where extra = "[]"]) (use assms(2,9,10) in \<open>simp_all add: open_conn_def writable_def\<close>)
  moreover have "success_reply ?cb = success_reply c" by (simp add: success_reply_def)
  moreover have "handleConn conf c = socks5_Serve conf ?c0"
    using handleConn_socks5 [of c "of_nat (length methods)" methods "[?pw, ?pkt]" conf] assms(1,4) by (simp add: greeting_def)
  ultimately show ?thesis by simp
qed

theorem socks5_wrong_password_served_witness:
  "handleConn (demo_conf (Some (\<lambda>u p. False))) (arriving [[5, 1, 2], [1, 1, 97, 1, 98], [5, 1, 0, 3, 3, 97, 46, 98, 31, 144]]) =
    Some (relayed (demo_conf (Some (\<lambda>u p. False))) [97, 46, 98] 8080 ((arriving [])\<lparr>cn_out := [[5, 2], [1, 0], success_reply (arriving [])]\<rparr>))"
  using socks5_wrong_password_served [of "arriving [[5, 1, 2], [1, 1, 97, 1, 98], [5, 1, 0, 3, 3, 97, 46, 98, 31, 144]]" "[2]" "[97]" "[98]" "[97, 46, 98]" 8080
      "demo_conf (Some (\<lambda>u p. False))"]
  by (simp add: arriving_def open_conn_def writable_def demo_conf_def greeting_def password_packet_def socks5_ToPacket_def fqdn_request_def
      socks_consts BE_PutUint16_def success_reply_def)

subsection \<open>What goes wrong\<close>

text \<open>
  One byte ends the server: a client that sends the SOCKS4 version byte and closes makes the
  handler index the address of an empty request, and the panic is not recovered.
\<close>

lemma socks4_single_byte_panics:
  assumes "open_conn c [[socks4version]]" and "conf_Auth conf = None" and "conf_TLS conf = None"
  shows "handleConn conf c = None"
proof -
  let ?c = "c\<lparr>cn_in := []\<rparr>"
  have "open_conn ?c []" using assms(1) by (simp add: open_conn_def)
  from ReadByte_no_segment [OF this] have "readSocks4Request ?c = Some ((new_socks4Request, Some EOF), ?c)"
    by (simp add: readSocks4Request_def)
  then have "socks4_Serve conf ?c = None"
    by (simp add: socks4_Serve_def socks4_sendReply_def IsSOCKS4A_def new_socks4Request_def idx_def)
  then show ?thesis using assms first_byte [of c socks4version "[]" "[]"] by (simp add: handleConn_def socks_consts)
qed

lemma socks4_single_byte_panics_witness: "handleConn (demo_conf None) (arriving [[4]]) = None"
  by (rule socks4_single_byte_panics) (simp_all add: arriving_def open_conn_def demo_conf_def socks_consts)

text \<open>
  A request that arrives together with the greeting is lost: it stays in the buffer of the first
  reader, the second reader finds nothing, and the client gets the method reply and no answer.
\<close>

lemma socks5_early_request_lost:
  assumes "open_conn c [socks5version # greeting methods @ request]" and "writable c"
    and "conf_Auth conf = None" and "conf_TLS conf = None" and "length methods \<le> 255" and "length request < 3000"
  shows "handleConn conf c = Some (Some EOF, c\<lparr>cn_in := [], cn_out := cn_out c @ [[5, 0]]\<rparr>, None)"
proof -
  let ?c0 = "c\<lparr>cn_in := [greeting methods @ request]\<rparr>" and ?ca = "c\<lparr>cn_in := [], cn_out := cn_out c @ [[5, 0]]\<rparr>"
  have "andthen (ReadByte (NewBufio ?c0)) (\<lambda>n reader. read_into (unat n) reader) = (Inr methods, (request, ?c0\<lparr>cn_in := []\<rparr>))"
    by (rule read_greeting) (use assms(2,5,6) in \<open>simp_all add: open_conn_in\<close>)
  then have hs: "socks5_handshake conf ?c0 = (None, ?ca)"
    using assms(2,3) by (simp add: socks5_handshake_def sendAuthReply_def writable_Write socks_consts)
  have "open_conn ?ca []" using assms(2) by (simp add: open_conn_def writable_def)
  from ReadByte_no_segment [OF this] have "readSocks5Request ?ca = (Inl EOF, ?ca)"
    by (simp add: readSocks5Request_def)
  moreover have "handleConn conf c = socks5_Serve conf ?c0"
    using handleConn_socks5 [of c "of_nat (length methods)" "methods @ request" "[]" conf] assms(1,4) by (simp add: greeting_def)
  ultimately show ?thesis using hs by (simp add: socks5_Serve_def socks_errors)
qed

lemma socks5_early_request_lost_witness:
  "handleConn (demo_conf None) (arriving [[5, 1, 0, 5, 1, 0, 3, 3, 97, 46, 98, 31, 144]]) =
    Some (Some EOF, (arriving [])\<lparr>cn_out := [[5, 0]]\<rparr>, None)"
  using socks5_early_request_lost [of "arriving [[5, 1, 0, 5, 1, 0, 3, 3, 97, 46, 98, 31, 144]]" "[0]" "[5, 1, 0, 3, 3, 97, 46, 98, 31, 144]" "demo_conf None"]
  by (simp add: arriving_def open_conn_def writable_def demo_conf_def greeting_def socks_consts)

text \<open>
  The host name of a SOCKS4A request keeps its terminating zero byte, so the server dials a name
  that is not the one the client asked for.
\<close>

lemma socks4a_host_keeps_zero:
  assumes "open_conn c [commandConnect # BE_PutUint16 port @ [0, 0, 0, 1] @ user @ [0] @ host @ [0]]"
    and "port \<le> 65535" and "0 \<notin> set user" and "0 \<notin> set host" and "length user + length host < 4000"
  shows "\<exists>request c'. readSocks4Request c = Some ((request, None), c') \<and>
    socks4_Address request = Some (JoinHostPort (string_of (host @ [0])) (itoa_nat port))"
  using readSocks4Request_packet [of c commandConnect "BE_PutUint16 port" "[0, 0, 0, 1]" user host "[]" "[]" 1] assms BE_Uint16_Put [OF assms(2)]
  by (simp add: socks4_Address_def IsSOCKS4A_def idx_def Let_def)

lemma socks4a_host_keeps_zero_witness:
  "\<exists>request c'. readSocks4Request (arriving [[1, 0, 80, 0, 0, 0, 1, 0, 97, 0]]) = Some ((request, None), c') \<and>
    socks4_Address request = Some (JoinHostPort (string_of [97, 0]) (itoa_nat 80))"
  using socks4a_host_keeps_zero [of "arriving [[1, 0, 80, 0, 0, 0, 1, 0, 97, 0]]" 80 "[]" "[97]"]
  by (simp add: arriving_def open_conn_def socks_consts BE_PutUint16_def)

end
