(* ===== verification/GoUrl.thy ===== *)
theory GoUrl
  imports Bufio
begin

text \<open>
  A parsed \<open>net/url.URL\<close> with the fields the packages read. The user information is the name and,
  if set, the password; the query is the list of names with their values.
\<close>

record URL =
  u_Scheme :: string
  u_User :: "(string \<times> string option) option"
  u_Host :: string
  u_Path :: string
  u_Query :: "(string \<times> string list) list"

definition new_URL :: URL where
  "new_URL = \<lparr>u_Scheme = [], u_User = None, u_Host = [], u_Path = [], u_Query = []\<rparr>"

text \<open>\<open>Values.Get\<close>: the first value of a name, or the empty string.\<close>

definition query_Get :: "string \<Rightarrow> URL \<Rightarrow> string" where
  "query_Get name u = (case map_of (u_Query u) name of Some (v # _) \<Rightarrow> v | _ \<Rightarrow> [])"

text \<open>What a dial function returns: a connection, an error, or (after a failed handshake) both.\<close>

type_synonym dialed = "conn option \<times> go_error option"

end
