(* ===== verification/SocksClient.thy ===== *)
theory SocksClient
  imports SocksServerSpec GoUrl
begin

text \<open>
  The SOCKS clients (\<^verbatim>\<open>client.go\<close>, \<^verbatim>\<open>client_socks4.go\<close>, \<^verbatim>\<open>client_socks5.go\<close> under
  \<^verbatim>\<open>src/proxyPool/SOCKSProxy\<close>): dialing through a proxy. The upstream dial function, the resolver and
  the TLS handshake are arguments.
\<close>

record socks_env =
  se_Dial :: "string \<Rightarrow> string \<Rightarrow> dialed go"
  se_LookupIP :: "string \<Rightarrow> go_error + byte list list"
  se_TLS :: "conn \<Rightarrow> go_error + conn"

subsection \<open>client.go\<close>

datatype socks_client = Socks4Client URL | Socks5Client URL

definition Socks_NewClient :: "URL \<Rightarrow> go_error + socks_client" where
  "Socks_NewClient proxy = (let scheme = ToUpper (u_Scheme proxy) in
     if scheme = ''SOCKS4'' \<or> scheme = ''SOCKS4A'' then Inr (Socks4Client proxy)
     else if scheme = ''SOCKS5'' \<or> scheme = ''SOCKS5+TLS'' then Inr (Socks5Client proxy)
     else Inl (ErrMsg (u_Scheme proxy @ '' not supported'')))"

subsection \<open>client_socks4.go\<close>

definition isSOCKS4 :: "URL \<Rightarrow> bool" where
  "isSOCKS4 proxy \<longleftrightarrow> ToUpper (u_Scheme proxy) = ''SOCKS4''"

definition lookupIP :: "socks_env \<Rightarrow> string \<Rightarrow> go_error + byte list" where
  "lookupIP env host = (case se_LookupIP env host of
       Inl err \<Rightarrow> Inl err
     | Inr [] \<Rightarrow> Inl (ErrMsg (''Cannot resolve host: '' @ host @ ''.''))
     | Inr (ip # _) \<Rightarrow> (case To4 ip of
         None \<Rightarrow> Inl (ErrMsg ''IPv6 is not supported by SOCKS4.'')
       | Some ip4 \<Rightarrow> Inr ip4))"

definition socks4_code_error :: "byte \<Rightarrow> go_error" where
  "socks4_code_error code =
     (if code = socks4StatusRejected then ErrMsg ''Socks connection request rejected or failed.''
      else if code = 92 then ErrMsg ''Socks connection request rejected becasue SOCKS server cannot connect to identd on the client.''
      else if code = 93 then ErrMsg ''Socks connection request rejected because the client program and identd report different user-ids.''
      else ErrMsg ''Socks connection request failed, unknown error.'')"

definition discarding :: "go_error option \<times> rd \<Rightarrow> (go_error + unit) \<times> rd" where
  "discarding m = (case m of (Some e, r) \<Rightarrow> (Inl e, r) | (None, r) \<Rightarrow> (Inr (), r))"

definition err_of :: "(go_error + 'a) \<times> rd \<Rightarrow> go_error option \<times> conn" where
  "err_of m = ((case fst m of Inl e \<Rightarrow> Some e | Inr _ \<Rightarrow> None), snd (snd m))"

definition socks4_handleConnect :: "conn \<Rightarrow> go_error option \<times> conn" where
  "socks4_handleConnect remoteConn = err_of
     (andthen (ReadByte (NewBufio remoteConn)) (\<lambda>version reader.
        if version \<noteq> 0 then (Inl errVersionError, reader)
        else andthen (ReadByte reader) (\<lambda>code reader.
          if code \<noteq> socks4StatusGranted then (Inl (socks4_code_error code), reader)
          else andthen (discarding (Discard 2 reader)) (\<lambda>_ reader. discarding (Discard 4 reader)))))"

definition socks4_Dial :: "socks_env \<Rightarrow> URL \<Rightarrow> string \<Rightarrow> string \<Rightarrow> dialed go" where
  "socks4_Dial env proxy network address = (case splitHostPort address of
       Inl err \<Rightarrow> Some (None, Some err)
     | Inr (host, port) \<Rightarrow>
         (case (if isSOCKS4 proxy then lookupIP env (string_of host) else Inr [0, 0, 0, 1]) of
            Inl err \<Rightarrow> Some (None, Some err)
          | Inr ip \<Rightarrow>
              (let request = \<lparr>s4_command = commandConnect, s4_port = port, s4_ip = ip, s4_userId = [], s4_fqdn = host\<rparr> in
               do {
                 (conn, err) \<leftarrow> se_Dial env ''tcp'' (u_Host proxy);
                 (case err of
                    Some e \<Rightarrow> Some (conn, Some e)
                  | None \<Rightarrow> do {
                      remoteConn \<leftarrow> conn;
                      packet \<leftarrow> socks4_ToPacket request;
                      (case conn_Write packet remoteConn of
                         (Some err, remoteConn) \<Rightarrow> Some (Some remoteConn, Some err)
                       | (None, remoteConn) \<Rightarrow> (case socks4_handleConnect remoteConn of
                           (err, remoteConn) \<Rightarrow> Some (Some remoteConn, err))) }) })))"

subsection \<open>client_socks5.go\<close>

definition isTLS :: "URL \<Rightarrow> bool" where
  "isTLS proxy \<longleftrightarrow> ToUpper (u_Scheme proxy) = ''SOCKS5+TLS''"

definition commandByNetwork :: "string \<Rightarrow> go_error + byte" where
  "commandByNetwork network = (let n = ToLower network in
     if n \<in> {''tcp'', ''tcp4'', ''tcp6''} then Inr commandConnect
     else if n \<in> {''udp'', ''udp4'', ''udp6''} then Inr commandUDPAssociate
     else Inl errCommandNotSupported)"

text \<open>The two-byte answer is read with one read whose count is ignored.\<close>

definition passwordAuth :: "string \<times> string option \<Rightarrow> conn \<Rightarrow> (go_error + bool) \<times> conn" where
  "passwordAuth user conn =
     (let username = bytes_of (fst user); password = bytes_of (case snd user of None \<Rightarrow> [] | Some p \<Rightarrow> p);
          request = [socks5version, of_nat (length username)] @ username @ [of_nat (length password)] @ password in
      case conn_Write request conn of
        (Some err, conn) \<Rightarrow> (Inl err, conn)
      | (None, conn) \<Rightarrow>
          (case conn_Read 2 conn of
             (Inl err, conn) \<Rightarrow> (Inl err, conn)
           | (Inr bs, conn) \<Rightarrow>
               (let response = bs @ replicate (2 - length bs) 0 in
                if response ! 0 \<noteq> 1 then (Inl (ErrMsg ''unexpected auth''), conn)
                else (Inr (response ! 1 = 1), conn))))"

text \<open>
  The method the proxy chose is compared with 1, not with the password method 2. A password that is
  not accepted sets an error variable of an inner scope, so no error is returned.
\<close>

definition client_method :: "URL \<Rightarrow> byte" where
  "client_method proxy = (if u_User proxy \<noteq> None then socks5AuthMethodPassword else socks5AuthMethodNoRequired) +
     (if isTLS proxy then 0x80 else 0)"

definition client_handshake :: "URL \<Rightarrow> conn \<Rightarrow> (go_error option \<times> conn) go" where
  "client_handshake proxy conn =
     (let m = client_method proxy in
      case conn_Write (socks5Initial_ToPacket \<lparr>i5_version = socks5version, i5_methods = [m]\<rparr>) conn of
        (Some err, conn) \<Rightarrow> Some (Some err, conn)
      | (None, conn) \<Rightarrow>
          (case andthen (ReadByte (NewBufio conn)) (\<lambda>version reader.
                if version \<noteq> socks5version then (Inl errVersionError, reader) else ReadByte reader) of
             (Inl err, reader) \<Rightarrow> Some (Some err, snd reader)
           | (Inr auth, reader) \<Rightarrow>
               if auth = 1 \<and> m = socks5AuthMethodPassword then do {
                 user \<leftarrow> u_User proxy;
                 (case passwordAuth user (snd reader) of
                    (Inl err, conn) \<Rightarrow> Some (Some err, conn)
                  | (Inr _, conn) \<Rightarrow> Some (None, conn)) }
               else if auth \<noteq> 0 \<and> m = socks5AuthMethodNoRequired then
                 Some (Some (ErrMsg ''socks method negotiation failed.''), snd reader)
               else Some (None, snd reader)))"

definition client_handleConnect :: "conn \<Rightarrow> go_error option \<times> conn" where
  "client_handleConnect conn = err_of
     (andthen (ReadByte (NewBufio conn)) (\<lambda>version reader.
        if version \<noteq> socks5version then (Inl errVersionError, reader)
        else andthen (ReadByte reader) (\<lambda>status reader.
          if status \<noteq> 0 then (Inl (ErrMsg ''Can't complete SOCKS5 connection.''), reader)
          else andthen (discarding (Discard 1 reader)) (\<lambda>_ reader. readSocks5Addr reader))))"

definition client_handleUDPAssociate :: "conn \<Rightarrow> go_error option \<times> conn" where
  "client_handleUDPAssociate conn = err_of
     (andthen (discarding (Discard 2 (NewBufio conn))) (\<lambda>_ reader.
      andthen (discarding (Discard 1 reader)) (\<lambda>_ reader. readSocks5Addr reader)))"

definition socks5_Dial :: "socks_env \<Rightarrow> URL \<Rightarrow> string \<Rightarrow> string \<Rightarrow> dialed go" where
  "socks5_Dial env proxy network address = (case splitHostPort address of
       Inl err \<Rightarrow> Some (None, Some err)
     | Inr (host, port) \<Rightarrow> (case commandByNetwork network of
         Inl err \<Rightarrow> Some (None, Some err)
       | Inr command \<Rightarrow>
           (let request = fqdn_request command host port in
            do {
              (conn, err) \<leftarrow> se_Dial env network (u_Host proxy);
              (case err of
                 Some e \<Rightarrow> Some (conn, Some e)
               | None \<Rightarrow> do {
                remoteConn \<leftarrow> conn;
                (case (if isTLS proxy then se_TLS env remoteConn else Inr remoteConn) of
                   Inl err \<Rightarrow> Some (Some (conn_Close remoteConn), Some err)
                 | Inr remoteConn \<Rightarrow> do {
                     (err, remoteConn) \<leftarrow> client_handshake proxy remoteConn;
                     (case err of
                        Some e \<Rightarrow> Some (Some remoteConn, Some e)
                      | None \<Rightarrow>
                          (case conn_Write (socks5_ToPacket request) remoteConn of
                             (Some err, remoteConn) \<Rightarrow> Some (Some remoteConn, Some err)
                           | (None, remoteConn) \<Rightarrow>
                               (case (if command = commandConnect then client_handleConnect remoteConn
                                      else if command = commandUDPAssociate then client_handleUDPAssociate remoteConn
                                      else (None, remoteConn)) of
                                  (err, remoteConn) \<Rightarrow> Some (Some remoteConn, err)))) }) }) })))"

definition Socks_Dial :: "socks_env \<Rightarrow> socks_client \<Rightarrow> string \<Rightarrow> string \<Rightarrow> dialed go" where
  "Socks_Dial env client network address = (case client of
       Socks4Client proxy \<Rightarrow> socks4_Dial env proxy network address
     | Socks5Client proxy \<Rightarrow> socks5_Dial env proxy network address)"

subsection \<open>Client and server together\<close>

lemma success_reply_IPv4:
  assumes "cn_local c = JoinHostPort (dotted ip) (itoa_nat port)" and "length ip = 4" and "port \<le> 65535"
  shows "success_reply c = [5, 0, 0, 4] @ v4InV6 @ ip @ BE_PutUint16 port"
  using assms ParseIP_dotted [OF assms(2)] ParseUint16_itoa [OF assms(3)]
  by (simp add: success_reply_def splitHostPort_def Split_dotted_port toPort_def Let_def)

lemma client_reads_success:
  assumes "open_conn c (([5, 0, 0, 4] @ v4InV6 @ ip @ port) # segs)" and "length ip = 4" and "length port = 2"
  shows "client_handleConnect c = (None, c\<lparr>cn_in := segs\<rparr>)"
proof -
  let ?rest = "[0, 0, 4] @ v4InV6 @ ip @ port"
  have "open_conn c ((5 # ?rest) # segs)" "length ?rest < bufio_size"
    using assms by (simp_all add: v4InV6_def bufio_size_def)
  note first = ReadByte_segment [OF this]
  have "length v4InV6 = 12" by (simp add: v4InV6_def)
  then show ?thesis
    using assms(2,3) by (simp add: client_handleConnect_def err_of_def discarding_def first buffered readSocks5Addr_def socks_consts)
qed

lemma client_handshake_plain:
  assumes "open_conn c ([5, 0] # segs)" and "writable c" and "u_User proxy = None" and "\<not> isTLS proxy"
  shows "client_handshake proxy c = Some (None, c\<lparr>cn_in := segs, cn_out := cn_out c @ [[5, 1, 0]]\<rparr>)"
proof -
  let ?c = "c\<lparr>cn_out := cn_out c @ [[5, 1, 0]]\<rparr>"
  have "open_conn ?c ((5 # [0]) # segs)" "length [0 :: byte] < bufio_size"
    using assms(1) by (simp_all add: bufio_size_def)
  note first = ReadByte_segment [OF this]
  have "conn_Write [5, 1, 0] c = (None, ?c)" using assms(2) by (simp add: conn_Write_def writable_def)
  then show ?thesis
    using assms(3,4) by (simp add: client_handshake_def client_method_def socks5Initial_ToPacket_def socks_consts first buffered Let_def)
qed

text \<open>
  C21. The SOCKS5 client and the SOCKS5 server of the package understand each other: when the proxy
  answers with the two replies that the server sends (its method choice and its success reply for an
  IPv4 local address), a dial of \<open>host:port\<close> succeeds, and what the client has written is exactly
  the greeting and the connect request that the server serves as a dial of that host and port.
\<close>

theorem socks5_client_meets_server:
  assumes "se_Dial env network (u_Host proxy) = Some (Some c, None)" and "writable c"
    and "cn_in c = [[5, 0], success_reply s]" and "cn_local s = JoinHostPort (dotted ip) (itoa_nat lport)"
    and "length ip = 4" and "lport \<le> 65535" and "u_User proxy = None" and "\<not> isTLS proxy"
    and "commandByNetwork network = Inr commandConnect"
    and "address = JoinHostPort host (itoa_nat port)" and "port \<le> 65535" and "set host \<inter> {CHR ''['', CHR '']''} = {}"
  shows "socks5_Dial env proxy network address =
    Some (Some (c\<lparr>cn_in := [], cn_out := cn_out c @ [[5] @ greeting [0],
      socks5_ToPacket (fqdn_request commandConnect (bytes_of host) (BE_PutUint16 port))]\<rparr>), None)"
proof -
  let ?pkt = "socks5_ToPacket (fqdn_request commandConnect (bytes_of host) (BE_PutUint16 port))"
  let ?ca = "c\<lparr>cn_in := [success_reply s], cn_out := cn_out c @ [[5, 1, 0]]\<rparr>"
  let ?cb = "c\<lparr>cn_in := [success_reply s], cn_out := cn_out c @ [[5, 1, 0], ?pkt]\<rparr>"
  have split: "splitHostPort address = Inr (bytes_of host, BE_PutUint16 port)"
    using Split_JoinHostPort [of host "itoa_nat port"] itoa_plain [of port] ParseUint16_itoa [OF assms(11)] assms(10,12)
    by (simp add: splitHostPort_def toPort_def)
  have hs: "client_handshake proxy c = Some (None, ?ca)"
    by (rule client_handshake_plain) (use assms(2,3,7,8) in \<open>simp_all add: open_conn_def writable_def\<close>)
  have wr: "conn_Write ?pkt ?ca = (None, ?cb)" using assms(2) by (simp add: conn_Write_def writable_def)
  have "open_conn ?cb [[5, 0, 0, 4] @ v4InV6 @ ip @ BE_PutUint16 lport]"
    using assms(2) success_reply_IPv4 [OF assms(4,5,6)] by (simp add: open_conn_def writable_def)
  then have "client_handleConnect ?cb = (None, ?cb\<lparr>cn_in := []\<rparr>)"
    by (rule client_reads_success) (use assms(5) in simp_all)
  then show ?thesis
    using assms(1,8,9) by (simp add: socks5_Dial_def split hs wr Let_def greeting_def)
qed

definition demo_proxy :: "(string \<times> string option) option \<Rightarrow> URL" where
  "demo_proxy user = \<lparr>u_Scheme = ''SOCKS5'', u_User = user, u_Host = ''p:1080'', u_Path = [], u_Query = []\<rparr>"

definition demo_env :: "conn \<Rightarrow> socks_env" where
  "demo_env c = \<lparr>se_Dial = \<lambda>_ _. Some (Some c, None), se_LookupIP = \<lambda>_. Inr [], se_TLS = Inr\<rparr>"

theorem socks5_client_meets_server_witness:
  "socks5_Dial (demo_env (arriving [[5, 0], [5, 0, 0, 4] @ v4InV6 @ [10, 0, 0, 1, 4, 56]])) (demo_proxy None) ''tcp'' (JoinHostPort ''h'' (itoa_nat 80)) =
    Some (Some ((arriving [])\<lparr>cn_out := [[5, 1, 0], [5, 1, 0, 3, 1, 104, 0, 80]]\<rparr>), None)"
proof -
  let ?s = "(arriving [])\<lparr>cn_local := JoinHostPort (dotted [10, 0, 0, 1]) (itoa_nat 1080)\<rparr>"
  let ?c = "arriving [[5, 0], success_reply ?s]"
  have reply: "success_reply ?s = [5, 0, 0, 4] @ v4InV6 @ [10, 0, 0, 1, 4, 56]"
    using success_reply_IPv4 [of ?s "[10, 0, 0, 1]" 1080] by (simp add: BE_PutUint16_def)
  have "socks5_Dial (demo_env ?c) (demo_proxy None) ''tcp'' (JoinHostPort ''h'' (itoa_nat 80)) =
      Some (Some (?c\<lparr>cn_in := [], cn_out := cn_out ?c @ [[5] @ greeting [0],
        socks5_ToPacket (fqdn_request commandConnect (bytes_of ''h'') (BE_PutUint16 80))]\<rparr>), None)"
    by (rule socks5_client_meets_server [where s = ?s and ip = "[10, 0, 0, 1]" and lport = 1080])
      (simp_all add: demo_env_def demo_proxy_def arriving_def writable_def isTLS_def commandByNetwork_def ToUpper_def ToLower_def
        upper_char_def lower_char_def of_char_def)
  then show ?thesis
    unfolding reply by (simp add: arriving_def greeting_def socks5_ToPacket_def fqdn_request_def socks_consts BE_PutUint16_def bytes_of_def of_char_def)
qed

text \<open>
  A client with a user name never authenticates with the server of the same package. The server
  chooses the password method (2), the client takes only the answer 1 as a request for the
  password, goes on without sending it, and the server closes the connection on the connect
  request, which it reads as the password packet.
\<close>

lemma socks5_password_client_rejected:
  assumes "open_conn c [[5, 2]]" and "writable c" and "u_User proxy = Some user" and "\<not> isTLS proxy"
    and "open_conn s [[5] @ greeting [2], socks5_ToPacket (fqdn_request command host port)]" and "writable s"
    and "conf_Auth conf = Some auth" and "conf_TLS conf = None" and "length host \<le> 255" and "length port = 2"
  shows "client_handshake proxy c = Some (None, c\<lparr>cn_in := [], cn_out := cn_out c @ [[5] @ greeting [2]]\<rparr>) \<and>
    handleConn conf s = Some (Some errAuthMethodNotSupported,
      s\<lparr>cn_in := [], cn_out := cn_out s @ [[5, 2]], cn_closed := True\<rparr>, None)"
proof
  let ?c = "c\<lparr>cn_out := cn_out c @ [[5, 1, 2]]\<rparr>"
  have "open_conn ?c ((5 # [2]) # [])" "length [2 :: byte] < bufio_size"
    using assms(1) by (simp_all add: bufio_size_def)
  note first = ReadByte_segment [OF this]
  have "conn_Write [5, 1, 2] c = (None, ?c)" using assms(2) by (simp add: conn_Write_def writable_def)
  then show "client_handshake proxy c = Some (None, c\<lparr>cn_in := [], cn_out := cn_out c @ [[5] @ greeting [2]]\<rparr>)"
    using assms(3,4) by (simp add: client_handshake_def client_method_def socks5Initial_ToPacket_def socks_consts first buffered Let_def greeting_def)
next
  let ?pkt = "socks5_ToPacket (fqdn_request command host port)"
  let ?sa = "s\<lparr>cn_in := [greeting [2], ?pkt]\<rparr>" and ?sb = "s\<lparr>cn_in := [?pkt], cn_out := cn_out s @ [[5, 2]]\<rparr>"
  let ?rest = "command # 0 # 3 # of_nat (length host) # host @ port"
  have "open_conn ?sb ((5 # ?rest) # [])" "length ?rest < bufio_size"
    using assms(6,9,10) by (simp_all add: open_conn_def writable_def socks5_ToPacket_def fqdn_request_def socks_consts bufio_size_def)
  note first = ReadByte_segment [OF this]
  have g: "andthen (ReadByte (NewBufio ?sa)) (\<lambda>n reader. read_into (unat n) reader) = (Inr [2], ([], ?sa\<lparr>cn_in := [?pkt]\<rparr>))"
    by (rule read_greeting) (use assms(6) in \<open>simp_all add: open_conn_in\<close>)
  have "sendAuthReply 2 (s\<lparr>cn_in := [?pkt]\<rparr>) = ?sb"
    using assms(6) by (simp add: sendAuthReply_def writable_Write socks_consts)
  then have "authBasedPassword conf auth [2] (s\<lparr>cn_in := [?pkt]\<rparr>) = (Some errAuthMethodNotSupported, ?sb\<lparr>cn_in := []\<rparr>)"
    using assms(8) by (simp add: authBasedPassword_def Let_def first socks5AuthMethodPassword_def)
  then have "socks5_Serve conf ?sa = Some (Some errAuthMethodNotSupported, conn_Close (?sb\<lparr>cn_in := []\<rparr>), None)"
    using g assms(7) by (simp add: socks5_Serve_def socks5_handshake_def)
  moreover have "handleConn conf s = socks5_Serve conf ?sa"
    using handleConn_socks5 [of s 1 "[2]" "[?pkt]" conf] assms(5,8) by (simp add: greeting_def socks_consts)
  ultimately show "handleConn conf s = Some (Some errAuthMethodNotSupported,
      s\<lparr>cn_in := [], cn_out := cn_out s @ [[5, 2]], cn_closed := True\<rparr>, None)"
    by (simp add: conn_Close_def)
qed

lemma socks5_password_client_rejected_witness:
  "client_handshake (demo_proxy (Some (''u'', Some ''p''))) (arriving [[5, 2]]) = Some (None, (arriving [])\<lparr>cn_out := [[5, 1, 2]]\<rparr>) \<and>
   handleConn (demo_conf (Some (\<lambda>u p. True))) (arriving [[5, 1, 2], [5, 1, 0, 3, 1, 104, 0, 80]]) =
     Some (Some errAuthMethodNotSupported, (arriving [])\<lparr>cn_out := [[5, 2]], cn_closed := True\<rparr>, None)"
  using socks5_password_client_rejected [of "arriving [[5, 2]]" "demo_proxy (Some (''u'', Some ''p''))" "(''u'', Some ''p'')"
      "arriving [[5, 1, 2], [5, 1, 0, 3, 1, 104, 0, 80]]" commandConnect "[104]" "[0, 80]" "demo_conf (Some (\<lambda>u p. True))" "\<lambda>u p. True"]
  by (simp add: arriving_def open_conn_def writable_def demo_proxy_def isTLS_def ToUpper_def upper_char_def of_char_def greeting_def
      socks5_ToPacket_def fqdn_request_def socks_consts demo_conf_def)

end
