(* ===== verification/HttpProxy.thy ===== *)
theory HttpProxy
  imports GoUrl
begin

text \<open>
  Package \<open>HTTPProxy\<close> (\<^verbatim>\<open>src/proxyPool/HTTPProxy\<close>): basic authentication, the proxy handler and the
  proxy client. Base64 is modelled from \<open>encoding/base64\<close>; reading and writing HTTP messages,
  the HTTP client, hijacking and TLS belong to \<open>net/http\<close> and \<open>crypto/tls\<close> and are arguments.
\<close>

subsection \<open>encoding/base64\<close>

definition b64_alphabet :: string where
  "b64_alphabet = ''ABCDEFGHIJKLMNOPQRSTUVWXYZabcdefghijklmnopqrstuvwxyz0123456789+/''"

definition b64_char :: "nat \<Rightarrow> char" where
  "b64_char n = b64_alphabet ! n"

definition b64_val :: "char \<Rightarrow> nat option" where
  "b64_val c = find_char c b64_alphabet"

definition sextets :: "nat \<Rightarrow> string" where
  "sextets n = [b64_char (n div 262144), b64_char (n div 4096 mod 64), b64_char (n div 64 mod 64), b64_char (n mod 64)]"

definition be24 :: "byte \<Rightarrow> byte \<Rightarrow> byte \<Rightarrow> nat" where
  "be24 a b c = 65536 * unat a + 256 * unat b + unat c"

fun EncodeToString :: "byte list \<Rightarrow> string" where
  "EncodeToString [] = []"
| "EncodeToString [a] = take 2 (sextets (be24 a 0 0)) @ ''==''"
| "EncodeToString [a, b] = take 3 (sextets (be24 a b 0)) @ ''=''"
| "EncodeToString (a # b # c # r) = sextets (be24 a b c) @ EncodeToString r"

definition b64_group :: "char \<Rightarrow> char \<Rightarrow> char \<Rightarrow> char \<Rightarrow> byte list option" where
  "b64_group p q r s = do {
     w \<leftarrow> b64_val p; x \<leftarrow> b64_val q; y \<leftarrow> b64_val r; z \<leftarrow> b64_val s;
     let n = 262144 * w + 4096 * x + 64 * y + z;
     Some [of_nat (n div 65536), of_nat (n div 256), of_nat n] }"

text \<open>Padding stands only at the very end.\<close>

fun b64_decode :: "string \<Rightarrow> byte list option" where
  "b64_decode [] = Some []"
| "b64_decode [p, q, r, s] =
     (if s = CHR ''='' then
        (if r = CHR ''='' then map_option (take 1) (b64_group p q (CHR ''A'') (CHR ''A''))
         else map_option (take 2) (b64_group p q r (CHR ''A'')))
      else b64_group p q r s)"
| "b64_decode (p # q # r # s # t) = do {
     g \<leftarrow> b64_group p q r s;
     rest \<leftarrow> b64_decode t;
     Some (g @ rest) }"
| "b64_decode _ = None"

text \<open>Line breaks are ignored.\<close>

definition DecodeString :: "string \<Rightarrow> byte list option" where
  "DecodeString s = b64_decode (filter (\<lambda>c. of_char c \<noteq> (10 :: nat) \<and> of_char c \<noteq> (13 :: nat)) s)"

subsection \<open>utils.go\<close>

definition basic_prefix :: string where
  "basic_prefix = ''Basic ''"

definition encodeBasicAuth :: "string \<Rightarrow> string \<Rightarrow> string" where
  "encodeBasicAuth username password = basic_prefix @ EncodeToString (bytes_of (username @ '':'' @ password))"

definition decodeBasicAuth :: "string \<Rightarrow> (string \<times> string) option" where
  "decodeBasicAuth auth =
     (if take (length basic_prefix) auth \<noteq> basic_prefix then None
      else (case DecodeString (drop (length basic_prefix) auth) of
          None \<Rightarrow> None
        | Some decoded \<Rightarrow> (case Split (CHR '':'') (string_of decoded) of
            [username, password] \<Rightarrow> Some (username, password)
          | _ \<Rightarrow> None)))"

definition url_Port :: "string \<Rightarrow> string" where
  "url_Port hostport = (case find_char (CHR '':'') hostport of
       None \<Rightarrow> []
     | Some colon \<Rightarrow>
         (case find_char (CHR '']'') hostport of
            None \<Rightarrow> drop (colon + 1) hostport
          | Some i \<Rightarrow> if take 1 (drop (i + 1) hostport) = '':'' then drop (i + 2) hostport else []))"

definition url_Hostname :: "string \<Rightarrow> string" where
  "url_Hostname hostport = (case find_char (CHR '':'') hostport of
       None \<Rightarrow> hostport
     | Some colon \<Rightarrow>
         (case find_char (CHR '']'') hostport of
            None \<Rightarrow> take colon hostport
          | Some i \<Rightarrow> (let h = take i hostport in if h \<noteq> [] \<and> hd h = CHR ''['' then tl h else h)))"

definition urlToRemoteAddress :: "URL \<Rightarrow> string" where
  "urlToRemoteAddress url =
     (if url_Port (u_Host url) \<noteq> [] then u_Host url
      else JoinHostPort (url_Hostname (u_Host url))
        (if ToUpper (u_Scheme url) = ''HTTP'' then ''80''
         else if ToUpper (u_Scheme url) = ''HTTPS'' then ''443'' else []))"

subsection \<open>serve.go\<close>

record http_Request =
  hr_Method :: string
  hr_URL :: URL
  hr_Authorization :: string

text \<open>
  The response of the upstream server, and what the handler does to the client: the refusal written
  into the response, the response copied, the tunnel established and joined.
\<close>

record http_Response =
  hp_Header :: "(string \<times> string list) list"
  hp_Body :: "byte list"

datatype http_effect =
    WroteUnauthorized
  | CopiedResponse "(string \<times> string list) list" "byte list"
  | Established conn
  | Relayed conn conn

text \<open>
  \<open>h_Hijack\<close> is \<open>None\<close> when the writer cannot be hijacked; \<open>h_established\<close> are the bytes of the
  200 response; \<open>h_CopyErr\<close> is the error of copying the body.
\<close>

record http_Handler =
  h_Auth :: "(string \<Rightarrow> string \<Rightarrow> bool) option"
  h_Dial :: "string \<Rightarrow> string \<Rightarrow> go_error + conn"
  h_Do :: "http_Request \<Rightarrow> go_error + http_Response"
  h_Hijack :: "(go_error + conn) option"
  h_established :: "byte list"
  h_CopyErr :: "go_error option"

text \<open>
  The \<open>ok\<close> assigned inside the \<open>if\<close> is a new variable: the result is always false, and a decoded
  name and password only reach \<open>Auth\<close>, whose answer is dropped.
\<close>

definition basicAuth :: "http_Handler \<Rightarrow> http_Request \<Rightarrow> bool \<times> http_effect list" where
  "basicAuth h request = (case h_Auth h of
       None \<Rightarrow> (False, [])
     | Some auth \<Rightarrow> (case decodeBasicAuth (hr_Authorization request) of
         Some (username, password) \<Rightarrow> (False, [])
       | None \<Rightarrow> (False, [WroteUnauthorized])))"

definition http_handleConnect :: "http_Handler \<Rightarrow> http_Request \<Rightarrow> go_error option \<times> http_effect list" where
  "http_handleConnect h request = (case h_Hijack h of
       None \<Rightarrow> (Some (ErrMsg ''can't cast to Hijacker''), [])
     | Some (Inl err) \<Rightarrow> (Some err, [])
     | Some (Inr localConn) \<Rightarrow>
         (case conn_Write (h_established h) localConn of
            (Some err, localConn) \<Rightarrow> (Some err, [])
          | (None, localConn) \<Rightarrow>
              (case h_Dial h ''tcp'' (urlToRemoteAddress (hr_URL request)) of
                 Inl err \<Rightarrow> (Some err, [Established localConn])
               | Inr remoteConn \<Rightarrow> (None, [Established localConn, Relayed localConn remoteConn]))))"

definition http_handleNormal :: "http_Handler \<Rightarrow> http_Request \<Rightarrow> go_error option \<times> http_effect list" where
  "http_handleNormal h request = (case h_Do h request of
       Inl err \<Rightarrow> (Some err, [])
     | Inr response \<Rightarrow> (h_CopyErr h, [CopiedResponse (hp_Header response) (hp_Body response)]))"

text \<open>The error for \<open>HandleError\<close> and everything done to the client, in order.\<close>

definition ServeHTTP :: "http_Handler \<Rightarrow> http_Request \<Rightarrow> go_error option \<times> http_effect list" where
  "ServeHTTP h request = (case basicAuth h request of (stop, eff) \<Rightarrow>
     if stop then (None, eff)
     else (case (if hr_Method request = ''CONNECT'' then http_handleConnect h request else http_handleNormal h request) of
         (err, eff') \<Rightarrow> (err, eff @ eff')))"

subsection \<open>client.go\<close>

text \<open>
  \<open>hc_NewRequest\<close> is the error of \<open>http.NewRequest\<close> for a host, \<open>hc_request\<close> the bytes of the CONNECT
  request for an address with its authorization header, \<open>hc_ReadResponse\<close> the status code read.
\<close>

record http_env =
  hc_Dial :: "string \<Rightarrow> string \<Rightarrow> dialed go"
  hc_TLS :: "conn \<Rightarrow> go_error + conn"
  hc_NewRequest :: "string \<Rightarrow> go_error option"
  hc_request :: "string \<Rightarrow> string option \<Rightarrow> byte list"
  hc_ReadResponse :: "conn \<Rightarrow> (go_error + nat) \<times> conn"

definition setBasicAuth :: "(string \<times> string option) option \<Rightarrow> string option" where
  "setBasicAuth user = (case user of
       Some (username, Some password) \<Rightarrow> Some (encodeBasicAuth username password)
     | _ \<Rightarrow> None)"

definition newRequest :: "http_env \<Rightarrow> URL \<Rightarrow> string \<Rightarrow> go_error + byte list" where
  "newRequest env proxy address = (case SplitHostPort address of
       Inl err \<Rightarrow> Inl err
     | Inr (remoteHost, _) \<Rightarrow> (case hc_NewRequest env remoteHost of
         Some err \<Rightarrow> Inl err
       | None \<Rightarrow> Inr (hc_request env address (setBasicAuth (u_User proxy)))))"

definition http_connect :: "http_env \<Rightarrow> URL \<Rightarrow> string \<Rightarrow> string \<Rightarrow> dialed go" where
  "http_connect env proxy network address = do {
     (conn, err) \<leftarrow> hc_Dial env network address;
     (case err of
        Some e \<Rightarrow> Some (conn, Some e)
      | None \<Rightarrow>
          if ToUpper (u_Scheme proxy) = ''HTTPS'' then do {
            c \<leftarrow> conn;
            Some (case hc_TLS env c of
                Inl err \<Rightarrow> (Some (conn_Close c), Some err)
              | Inr tlsConn \<Rightarrow> (Some tlsConn, None)) }
          else Some (conn, None)) }"

definition http_Dial :: "http_env \<Rightarrow> URL \<Rightarrow> string \<Rightarrow> string \<Rightarrow> dialed go" where
  "http_Dial env proxy network address =
     (if ToUpper (u_Scheme proxy) \<notin> {''HTTP'', ''HTTPS''} then Some (None, Some (ErrMsg ''Proxy URL Scheme not HTTP or HTTPS''))
      else do {
        (c, err) \<leftarrow> http_connect env proxy network (u_Host proxy);
        (case err of
           Some e \<Rightarrow> Some (c, Some e)
         | None \<Rightarrow> do {
            conn \<leftarrow> c;
            (case newRequest env proxy address of
               Inl err \<Rightarrow> Some (Some (conn_Close conn), Some err)
             | Inr request \<Rightarrow>
                 (case conn_Write request conn of
                    (Some err, conn) \<Rightarrow> Some (Some (conn_Close conn), Some err)
                  | (None, conn) \<Rightarrow>
                      (case hc_ReadResponse env conn of
                         (Inl err, conn) \<Rightarrow> Some (Some (conn_Close conn), Some err)
                       | (Inr status, conn) \<Rightarrow>
                           Some (Some (if status \<noteq> 200 then conn_Close conn else conn), None)))) }) })"

subsection \<open>Base64 round trip\<close>

lemma b64_val_char:
  assumes "n < 64"
  shows "b64_val (b64_char n) = Some n"
proof -
  have "\<forall>k \<in> set [0..<64]. b64_val (b64_char k) = Some k" by code_simp
  then show ?thesis using assms by simp
qed

lemma b64_char_plain:
  assumes "n < 64"
  shows "b64_char n \<noteq> CHR ''=''" and "of_char (b64_char n) \<noteq> (10 :: nat)" and "of_char (b64_char n) \<noteq> (13 :: nat)"
proof -
  have "\<forall>k \<in> set [0..<64]. b64_char k \<noteq> CHR ''='' \<and> of_char (b64_char k) \<noteq> (10 :: nat) \<and> of_char (b64_char k) \<noteq> (13 :: nat)"
    by code_simp
  then show "b64_char n \<noteq> CHR ''=''" "of_char (b64_char n) \<noteq> (10 :: nat)" "of_char (b64_char n) \<noteq> (13 :: nat)"
    using assms by simp_all
qed

lemma be24_bound: "be24 a b c < 16777216"
  using unat_byte [of a] unat_byte [of b] unat_byte [of c] by (simp add: be24_def)

lemma be24_bytes:
  "of_nat (be24 a b c div 65536) = a" "of_nat (be24 a b c div 256) = b" "of_nat (be24 a b c) = c"
proof -
  have bounds: "unat a < 256" "unat b < 256" "unat c < 256" by (rule unat_byte)+
  have q: "be24 a b c div 65536 = unat a" "be24 a b c div 256 = 256 * unat a + unat b"
    using bounds by (simp_all add: be24_def)
  have m: "(of_nat (256 * k + unat x) :: byte) = x" for k and x :: byte
  proof -
    have "(of_nat 256 :: byte) = 0" by simp
    then show ?thesis by (simp only: of_nat_add of_nat_mult) simp
  qed
  show "of_nat (be24 a b c div 65536) = a" using q(1) by simp
  show "of_nat (be24 a b c div 256) = b" unfolding q(2) by (rule m)
  show "of_nat (be24 a b c) = c" using m [of "256 * unat a + unat b" c] by (simp add: be24_def algebra_simps)
qed

lemma sextets_split:
  assumes "n < (16777216 :: nat)"
  shows "262144 * (n div 262144) + 4096 * (n div 4096 mod 64) + 64 * (n div 64 mod 64) + n mod 64 = n"
    and "n div 262144 < 64"
proof -
  have "n div 64 = 64 * (n div 4096) + n div 64 mod 64" "n div 4096 = 64 * (n div 262144) + n div 4096 mod 64"
    using div_mult_mod_eq [of "n div 64" 64] div_mult_mod_eq [of "n div 4096" 64] by (simp_all flip: div_mult2_eq)
  then show "262144 * (n div 262144) + 4096 * (n div 4096 mod 64) + 64 * (n div 64 mod 64) + n mod 64 = n"
    using div_mult_mod_eq [of n 64] by linarith
qed (use assms in simp)

lemma b64_group_sextets:
  assumes "n < 16777216"
  shows "b64_group (b64_char (n div 262144)) (b64_char (n div 4096 mod 64)) (b64_char (n div 64 mod 64)) (b64_char (n mod 64)) =
    Some [of_nat (n div 65536), of_nat (n div 256), of_nat n]"
  using sextets_split [OF assms] by (simp add: b64_group_def b64_val_char Let_def del: of_nat_add of_nat_mult)

lemma b64_decode_encode: "b64_decode (EncodeToString bs) = Some bs"
proof (induction bs rule: EncodeToString.induct)
  case (2 a)
  have z: "be24 a 0 0 div 64 mod 64 = 0" "be24 a 0 0 mod 64 = 0" by (simp_all add: be24_def)
  have A: "b64_char 0 = CHR ''A''" by (simp add: b64_char_def b64_alphabet_def)
  show ?case
    using b64_group_sextets [OF be24_bound, of a 0 0] by (simp add: sextets_def z A be24_bytes)
next
  case (3 a b)
  have z: "be24 a b 0 mod 64 = 0" by (simp add: be24_def)
  have A: "b64_char 0 = CHR ''A''" by (simp add: b64_char_def b64_alphabet_def)
  have "b64_char (be24 a b 0 div 64 mod 64) \<noteq> CHR ''=''" by (rule b64_char_plain(1)) simp
  then show ?case
    using b64_group_sextets [OF be24_bound, of a b 0] by (simp add: sextets_def z A be24_bytes)
next
  case (4 a b c r)
  have g: "b64_group (b64_char (be24 a b c div 262144)) (b64_char (be24 a b c div 4096 mod 64))
      (b64_char (be24 a b c div 64 mod 64)) (b64_char (be24 a b c mod 64)) = Some [a, b, c]"
    using b64_group_sextets [OF be24_bound, of a b c] by (simp add: be24_bytes)
  have "b64_char (be24 a b c mod 64) \<noteq> CHR ''=''" by (rule b64_char_plain(1)) simp
  with 4 g show ?case by (cases "EncodeToString r") (auto simp: sextets_def)
qed simp

lemma DecodeString_Encode: "DecodeString (EncodeToString bs) = Some bs"
proof -
  let ?ok = "\<lambda>c. of_char c \<noteq> (10 :: nat) \<and> of_char c \<noteq> (13 :: nat)"
  have six: "\<forall>c \<in> set (sextets n). ?ok c" if "n < 16777216" for n
    using sextets_split(2) [OF that] b64_char_plain(2,3) by (simp add: sextets_def)
  have pad: "?ok (CHR ''='')" by (simp add: of_char_def)
  have "\<forall>c \<in> set (EncodeToString bs). ?ok c"
  proof (induction bs rule: EncodeToString.induct)
    case (2 a)
    show ?case using six [OF be24_bound, of a 0 0] pad by (auto dest: in_set_takeD)
  next
    case (3 a b)
    show ?case using six [OF be24_bound, of a b 0] pad by (auto dest: in_set_takeD)
  next
    case (4 a b c r)
    then show ?case using six [OF be24_bound, of a b c] by auto
  qed simp
  then have "filter ?ok (EncodeToString bs) = EncodeToString bs" by (simp add: filter_id_conv)
  then show ?thesis unfolding DecodeString_def by (simp only: b64_decode_encode)
qed

lemma length_Split: "length (Split c s) = Suc (count_list s c)"
  by (induction s) (auto split: list.split)

text \<open>
  Basic credentials: what \<open>encodeBasicAuth\<close> writes, \<open>decodeBasicAuth\<close> reads back exactly when neither
  the user name nor the password contains a colon; a password with a colon, which the scheme
  allows, is rejected.
\<close>

lemma basic_auth_roundtrip:
  "decodeBasicAuth (encodeBasicAuth username password) =
    (if CHR '':'' \<in> set username \<or> CHR '':'' \<in> set password then None else Some (username, password))"
proof -
  let ?s = "username @ CHR '':'' # password"
  have "Split (CHR '':'') ?s = [username, password]" if "CHR '':'' \<notin> set username" "CHR '':'' \<notin> set password"
    using that by (simp add: Split_append_sep Split_no_sep)
  moreover have "length (Split (CHR '':'') ?s) \<noteq> 2" if "CHR '':'' \<in> set username \<or> CHR '':'' \<in> set password"
    using that by (auto simp: length_Split count_list_append count_list_0_iff)
  then have "(case Split (CHR '':'') ?s of [u, p] \<Rightarrow> Some (u, p) | _ \<Rightarrow> None) = None"
    if "CHR '':'' \<in> set username \<or> CHR '':'' \<in> set password"
    using that by (auto split: list.split)
  ultimately show ?thesis by (simp add: decodeBasicAuth_def encodeBasicAuth_def DecodeString_Encode)
qed

subsection \<open>The handler and the client\<close>

text \<open>
  C33. Authentication is never enforced: whatever check is configured and whatever the request carries,
  the handler does everything it would do without authentication, with the same error; at most
  it writes the 401 text in front.
\<close>

theorem http_auth_not_enforced:
  "\<exists>eff. set eff \<subseteq> {WroteUnauthorized} \<and>
    ServeHTTP h request = (fst (ServeHTTP (h\<lparr>h_Auth := None\<rparr>) request), eff @ snd (ServeHTTP (h\<lparr>h_Auth := None\<rparr>) request))"
proof -
  have "http_handleConnect (h\<lparr>h_Auth := None\<rparr>) request = http_handleConnect h request"
    "http_handleNormal (h\<lparr>h_Auth := None\<rparr>) request = http_handleNormal h request"
    by (simp_all add: http_handleConnect_def http_handleNormal_def split: option.split sum.split prod.split)
  moreover obtain eff where "basicAuth h request = (False, eff)" "set eff \<subseteq> {WroteUnauthorized}"
    by (cases "h_Auth h"; cases "decodeBasicAuth (hr_Authorization request)") (auto simp: basicAuth_def)
  ultimately show ?thesis
    by (intro exI [of _ eff]) (simp add: ServeHTTP_def basicAuth_def [of "h\<lparr>h_Auth := None\<rparr>"] split: prod.split)
qed

text \<open>
  A refused tunnel looks like success: when the proxy answers the CONNECT with any status but 200,
  the dial returns no error and a connection that is already closed.
\<close>

lemma http_refused_no_error:
  assumes "ToUpper (u_Scheme proxy) = ''HTTP''" and "hc_Dial env network (u_Host proxy) = Some (Some c, None)"
    and "newRequest env proxy address = Inr request" and "conn_Write request c = (None, c1)"
    and "hc_ReadResponse env c1 = (Inr status, c2)"
  shows "\<exists>c'. http_Dial env proxy network address = Some (Some c', None) \<and> (cn_closed c' \<longleftrightarrow> cn_closed c2 \<or> status \<noteq> 200)"
  using assms by (simp add: http_Dial_def http_connect_def conn_Close_def)

definition demo_http_env :: "nat \<Rightarrow> http_env" where
  "demo_http_env status = \<lparr>hc_Dial = \<lambda>_ _. Some (Some (arriving []), None), hc_TLS = Inr, hc_NewRequest = \<lambda>_. None,
     hc_request = \<lambda>address auth. bytes_of (''CONNECT '' @ address), hc_ReadResponse = \<lambda>c. (Inr status, c)\<rparr>"

lemma http_refused_no_error_witness:
  "\<exists>c'. http_Dial (demo_http_env 407) \<lparr>u_Scheme = ''HTTP'', u_User = None, u_Host = ''p:80'', u_Path = [], u_Query = []\<rparr> ''tcp'' ''a:1'' =
    Some (Some c', None) \<and> cn_closed c'"
proof -
  let ?p = "\<lparr>u_Scheme = ''HTTP'', u_User = None, u_Host = ''p:80'', u_Path = [], u_Query = []\<rparr>"
  let ?req = "bytes_of (''CONNECT '' @ ''a:1'')" and ?c = "arriving []"
  have "newRequest (demo_http_env 407) ?p ''a:1'' = Inr ?req"
    by (simp add: newRequest_def SplitHostPort_def find_last_def demo_http_env_def setBasicAuth_def)
  then show ?thesis
    using http_refused_no_error [of ?p "demo_http_env 407" "''tcp''" ?c "''a:1''" ?req "?c\<lparr>cn_out := [?req]\<rparr>" 407 "?c\<lparr>cn_out := [?req]\<rparr>"]
    by (simp add: demo_http_env_def arriving_def conn_Write_def ToUpper_def upper_char_def of_char_def)
qed

end
