(* ===== verification/ProxyClient.thy ===== *)
theory ProxyClient
  imports ShadowCore SocksClient HttpProxy
begin

text \<open>
  Package \<open>proxyclient\<close> (\<^verbatim>\<open>src/proxyPool/ProxyClient\<close>) and its load balancers: the registry of schemes,
  chains of proxies, the factories, and the dial functions that keep a counter. A connection is of
  any type \<open>'c\<close>; a dial function that may panic is in the option monad.
\<close>

type_synonym 'c Dial = "string \<Rightarrow> string \<Rightarrow> ('c option \<times> go_error option) go"
type_synonym 'c DialFactory = "URL \<Rightarrow> 'c Dial \<Rightarrow> go_error + 'c Dial"

subsection \<open>utils.go\<close>

text \<open>
  A path that names one of the three built-in clients becomes the scheme. The names of the query are
  added in lower case; later entries of the same name win, as in Go's map (whose order of
  iteration, when two names differ only in case, is not specified; the list order is taken here).
\<close>

definition lower_query :: "(string \<times> string list) list \<Rightarrow> (string \<times> string list) list" where
  "lower_query q = foldl (\<lambda>m (name, value). (ToLower name, value) # filter (\<lambda>(n, _). n \<noteq> ToLower name) m) q q"

definition normalizeLink :: "URL \<Rightarrow> URL" where
  "normalizeLink proxy =
     (let proxy = (if ToUpper (u_Path proxy) \<in> {''DIRECT'', ''REJECT'', ''BLACKHOLE''}
                   then new_URL\<lparr>u_Scheme := u_Path proxy\<rparr> else proxy)
      in proxy\<lparr>u_Scheme := ToUpper (u_Scheme proxy), u_Query := lower_query (u_Query proxy)\<rparr>)"

record tls_Config =
  tls_ServerName :: string
  tls_InsecureSkipVerify :: bool
  tls_CAs :: "string option"

text \<open>\<open>load\<close> reads a certificate file into a pool, named by the file.\<close>

definition tlsConfigByProxyURL :: "(string \<Rightarrow> bool) \<Rightarrow> URL \<Rightarrow> tls_Config" where
  "tlsConfigByProxyURL load proxy =
     (let name = query_Get ''tls-domain'' proxy; caFile = query_Get ''tls-ca-file'' proxy
      in \<lparr>tls_ServerName = (if name = [] then u_Host proxy else name),
          tls_InsecureSkipVerify = (query_Get ''tls-insecure-skip-verify'' proxy = ''true''),
          tls_CAs = (if caFile \<noteq> [] \<and> load caFile then Some caFile else None)\<rparr>)"

text \<open>\<open>parse\<close> stands for \<open>URL.Parse\<close> of the decoded link.\<close>

definition decodedBase64EncodedURL :: "(string \<Rightarrow> go_error + URL) \<Rightarrow> URL \<Rightarrow> go_error + URL" where
  "decodedBase64EncodedURL parse proxy =
     (if u_Scheme proxy = [] \<and> u_Host proxy = [] then Inr proxy
      else (case DecodeString (u_Host proxy) of
          Some content \<Rightarrow> parse (u_Scheme proxy @ ''://'' @ string_of content)
        | None \<Rightarrow> Inr proxy))"

subsection \<open>client.go\<close>

definition NewClientWithDial :: "(string \<rightharpoonup> 'c DialFactory) \<Rightarrow> URL option \<Rightarrow> 'c Dial option \<Rightarrow> go_error + 'c Dial" where
  "NewClientWithDial schemes proxy upstreamDial = (case proxy of
       None \<Rightarrow> Inl (ErrMsg ''proxy url is nil'')
     | Some p \<Rightarrow> (case upstreamDial of
         None \<Rightarrow> Inl (ErrMsg ''upstream dial is nil'')
       | Some up \<Rightarrow>
           (let p = normalizeLink p in
            case schemes (u_Scheme p) of
              None \<Rightarrow> Inl (ErrMsg ''unsupported proxy client.'')
            | Some factory \<Rightarrow> factory p up)))"

fun NewClientChainWithDial :: "(string \<rightharpoonup> 'c DialFactory) \<Rightarrow> URL option list \<Rightarrow> 'c Dial option \<Rightarrow> go_error + 'c Dial option" where
  "NewClientChainWithDial schemes [] dial = Inr dial"
| "NewClientChainWithDial schemes (proxyURL # proxies) dial = (case NewClientWithDial schemes proxyURL dial of
       Inl err \<Rightarrow> Inl err
     | Inr d \<Rightarrow> NewClientChainWithDial schemes proxies (Some d))"

definition RegisterScheme :: "string \<Rightarrow> 'c DialFactory \<Rightarrow> (string \<rightharpoonup> 'c DialFactory) \<Rightarrow> (string \<rightharpoonup> 'c DialFactory)" where
  "RegisterScheme schemeName factory schemes = schemes(ToUpper schemeName \<mapsto> factory)"

definition SupportedSchemes :: "(string \<rightharpoonup> 'c DialFactory) \<Rightarrow> string set" where
  "SupportedSchemes schemes = dom schemes"

definition TCPOnly :: "'c Dial \<Rightarrow> 'c Dial" where
  "TCPOnly dial network address =
     (if ToUpper network \<in> {''TCP'', ''TCP4'', ''TCP6''} then dial network address
      else Some (None, Some (ErrMsg ''unsupported network type.'')))"

subsection \<open>The factories\<close>

text \<open>\<open>netDial\<close> is \<open>net.Dial\<close>, \<open>timeoutDial\<close> the dialer with a timeout, \<open>duration\<close> the parsed duration or 0.\<close>

definition newDirectProxyClient :: "'c Dial \<Rightarrow> (int \<Rightarrow> 'c Dial) \<Rightarrow> (string \<Rightarrow> int) \<Rightarrow> 'c DialFactory" where
  "newDirectProxyClient netDial timeoutDial duration proxy _ =
     (let timeout = duration (query_Get ''timeout'' proxy) in Inr (if timeout \<noteq> 0 then timeoutDial timeout else netDial))"

text \<open>\<open>strconv.ParseInt(s, 10, 8)\<close> with its error ignored: out of range gives the nearest value.\<close>

definition ParseInt8 :: "string \<Rightarrow> int" where
  "ParseInt8 s = (case Atoi s of (n, Some ErrSyntax) \<Rightarrow> 0 | (n, _) \<Rightarrow> max (-128) (min 127 n))"

text \<open>The state of the reject client is the number of attempts; \<open>hole\<close> is the blackhole connection.\<close>

definition reject_dial :: "'c \<Rightarrow> int \<Rightarrow> int \<Rightarrow> ('c option \<times> go_error option) \<times> int" where
  "reject_dial hole tries attempt =
     (if 0 < tries then
        (let attempt = attempt + 1 in
         if tries < attempt then ((Some hole, None), attempt)
         else ((None, Some (ErrMsg ''reject dial'')), attempt))
      else ((None, Some (ErrMsg ''reject dial'')), attempt))"

definition newRejectProxyClient :: "URL \<Rightarrow> int" where
  "newRejectProxyClient proxy = ParseInt8 (query_Get ''try-to-blackhole'' proxy)"

definition newBlackholeProxyClient :: "'c \<Rightarrow> 'c DialFactory" where
  "newBlackholeProxyClient hole proxy _ = Inr (\<lambda>network address. Some (Some hole, None))"

text \<open>SOCKS and HTTP work on the bytes of their upstream connection.\<close>

definition newSocksProxyClient :: "socks_env \<Rightarrow> conn DialFactory" where
  "newSocksProxyClient env proxy upstreamDial = (case Socks_NewClient proxy of
       Inl err \<Rightarrow> Inl err
     | Inr client \<Rightarrow> Inr (TCPOnly (\<lambda>network address.
         Socks_Dial (env\<lparr>se_Dial := upstreamDial\<rparr>) client network address)))"

definition newHTTPProxyClient :: "http_env \<Rightarrow> conn DialFactory" where
  "newHTTPProxyClient env proxy upstreamDial = Inr (TCPOnly (\<lambda>network address.
     http_Dial (env\<lparr>hc_Dial := upstreamDial\<rparr>) proxy network address))"

text \<open>
  Shadowsocks: without a password the cipher stays \<open>nil\<close>, and using it panics. The upstream is asked
  for the target address itself, not for the proxy's.
\<close>

definition ss_dial :: "core_Cipher option \<Rightarrow> 'c Dial \<Rightarrow> (core_Cipher \<Rightarrow> 'c option \<Rightarrow> 'd) \<Rightarrow> 'd Dial" where
  "ss_dial cipher upstreamDial wrap network address = do {
     (conn, err) \<leftarrow> upstreamDial network address;
     ciph \<leftarrow> cipher;
     Some (Some (wrap ciph conn), err) }"

definition newShadowsocksProxyClient ::
  "crypto_env \<Rightarrow> (string \<Rightarrow> go_error + URL) \<Rightarrow> (core_Cipher \<Rightarrow> 'c option \<Rightarrow> 'd) \<Rightarrow> URL \<Rightarrow> 'c Dial \<Rightarrow> (go_error + 'd Dial) go" where
  "newShadowsocksProxyClient env parse wrap proxy upstreamDial = (case decodedBase64EncodedURL parse proxy of
       Inl err \<Rightarrow> Some (Inl err)
     | Inr proxy \<Rightarrow> (case u_User proxy of
         None \<Rightarrow> Some (Inl (ErrMsg ''method and password is not available''))
       | Some (name, None) \<Rightarrow> Some (Inr (ss_dial None upstreamDial wrap))
       | Some (name, Some password) \<Rightarrow> do {
           c \<leftarrow> PickCipher env name [] password;
           Some (case c of Inl err \<Rightarrow> Inl err | Inr ciph \<Rightarrow> Inr (ss_dial (Some ciph) upstreamDial wrap)) }))"

subsection \<open>loadbalance\<close>

text \<open>\<open>rnd n\<close> is \<open>rand.Intn(n)\<close>, which panics for \<open>n \<le> 0\<close>; \<open>crc\<close> is \<open>crc32.ChecksumIEEE\<close>.\<close>

definition Random_pick :: "(nat \<Rightarrow> nat) \<Rightarrow> 'd list \<Rightarrow> 'd go" where
  "Random_pick rnd proxies = (if proxies = [] then None else idx proxies (int (rnd (length proxies))))"

definition Hash_pick :: "(byte list \<Rightarrow> w32) \<Rightarrow> 'd list \<Rightarrow> string \<Rightarrow> 'd go" where
  "Hash_pick crc proxies address =
     (if proxies = [] then None else idx proxies (int (unat (crc (bytes_of address)) mod length proxies)))"

text \<open>One call of the round-robin dial: the proxy it uses and the new index.\<close>

definition RoundRobin_pick :: "'d list \<Rightarrow> nat \<Rightarrow> ('d \<times> nat) go" where
  "RoundRobin_pick proxies index =
     (let index = (if length proxies < index then 0 else index) in do {
        dial \<leftarrow> idx proxies (int index);
        Some (dial, index + 1) })"

fun RoundRobin_calls :: "'d list \<Rightarrow> nat \<Rightarrow> nat \<Rightarrow> ('d list \<times> nat) go" where
  "RoundRobin_calls proxies 0 index = Some ([], index)"
| "RoundRobin_calls proxies (Suc k) index = do {
     (d, index) \<leftarrow> RoundRobin_pick proxies index;
     (ds, index) \<leftarrow> RoundRobin_calls proxies k index;
     Some (d # ds, index) }"

subsection \<open>Properties\<close>

text \<open>The chain of factories: each proxy is reached through the ones before it.\<close>

fun chain :: "(string \<rightharpoonup> 'c DialFactory) \<Rightarrow> URL list \<Rightarrow> 'c Dial \<Rightarrow> (go_error + 'c Dial)" where
  "chain schemes [] up = Inr up"
| "chain schemes (p # ps) up = (let q = normalizeLink p in
     case schemes (u_Scheme q) of
       None \<Rightarrow> Inl (ErrMsg ''unsupported proxy client.'')
     | Some f \<Rightarrow> (case f q up of Inl e \<Rightarrow> Inl e | Inr d \<Rightarrow> chain schemes ps d))"

lemma chain_is_chain:
  "NewClientChainWithDial schemes (map Some ps) (Some up) = (case chain schemes ps up of Inl e \<Rightarrow> Inl e | Inr d \<Rightarrow> Inr (Some d))"
  by (induction ps arbitrary: up) (auto simp: NewClientWithDial_def Let_def split: option.split sum.split)

text \<open>
  Chaining composes: dialing through a list of proxies with an upstream is dialing through a
  second part with the client of the first part as its upstream, and the first error stops the
  construction.
\<close>

lemma chain_append:
  "NewClientChainWithDial schemes (ps @ qs) up =
    (case NewClientChainWithDial schemes ps up of Inl e \<Rightarrow> Inl e | Inr d \<Rightarrow> NewClientChainWithDial schemes qs d)"
  by (induction ps arbitrary: up) (auto split: sum.split)

text \<open>
  A registered scheme is used whatever its spelling: after registering a factory, a link with that
  scheme in any mixture of cases is given to it, with the scheme in upper case.
\<close>

lemma registered_scheme_used:
  assumes "ToUpper (u_Scheme p) = ToUpper name" and "ToUpper (u_Path p) \<notin> {''DIRECT'', ''REJECT'', ''BLACKHOLE''}"
  shows "NewClientWithDial (RegisterScheme name f schemes) (Some p) (Some up) =
    f (p\<lparr>u_Scheme := ToUpper name, u_Query := lower_query (u_Query p)\<rparr>) up"
  using assms by (simp add: NewClientWithDial_def RegisterScheme_def normalizeLink_def Let_def)

lemma registered_scheme_used_witness:
  "NewClientWithDial (RegisterScheme ''Tor'' (\<lambda>p up. Inr (\<lambda>n a. Some (Some (u_Scheme p), None))) Map.empty) (Some (new_URL\<lparr>u_Scheme := ''tOR''\<rparr>)) (Some (\<lambda>n a. None)) =
    Inr (\<lambda>n a. Some (Some (ToUpper ''Tor''), None))"
proof -
  have "ToUpper ''tOR'' = ToUpper ''Tor''" by code_simp
  then show ?thesis
    using registered_scheme_used [of "new_URL\<lparr>u_Scheme := ''tOR''\<rparr>" "''Tor''" "\<lambda>p up. Inr (\<lambda>n a. Some (Some (u_Scheme p), None))" Map.empty "\<lambda>n a. None"]
    by (simp add: new_URL_def ToUpper_def)
qed

lemma RoundRobin_prefix:
  assumes "i + k \<le> length proxies"
  shows "RoundRobin_calls proxies k i = Some (take k (drop i proxies), i + k)"
  using assms
proof (induction k arbitrary: i)
  case (Suc k)
  then have "RoundRobin_pick proxies i = Some (proxies ! i, Suc i)"
    by (simp add: RoundRobin_pick_def Let_def)
  with Suc show ?case by (simp add: Cons_nth_drop_Suc [symmetric])
qed simp

text \<open>
  Round robin goes round once and then panics: the first \<open>n\<close> calls use the \<open>n\<close> proxies in order, the
  call after them indexes one past the end, because the wrap-around tests \<open>index > len\<close>.
\<close>

lemma round_robin_panics:
  "RoundRobin_calls proxies (length proxies) 0 = Some (proxies, length proxies) \<and>
   RoundRobin_calls proxies (Suc (length proxies)) 0 = None"
proof
  show once: "RoundRobin_calls proxies (length proxies) 0 = Some (proxies, length proxies)"
    using RoundRobin_prefix [of 0 "length proxies" proxies] by simp
  have split: "RoundRobin_calls proxies (j + k) i = do {
      (ds, i) \<leftarrow> RoundRobin_calls proxies j i; (es, i) \<leftarrow> RoundRobin_calls proxies k i; Some (ds @ es, i) }" for j k i
    by (induction j arbitrary: i) (auto split: Option.bind_split)
  have "RoundRobin_pick proxies (length proxies) = None" by (simp add: RoundRobin_pick_def)
  then show "RoundRobin_calls proxies (Suc (length proxies)) 0 = None"
    using split [of "length proxies" 1 0] once by simp
qed

text \<open>
  The Shadowsocks client never talks to its proxy: the connection it returns is the upstream's
  connection to the target address, whatever host the link names, with the traffic encrypted towards
  the target; and a link without a password gives a client whose every dial panics.
\<close>

lemma ss_dials_target:
  assumes "decodedBase64EncodedURL parse proxy = Inr p" and "u_User p = Some (name, pw)"
    and "upstreamDial network address = Some (conn, err)"
    and "pw = Some password" and "PickCipher env name [] password = Some (Inr ciph)"
  shows "(\<exists>dial. newShadowsocksProxyClient env parse wrap proxy upstreamDial = Some (Inr dial) \<and>
      dial network address = Some (Some (wrap ciph conn), err)) \<and>
    ss_dial None upstreamDial wrap network address = None"
  using assms by (simp add: newShadowsocksProxyClient_def ss_dial_def)

lemma ss_dials_target_witness:
  "\<exists>dial. newShadowsocksProxyClient demo_crypto (\<lambda>s. Inl EOF) (\<lambda>c t. t) \<lparr>u_Scheme = ''SS'', u_User = Some (''dummy'', Some ''x''), u_Host = ''p'', u_Path = [], u_Query = []\<rparr>
      (\<lambda>n a. Some (Some a, None)) = Some (Inr dial) \<and> dial ''tcp'' ''target:80'' = Some (Some (Some ''target:80''), None)"
proof -
  let ?p = "\<lparr>u_Scheme = ''SS'', u_User = Some (''dummy'', Some ''x''), u_Host = ''p'', u_Path = [], u_Query = []\<rparr>"
  have "DecodeString ''p'' = None" by (simp add: DecodeString_def of_char_def)
  then have d: "decodedBase64EncodedURL (\<lambda>s. Inl EOF) ?p = Inr ?p" by (simp add: decodedBase64EncodedURL_def)
  have "ToUpper ''dummy'' = ''DUMMY''" by code_simp
  then have "PickCipher demo_crypto ''dummy'' [] ''x'' = Some (Inr CDummy)" by (simp add: PickCipher_def)
  then show ?thesis
    using ss_dials_target [OF d, of "''dummy''" "Some ''x''" "\<lambda>n a. Some (Some a, None)" "''tcp''" "''target:80''" "Some ''target:80''" None "''x''" demo_crypto CDummy "\<lambda>c t. t"]
    by simp
qed

end
