(* ===== verification/SqlTable.thy ===== *)
theory SqlTable
  imports RS_Prelude
begin

text \<open>
  What the tables of the program have in common: an SQLite table with an integer primary key is the list of
  its rows in ascending order of the key. The statements the code uses keep that order; \<open>insert\<close>
  fails for a key that is there.
\<close>

definition pk_ok :: "('r \<Rightarrow> int) \<Rightarrow> 'r list \<Rightarrow> bool" where
  "pk_ok key rows \<longleftrightarrow> sorted (map key rows) \<and> distinct (map key rows)"

definition sql_insert :: "('r \<Rightarrow> int) \<Rightarrow> 'r \<Rightarrow> 'r list \<Rightarrow> 'r list go" where
  "sql_insert key r rows = (if key r \<in> key ` set rows then None else Some (insort_key key r rows))"

definition sql_replace :: "('r \<Rightarrow> int) \<Rightarrow> 'r \<Rightarrow> 'r list \<Rightarrow> 'r list" where
  "sql_replace key r rows = map (\<lambda>x. if key x = key r then r else x) rows"

definition sql_delete :: "('r \<Rightarrow> int) \<Rightarrow> int \<Rightarrow> 'r list \<Rightarrow> 'r list" where
  "sql_delete key k rows = filter (\<lambda>x. key x \<noteq> k) rows"

named_theorems pk \<open>statements that keep the primary key in order\<close>

lemma pk_ok_Nil [simp]: "pk_ok key []"
  by (simp add: pk_ok_def)

lemma pk_ok_Cons: "pk_ok key (r # rows) \<longleftrightarrow> pk_ok key rows \<and> (\<forall>x \<in> set rows. key r < key x)"
  by (auto simp: pk_ok_def order.strict_iff_order image_iff)

lemma pk_ok_strict: "pk_ok key rows \<longleftrightarrow> sorted_wrt (<) (map key rows)"
  by (simp add: pk_ok_def strict_sorted_iff)

lemma pk_ok_insort [pk]:
  assumes "pk_ok key rows" "key r \<notin> key ` set rows"
  shows "pk_ok key (insort_key key r rows)"
proof -
  have "distinct (map key (insort_key key r rows))"
    using assms distinct_insort_key [of key r rows] by (auto simp: pk_ok_def distinct_map set_insort_key)
  then show ?thesis using assms by (simp add: pk_ok_def sorted_insort_key)
qed

lemma pk_ok_insert [pk]: "sql_insert key r rows = Some rows' \<Longrightarrow> pk_ok key rows \<Longrightarrow> pk_ok key rows'"
  by (auto simp: sql_insert_def pk_ok_insort split: if_splits)

lemma pk_ok_map [pk]:
  assumes "pk_ok key rows" "\<And>r. r \<in> set rows \<Longrightarrow> key (f r) = key r"
  shows "pk_ok key (map f rows)"
proof -
  have "map key (map f rows) = map key rows" using assms(2) by simp
  then show ?thesis using assms(1) by (simp only: pk_ok_def)
qed

lemma pk_ok_replace [pk]: "pk_ok key rows \<Longrightarrow> pk_ok key (sql_replace key r rows)"
  unfolding sql_replace_def by (rule pk_ok_map) simp_all

lemma pk_ok_delete [pk]: "pk_ok key rows \<Longrightarrow> pk_ok key (sql_delete key k rows)"
  by (auto simp: pk_ok_def sql_delete_def sorted_filter distinct_map_filter)

lemma set_sql_insert: "sql_insert key r rows = Some rows' \<Longrightarrow> set rows' = insert r (set rows)"
  by (auto simp: sql_insert_def set_insort_key split: if_splits)

lemma sql_replace_mem: "key r \<in> key ` set rows \<Longrightarrow> r \<in> set (sql_replace key r rows)"
  by (auto simp: sql_replace_def image_iff)

text \<open>With the key in order, a key names one row.\<close>

lemma pk_unique: "pk_ok key rows \<Longrightarrow> r \<in> set rows \<Longrightarrow> q \<in> set rows \<Longrightarrow> key q = key r \<longleftrightarrow> q = r"
  by (auto simp: pk_ok_def distinct_map inj_on_def)

end
