(* ===== verification/ProxyPool.thy ===== *)
theory ProxyPool
  imports GoText SqlTable "HOL-Library.Sublist"
begin

text \<open>
  Package \<open>proxyPool\<close> (\<^verbatim>\<open>src/proxyPool/ProxyInfo.go\<close>, \<^verbatim>\<open>src/proxyPool/proxy.go\<close>): the proxies in the
  SQLite table \<open>ProxyPool\<close>, their periodic check, and the pool that one client host uses.

  The table is the list of its rows in the order of the primary key; \<open>st_fail\<close> makes every statement
  fail with that error. Connecting through a proxy is the argument \<open>probe\<close>: for the URL of a proxy
  the error and the clock before and after.
\<close>

record ProxyInfo =
  p_Port :: int
  p_Scheme :: int
  p_Au :: string
  p_IpInt :: int
  p_Url :: string
  p_Order :: int

definition new_ProxyInfo :: ProxyInfo where
  "new_ProxyInfo = \<lparr>p_Port = 0, p_Scheme = 0, p_Au = [], p_IpInt = 0, p_Url = [], p_Order = 0\<rparr>"

definition SCHEME :: "string list" where
  "SCHEME = [''socks5'', ''socks4'', ''socks4a'', ''https'', ''http'', ''socks'']"

record db_row =
  d_Ip :: int
  d_Port :: int
  d_Scheme :: int
  d_Au :: string
  d_Ord :: int
  d_Time :: int

record store =
  st_table :: "db_row list option"
  st_fail :: "go_error option"
  st_time :: int

subsection \<open>ProxyInfo.go\<close>

text \<open>Fields that are set before an error stay set.\<close>

definition ProxyInfo_Init :: "string \<Rightarrow> string \<Rightarrow> int \<Rightarrow> ProxyInfo \<Rightarrow> go_error option \<times> ProxyInfo" where
  "ProxyInfo_Init hostPort au scheme self = (case SplitHostPort hostPort of
       Inl err \<Rightarrow> (Some err, self)
     | Inr (host, port) \<Rightarrow> (case Atoi port of
         (n, Some e) \<Rightarrow> (Some (ErrMsg ''strconv.Atoi''), self\<lparr>p_Port := n\<rparr>)
       | (n, None) \<Rightarrow>
           if n < 0 \<or> 65535 < n then (Some (ErrMsg (''port is '' @ Itoa n @ '',err'')), self\<lparr>p_Port := n\<rparr>)
           else (None, self\<lparr>p_Port := n, p_Au := au, p_IpInt := StringIpToInt host, p_Scheme := scheme\<rparr>)))"

definition ProxyInfo_String :: "ProxyInfo \<Rightarrow> (string \<times> ProxyInfo) go" where
  "ProxyInfo_String self =
     (if p_Url self = [] then do {
        s \<leftarrow> idx SCHEME (p_Scheme self);
        let u = s @ ''://'' @ p_Au self @ IpIntToString (p_IpInt self) @ '':'' @ Itoa (p_Port self);
        Some (u, self\<lparr>p_Url := u\<rparr>) }
      else Some (p_Url self, self))"

text \<open>The primary key \<open>self.IpInt<<8 | self.Port\<close>.\<close>

definition proxy_key :: "ProxyInfo \<Rightarrow> int" where
  "proxy_key self = go_shl (p_IpInt self) 8 OR p_Port self"

type_synonym probe = "string \<Rightarrow> go_error option \<times> int \<times> int"

text \<open>The loop over the six schemes: it stops at the first that connects.\<close>

fun check_schemes :: "probe \<Rightarrow> int list \<Rightarrow> go_error option \<Rightarrow> ProxyInfo \<Rightarrow> (go_error option \<times> ProxyInfo) go" where
  "check_schemes probe [] err self = Some (err, self)"
| "check_schemes probe (i # is) err self = do {
     (u, self) \<leftarrow> ProxyInfo_String (self\<lparr>p_Scheme := i\<rparr>);
     (case probe u of (err, t0, t1) \<Rightarrow>
        let self = self\<lparr>p_Order := t0, p_Url := []\<rparr> in
        if err = None then Some (None, self\<lparr>p_Order := t1 - t0\<rparr>)
        else check_schemes probe is err self) }"

definition ProxyInfo_Check :: "probe \<Rightarrow> ProxyInfo \<Rightarrow> (go_error option \<times> ProxyInfo) go" where
  "ProxyInfo_Check probe self =
     (if 0 \<le> p_Scheme self \<and> p_Scheme self < 6 then do {
        (u, self) \<leftarrow> ProxyInfo_String self;
        Some (case probe u of
            (Some err, t0, t1) \<Rightarrow> (Some err, self\<lparr>p_Order := t0\<rparr>)
          | (None, t0, t1) \<Rightarrow> (None, self\<lparr>p_Order := t1 - t0\<rparr>)) }
      else do {
        (err, self) \<leftarrow> check_schemes probe [0..5] None self;
        Some (case err of Some e \<Rightarrow> (Some e, self\<lparr>p_Order := 0\<rparr>) | None \<Rightarrow> (None, self)) })"

text \<open>\<open>log.Fatal\<close> ends the process.\<close>

definition CreateDB :: "store \<Rightarrow> store go" where
  "CreateDB st = (if st_fail st \<noteq> None \<or> st_table st \<noteq> None then None else Some (st\<lparr>st_table := Some []\<rparr>))"

definition row_of :: "ProxyInfo \<Rightarrow> int \<Rightarrow> db_row" where
  "row_of self t = \<lparr>d_Ip = proxy_key self, d_Port = p_Port self, d_Scheme = p_Scheme self, d_Au = p_Au self,
     d_Ord = p_Order self, d_Time = t\<rparr>"

text \<open>\<open>ErrEnv 2\<close> is the error of \<open>os.Stat\<close> for a file that does not exist.\<close>

definition SaveDB :: "ProxyInfo \<Rightarrow> store \<Rightarrow> (go_error option \<times> store) go" where
  "SaveDB self st = (case st_table st of
       None \<Rightarrow> do { st \<leftarrow> CreateDB st; Some (Some (ErrEnv 2), st) }
     | Some rows \<Rightarrow> (case st_fail st of
         Some err \<Rightarrow> Some (Some err, st)
       | None \<Rightarrow>
           Some (None, st\<lparr>st_table := Some (case sql_insert d_Ip (row_of self (st_time st)) rows of
               Some rows \<Rightarrow> rows
             | None \<Rightarrow> sql_replace d_Ip (row_of self (st_time st)) rows)\<rparr>)))"

text \<open>The package deletes only proxies that it has listed before, so the file exists by then.\<close>

definition DeleteDB :: "ProxyInfo \<Rightarrow> store \<Rightarrow> go_error option \<times> store" where
  "DeleteDB self st = (case st_table st of
       None \<Rightarrow> (Some (ErrMsg ''no such table: ProxyPool''), st)
     | Some rows \<Rightarrow> (case st_fail st of
         Some err \<Rightarrow> (Some err, st)
       | None \<Rightarrow> (None, st\<lparr>st_table := Some (sql_delete d_Ip (proxy_key self) rows)\<rparr>)))"

definition info_of_row :: "db_row \<Rightarrow> ProxyInfo" where
  "info_of_row r = new_ProxyInfo\<lparr>p_IpInt := drop_bit 8 (d_Ip r), p_Port := d_Port r, p_Scheme := d_Scheme r, p_Au := d_Au r\<rparr>"

definition GetProxyList :: "bool \<Rightarrow> store \<Rightarrow> ((go_error + ProxyInfo list) \<times> store) go" where
  "GetProxyList isAll st = (case st_table st of
       None \<Rightarrow> do { st \<leftarrow> CreateDB st; Some (Inl (ErrEnv 2), st) }
     | Some rows \<Rightarrow> Some (case st_fail st of
         Some err \<Rightarrow> (Inl err, st)
       | None \<Rightarrow> (Inr (map info_of_row
           (if isAll then filter (\<lambda>r. d_Ord r = 0) rows
            else sort_key d_Ord (filter (\<lambda>r. d_Ord r \<noteq> 0) rows))), st)))"

text \<open>The body of the loop of \<open>CheckDB\<close>: the test compares the error of the last database operation with
  that of the check, which are different values unless both are \<open>nil\<close>.\<close>

definition check_one :: "probe \<Rightarrow> go_error option \<times> store \<Rightarrow> ProxyInfo \<Rightarrow> (go_error option \<times> store) go" where
  "check_one probe s pr = do {
     (chk, pr) \<leftarrow> ProxyInfo_Check probe pr;
     if fst s \<noteq> chk then Some (DeleteDB pr (snd s)) else SaveDB pr (snd s) }"

definition CheckDB :: "probe \<Rightarrow> store \<Rightarrow> store go" where
  "CheckDB probe st = do {
     (res, st) \<leftarrow> GetProxyList True st;
     (case res of
        Inl err \<Rightarrow> Some st
      | Inr list \<Rightarrow> map_option snd (foldM (check_one probe) (None, st) list)) }"

subsection \<open>proxy.go\<close>

record ProxyPool =
  pp_ProxyList :: "ProxyInfo list"

fun remove_ip :: "int \<Rightarrow> ProxyInfo list \<Rightarrow> ProxyInfo list" where
  "remove_ip ip [] = []"
| "remove_ip ip (tp # list) = (if p_IpInt tp = ip then list else tp # remove_ip ip list)"

definition LoadProxyList :: "ProxyInfo list \<Rightarrow> ProxyPool \<Rightarrow> store \<Rightarrow> (ProxyPool \<times> store) go" where
  "LoadProxyList BeingUsed self st = do {
     (res, st) \<leftarrow> GetProxyList False st;
     Some (case res of
         Inl err \<Rightarrow> (self, st)
       | Inr list \<Rightarrow>
           (self\<lparr>pp_ProxyList := pp_ProxyList self @ BeingUsed @ foldl (\<lambda>l p. remove_ip (p_IpInt p) l) list BeingUsed\<rparr>, st)) }"

text \<open>The proxy that is dropped is saved in the background, unless it was the last one.\<close>

definition ProxyPool_Replace :: "ProxyPool \<Rightarrow> store \<Rightarrow> (ProxyPool \<times> store \<times> ProxyInfo option) go" where
  "ProxyPool_Replace self st = (case pp_ProxyList self of
       [] \<Rightarrow> do { (self, st) \<leftarrow> LoadProxyList [] self st; Some (self, st, None) }
     | tmp # rest \<Rightarrow>
         (let self = self\<lparr>pp_ProxyList := rest\<rparr> in
          if rest = [] then do { (self, st) \<leftarrow> LoadProxyList [] self st; Some (self, st, None) }
          else Some (self, st, Some tmp)))"

text \<open>The URL of the proxy that \<open>GetConn\<close> connects through.\<close>

definition ProxyPool_GetConn :: "ProxyPool \<Rightarrow> ((go_error + string) \<times> ProxyPool) go" where
  "ProxyPool_GetConn self = (case pp_ProxyList self of
       [] \<Rightarrow> Some (Inl (ErrMsg ''Found Not Proxy''), self)
     | p # ps \<Rightarrow> do {
         (u, p) \<leftarrow> ProxyInfo_String p;
         Some (Inr u, self\<lparr>pp_ProxyList := p # ps\<rparr>) })"

subsection \<open>The primary key\<close>

text \<open>
  The table in use: its keys are sorted and distinct, and every row is found again under the key
  that its own address and port give.
\<close>

definition row_ok :: "db_row \<Rightarrow> bool" where
  "row_ok r \<longleftrightarrow> proxy_key (info_of_row r) = d_Ip r \<and> in_int64 (d_Port r)"

definition rows_ok :: "db_row list \<Rightarrow> bool" where
  "rows_ok rows \<longleftrightarrow> pk_ok d_Ip rows \<and> list_all row_ok rows"

definition store_ok :: "store \<Rightarrow> bool" where
  "store_ok st \<longleftrightarrow> (case st_table st of None \<Rightarrow> True | Some rows \<Rightarrow> rows_ok rows)"

lemma go_shl_8: "go_shl x 8 = signed_take_bit 63 (push_bit 8 x)"
  by (simp add: go_shl_def wrap64_def)

lemma key_again:
  assumes "in_int64 port"
  shows "go_shl (drop_bit 8 (go_shl ip 8 OR port)) 8 OR port = go_shl ip 8 OR port"
proof (rule bit_eqI)
  fix n
  have high: "bit port n = bit port 63" if "63 < n"
    using assms that bit_signed_take_bit_iff [of 63 port n]
    by (simp add: in_int64_def signed_take_bit_int_eq_self)
  show "bit (go_shl (drop_bit 8 (go_shl ip 8 OR port)) 8 OR port) n = bit (go_shl ip 8 OR port) n"
  proof (cases "63 < n")
    case True
    then show ?thesis using high by (simp add: go_shl_8 bit_simps min_def)
  next
    case False
    then have "n < 63 \<or> n = 63" by auto
    then show ?thesis by (auto simp: go_shl_8 bit_simps min_def)
  qed
qed

lemma row_ok_row_of: "in_int64 (p_Port self) \<Longrightarrow> row_ok (row_of self t)"
  by (simp add: row_ok_def row_of_def info_of_row_def proxy_key_def new_ProxyInfo_def key_again del: drop_bit_or)

lemma row_of_sel [simp]: "d_Ip (row_of self t) = proxy_key self" "d_Ord (row_of self t) = p_Order self"
  by (simp_all add: row_of_def)

lemma info_of_row_of: "info_of_row (row_of self t) =
    \<lparr>p_Port = p_Port self, p_Scheme = p_Scheme self, p_Au = p_Au self,
     p_IpInt = drop_bit 8 (proxy_key self), p_Url = [], p_Order = 0\<rparr>"
  by (simp add: info_of_row_def row_of_def new_ProxyInfo_def)

text \<open>For an address and a port in their ranges the upper half of the port ends up in the address.\<close>

lemma key_overlap:
  assumes "0 \<le> p_IpInt self" "p_IpInt self < 2 ^ 32" "0 \<le> p_Port self" "p_Port self \<le> 65535"
  shows "drop_bit 8 (proxy_key self) = p_IpInt self OR p_Port self div 256"
proof -
  have "signed_take_bit 63 (push_bit 8 (p_IpInt self)) = push_bit 8 (p_IpInt self)"
    using assms by (simp add: signed_take_bit_int_eq_self push_bit_eq_mult)
  then have "drop_bit 8 (proxy_key self) = p_IpInt self OR drop_bit 8 (p_Port self)"
    by (simp add: proxy_key_def go_shl_8 drop_bit_push_bit)
  then show ?thesis by (simp add: drop_bit_eq_div)
qed

subsection \<open>The table\<close>

lemma rows_ok_insert: "rows_ok rows \<Longrightarrow> row_ok r \<Longrightarrow> sql_insert d_Ip r rows = Some rows' \<Longrightarrow> rows_ok rows'"
  using set_sql_insert [of d_Ip r rows rows'] by (auto simp: rows_ok_def list_all_iff pk)

lemma rows_ok_replace: "rows_ok rows \<Longrightarrow> row_ok r \<Longrightarrow> rows_ok (sql_replace d_Ip r rows)"
  by (auto simp: rows_ok_def list_all_iff pk) (auto simp: sql_replace_def)

lemma rows_ok_delete: "rows_ok rows \<Longrightarrow> rows_ok (sql_delete d_Ip k rows)"
  by (auto simp: rows_ok_def list_all_iff pk) (auto simp: sql_delete_def)

lemma SaveDB_ok:
  assumes "store_ok st" "in_int64 (p_Port self)" "SaveDB self st = Some (err, st')"
  shows "store_ok st'"
  using assms
  by (auto simp: SaveDB_def CreateDB_def store_ok_def rows_ok_def [of "[]"] rows_ok_replace row_ok_row_of
      split: option.splits if_splits bind_splits intro: rows_ok_insert [OF _ row_ok_row_of])

lemma DeleteDB_ok: "store_ok st \<Longrightarrow> store_ok (snd (DeleteDB self st))"
  by (auto simp: DeleteDB_def store_ok_def rows_ok_delete split: option.split)

lemma GetProxyList_ok: "store_ok st \<Longrightarrow> GetProxyList isAll st = Some (res, st') \<Longrightarrow> store_ok st'"
  by (auto simp: GetProxyList_def CreateDB_def store_ok_def rows_ok_def
      split: option.splits if_splits bind_splits)

subsection \<open>The periodic check\<close>

lemma ProxyInfo_String_returns:
  assumes "0 \<le> p_Scheme self" "p_Scheme self < 6"
  obtains u where "ProxyInfo_String self = Some (u, self\<lparr>p_Url := u\<rparr>)"
proof (cases "p_Url self = []")
  case True
  have "p_Scheme self < int (length SCHEME)" using assms by (simp add: SCHEME_def)
  then obtain s where "idx SCHEME (p_Scheme self) = Some s"
    using assms by (simp add: idx_def)
  with True show thesis by (intro that) (simp add: ProxyInfo_String_def Let_def)
next
  case False
  then show thesis by (intro that [of "p_Url self"]) (simp add: ProxyInfo_String_def)
qed

text \<open>Checking always returns, and changes neither the address nor the port.\<close>

definition same_proxy :: "ProxyInfo \<Rightarrow> ProxyInfo \<Rightarrow> bool" where
  "same_proxy p q \<longleftrightarrow> p_IpInt p = p_IpInt q \<and> p_Port p = p_Port q \<and> p_Au p = p_Au q"

lemma check_schemes_returns:
  "set is \<subseteq> {0..5} \<Longrightarrow> \<exists>e pr. check_schemes probe is err self = Some (e, pr) \<and> same_proxy pr self"
proof (induction "is" arbitrary: err self)
  case Nil
  then show ?case by (simp add: same_proxy_def)
next
  case (Cons i "is")
  obtain u where u: "ProxyInfo_String (self\<lparr>p_Scheme := i\<rparr>) = Some (u, self\<lparr>p_Scheme := i, p_Url := u\<rparr>)"
    using Cons.prems by (auto intro: ProxyInfo_String_returns [of "self\<lparr>p_Scheme := i\<rparr>"])
  obtain e t0 t1 where "probe u = (e, t0, t1)" by (cases "probe u") auto
  then show ?case
    using Cons.IH [of e "self\<lparr>p_Scheme := i, p_Order := t0, p_Url := []\<rparr>"] Cons.prems u
    by (auto simp: Let_def same_proxy_def)
qed

lemma ProxyInfo_Check_returns:
  obtains e pr where "ProxyInfo_Check probe self = Some (e, pr)" "same_proxy pr self"
proof (cases "0 \<le> p_Scheme self \<and> p_Scheme self < 6")
  case True
  then obtain u where u: "ProxyInfo_String self = Some (u, self\<lparr>p_Url := u\<rparr>)"
    by (auto intro: ProxyInfo_String_returns)
  obtain e t0 t1 where "probe u = (e, t0, t1)" by (cases "probe u") auto
  then show thesis using True u that
    by (cases e) (auto simp: ProxyInfo_Check_def same_proxy_def)
next
  case False
  obtain e pr where "check_schemes probe [0..5] None self = Some (e, pr)" "same_proxy pr self"
    using check_schemes_returns [of "[0..5]" probe None self] by auto
  then show thesis using False that
    by (cases e) (auto simp: ProxyInfo_Check_def same_proxy_def)
qed

text \<open>What the check makes of one row.\<close>

definition checked_row :: "probe \<Rightarrow> int \<Rightarrow> db_row \<Rightarrow> db_row list" where
  "checked_row probe t r = (if d_Ord r \<noteq> 0 then [r]
     else (case ProxyInfo_Check probe (info_of_row r) of Some (None, pr) \<Rightarrow> [row_of pr t] | _ \<Rightarrow> []))"

lemma checked_row_key:
  assumes "row_ok r" "ProxyInfo_Check probe (info_of_row r) = Some (e, pr)"
  shows "proxy_key pr = d_Ip r"
proof -
  obtain e' pr' where "ProxyInfo_Check probe (info_of_row r) = Some (e', pr')" "same_proxy pr' (info_of_row r)"
    by (rule ProxyInfo_Check_returns)
  with assms show ?thesis by (simp add: row_ok_def same_proxy_def proxy_key_def)
qed

lemma checked_row_cases:
  assumes "row_ok r" "d_Ord r = 0"
  obtains e pr where "ProxyInfo_Check probe (info_of_row r) = Some (Some e, pr)" "proxy_key pr = d_Ip r"
      "checked_row probe t r = []"
    | pr where "ProxyInfo_Check probe (info_of_row r) = Some (None, pr)" "proxy_key pr = d_Ip r"
      "checked_row probe t r = [row_of pr t]"
proof -
  obtain e pr where c: "ProxyInfo_Check probe (info_of_row r) = Some (e, pr)" by (rule ProxyInfo_Check_returns)
  then have "proxy_key pr = d_Ip r" using assms(1) by (rule checked_row_key [rotated])
  with c assms(2) that show thesis by (cases e) (simp_all add: checked_row_def)
qed

lemma checked_row_keys: "row_ok r \<Longrightarrow> x \<in> set (checked_row probe t r) \<Longrightarrow> d_Ip x = d_Ip r"
  by (cases "d_Ord r = 0") (auto elim: checked_row_cases [of r probe t] simp: checked_row_def)

definition checked :: "probe \<Rightarrow> int \<Rightarrow> db_row list \<Rightarrow> db_row list" where
  "checked probe t rows = concat (map (checked_row probe t) rows)"

lemma checked_keys: "list_all row_ok rows \<Longrightarrow> x \<in> set (checked probe t rows) \<Longrightarrow> d_Ip x \<in> d_Ip ` set rows"
  by (auto simp: checked_def list_all_iff dest!: checked_row_keys)

lemma check_one_row:
  assumes "st_fail st = None" "row_ok r" "d_Ord r = 0" "d_Ip r \<notin> d_Ip ` set xs" "d_Ip r \<notin> d_Ip ` set ys"
  shows "check_one probe (None, st\<lparr>st_table := Some (xs @ r # ys)\<rparr>) (info_of_row r) =
    Some (None, st\<lparr>st_table := Some (xs @ checked_row probe (st_time st) r @ ys)\<rparr>)"
proof -
  have keep: "filter (\<lambda>x. d_Ip x \<noteq> d_Ip r) zs = zs" "map (\<lambda>x. if d_Ip x = d_Ip r then v else x) zs = zs"
    if "d_Ip r \<notin> d_Ip ` set zs" for zs v
    using that by (auto simp: image_iff intro!: filter_True map_idI)
  from assms(2,3) show ?thesis
    by (cases rule: checked_row_cases [of r probe "st_time st"])
      (use assms in \<open>simp_all add: check_one_def DeleteDB_def SaveDB_def sql_insert_def sql_replace_def sql_delete_def keep\<close>)
qed

lemma check_rows:
  assumes "st_fail st = None" "distinct (map d_Ip (done @ rest))" "list_all row_ok (done @ rest)"
  shows "foldM (check_one probe) (None, st\<lparr>st_table := Some (checked probe (st_time st) done @ rest)\<rparr>)
      (map info_of_row (filter (\<lambda>r. d_Ord r = 0) rest)) =
    Some (None, st\<lparr>st_table := Some (checked probe (st_time st) (done @ rest))\<rparr>)"
  using assms(2,3)
proof (induction rest arbitrary: "done")
  case Nil
  then show ?case by simp
next
  case (Cons r rest)
  have "d_Ip r \<notin> d_Ip ` set (checked probe (st_time st) done)" and "d_Ip r \<notin> d_Ip ` set rest"
    using Cons.prems by (auto dest: checked_keys)
  then have step: "d_Ord r = 0 \<Longrightarrow>
      check_one probe (None, st\<lparr>st_table := Some (checked probe (st_time st) done @ r # rest)\<rparr>) (info_of_row r) =
      Some (None, st\<lparr>st_table := Some (checked probe (st_time st) (done @ [r]) @ rest)\<rparr>)"
    using check_one_row [of st r "checked probe (st_time st) done" rest probe] assms(1) Cons.prems
    by (simp add: checked_def)
  moreover have "d_Ord r \<noteq> 0 \<Longrightarrow> checked probe (st_time st) (done @ [r]) @ rest = checked probe (st_time st) done @ r # rest"
    by (simp add: checked_def checked_row_def)
  moreover have IH: "foldM (check_one probe) (None, st\<lparr>st_table := Some (checked probe (st_time st) (done @ [r]) @ rest)\<rparr>)
      (map info_of_row (filter (\<lambda>r. d_Ord r = 0) rest)) =
    Some (None, st\<lparr>st_table := Some (checked probe (st_time st) (done @ r # rest))\<rparr>)"
    using Cons.IH [of "done @ [r]"] Cons.prems by simp
  ultimately show ?case by (cases "d_Ord r = 0") simp_all
qed

lemma CheckDB_checked:
  assumes "st_fail st = None" "st_table st = Some rows" "store_ok st"
  shows "CheckDB probe st = Some (st\<lparr>st_table := Some (checked probe (st_time st) rows)\<rparr>)"
proof -
  have st: "st\<lparr>st_table := Some rows\<rparr> = st" using assms(2) by (cases st) simp
  have "rows_ok rows" using assms by (simp add: store_ok_def)
  then have "foldM (check_one probe) (None, st) (map info_of_row (filter (\<lambda>r. d_Ord r = 0) rows)) =
      Some (None, st\<lparr>st_table := Some (checked probe (st_time st) rows)\<rparr>)"
    using assms check_rows [of st "[]" rows probe] by (simp add: rows_ok_def pk_ok_def checked_def st)
  then show ?thesis using assms by (simp add: CheckDB_def GetProxyList_def)
qed

lemma checked_row_ok: "row_ok r \<Longrightarrow> list_all row_ok (checked_row probe t r)"
proof (cases "d_Ord r = 0")
  case True
  assume r: "row_ok r"
  obtain e pr where c: "ProxyInfo_Check probe (info_of_row r) = Some (e, pr)" "same_proxy pr (info_of_row r)"
    by (rule ProxyInfo_Check_returns)
  then have "in_int64 (p_Port pr)" using r by (simp add: row_ok_def same_proxy_def info_of_row_def new_ProxyInfo_def)
  with True c show ?thesis by (cases e) (simp_all add: checked_row_def row_ok_row_of)
qed (simp add: checked_row_def)

lemma rows_ok_Cons: "rows_ok (r # rows) \<longleftrightarrow> row_ok r \<and> rows_ok rows \<and> (\<forall>x \<in> set rows. d_Ip r < d_Ip x)"
  by (auto simp: rows_ok_def pk_ok_Cons)

lemma rows_ok_checked: "rows_ok rows \<Longrightarrow> rows_ok (checked probe t rows)"
proof (induction rows)
  case Nil
  then show ?case by (simp add: checked_def)
next
  case (Cons r rows)
  then have ok: "row_ok r" "rows_ok (checked probe t rows)" "list_all row_ok rows"
    by (simp_all add: rows_ok_Cons) (simp add: rows_ok_def)
  have less: "d_Ip r < d_Ip x" if "x \<in> set (checked probe t rows)" for x
    using checked_keys [OF ok(3) that] Cons.prems by (auto simp: rows_ok_Cons)
  have "checked probe t (r # rows) = checked_row probe t r @ checked probe t rows" by (simp add: checked_def)
  moreover have "checked_row probe t r = [] \<or> (\<exists>x. checked_row probe t r = [x] \<and> d_Ip x = d_Ip r)"
    using ok(1) by (cases "d_Ord r = 0") (auto elim: checked_row_cases [of r probe t] simp: checked_row_def)
  ultimately show ?case
    using ok(2) less checked_row_ok [OF ok(1), of probe t] by (auto simp: rows_ok_Cons)
qed

lemma CheckDB_unchanged:
  "st_fail st \<noteq> None \<Longrightarrow> CheckDB probe st = Some st' \<Longrightarrow> st' = st"
  "st_fail st = None \<Longrightarrow> st_table st = None \<Longrightarrow> CheckDB probe st = Some st' \<Longrightarrow> st' = st\<lparr>st_table := Some []\<rparr>"
  by (auto simp: CheckDB_def GetProxyList_def CreateDB_def split: option.splits bind_splits if_splits)

lemma CheckDB_ok:
  assumes "store_ok st" "CheckDB probe st = Some st'"
  shows "store_ok st'"
proof -
  consider "st_fail st \<noteq> None" | "st_fail st = None" "st_table st = None"
    | rows where "st_fail st = None" "st_table st = Some rows" by blast
  then show ?thesis
  proof cases
    case 1
    with assms have "st' = st" by (intro CheckDB_unchanged(1))
    with assms show ?thesis by simp
  next
    case 2
    with assms have "st' = st\<lparr>st_table := Some []\<rparr>" by (simp add: CheckDB_unchanged(2))
    then show ?thesis by (simp add: store_ok_def rows_ok_def)
  next
    case 3
    with assms show ?thesis by (auto simp: CheckDB_checked store_ok_def rows_ok_checked)
  qed
qed

text \<open>
  The states of the table: it starts missing, the operations of the package run in any order, and the
  environment may let the database fail or recover and moves the clock.
\<close>

inductive db_reachable :: "store \<Rightarrow> bool" where
  db_missing: "db_reachable \<lparr>st_table = None, st_fail = f, st_time = t\<rparr>"
| db_env: "db_reachable st \<Longrightarrow> db_reachable (st\<lparr>st_fail := f, st_time := t\<rparr>)"
| db_save: "db_reachable st \<Longrightarrow> in_int64 (p_Port pr) \<Longrightarrow> SaveDB pr st = Some (err, st') \<Longrightarrow> db_reachable st'"
| db_delete: "db_reachable st \<Longrightarrow> DeleteDB pr st = (err, st') \<Longrightarrow> db_reachable st'"
| db_list: "db_reachable st \<Longrightarrow> GetProxyList isAll st = Some (res, st') \<Longrightarrow> db_reachable st'"
| db_check: "db_reachable st \<Longrightarrow> CheckDB probe st = Some st' \<Longrightarrow> db_reachable st'"

lemma store_ok_env [simp]: "store_ok (st\<lparr>st_fail := f, st_time := t\<rparr>) = store_ok st"
  by (simp add: store_ok_def)

lemma reachable_store_ok: "db_reachable st \<Longrightarrow> store_ok st"
proof (induction rule: db_reachable.induct)
  case (db_missing f t)
  then show ?case by (simp add: store_ok_def)
next
  case (db_delete st pr err st')
  then show ?case using DeleteDB_ok [of st pr] by simp
qed (auto intro: SaveDB_ok GetProxyList_ok CheckDB_ok)

text \<open>
  C13. In every state that saving, deleting, listing and checking can reach, in any order and with the
  database failing at any time, the keys of the table are strictly ascending, and every row is stored
  under the key that its listed proxy has, so that deleting or saving a listed proxy hits its own row.
\<close>

theorem proxy_table_invariant:
  assumes "db_reachable st" "st_table st = Some rows"
  shows "sorted_wrt (<) (map d_Ip rows) \<and> (\<forall>r \<in> set rows. proxy_key (info_of_row r) = d_Ip r)"
proof -
  have "rows_ok rows" using reachable_store_ok [OF assms(1)] assms(2) by (simp add: store_ok_def)
  then show ?thesis by (simp add: rows_ok_def pk_ok_strict list_all_iff row_ok_def)
qed

text \<open>
  C22. The periodic check keeps exactly the working proxies: on a usable table it always returns, rows that
  already have a measured delay are untouched, and a row without one is replaced by the proxy with
  its measured delay if a connection through it succeeds and removed otherwise. The order of the
  rows and the primary keys are kept.
\<close>

theorem CheckDB_keeps_working:
  assumes "st_fail st = None" "st_table st = Some rows" "store_ok st"
  shows "CheckDB probe st = Some (st\<lparr>st_table := Some (concat (map (\<lambda>r.
      if d_Ord r \<noteq> 0 then [r]
      else (case ProxyInfo_Check probe (info_of_row r) of
          Some (None, pr) \<Rightarrow> [row_of pr (st_time st)] | _ \<Rightarrow> [])) rows))\<rparr>)"
proof -
  have "CheckDB probe st = Some (st\<lparr>st_table := Some (checked probe (st_time st) rows)\<rparr>)"
    using assms by (rule CheckDB_checked)
  then show ?thesis unfolding checked_def checked_row_def .
qed

definition demo_row :: "int \<Rightarrow> int \<Rightarrow> db_row" where
  "demo_row ord port = row_of \<lparr>p_Port = port, p_Scheme = 0, p_Au = [], p_IpInt = 167772161, p_Url = [], p_Order = ord\<rparr> 0"

definition demo_store :: store where
  "demo_store = \<lparr>st_table = Some [demo_row 0 80, demo_row 0 81, demo_row 5 82], st_fail = None, st_time = 9\<rparr>"

definition demo_probe :: probe where
  "demo_probe u = (if u = ''socks5://10.0.0.1:80'' then (None, 100, 107) else (Some (ErrEnv 1), 100, 100))"

text \<open>Of three rows of 10.0.0.1 the one on port 80 works, the one on port 81 does not, port 82 is already measured.\<close>

lemma demo_store_ok: "store_ok demo_store"
  by (simp add: demo_store_def demo_row_def store_ok_def rows_ok_def row_ok_row_of in_int64_def) code_simp

theorem CheckDB_keeps_working_witness:
  "CheckDB demo_probe demo_store =
     Some (demo_store\<lparr>st_table := Some [(demo_row 7 80)\<lparr>d_Time := 9\<rparr>, demo_row 5 82]\<rparr>)"
proof -
  have "concat (map (\<lambda>r. if d_Ord r \<noteq> 0 then [r]
      else (case ProxyInfo_Check demo_probe (info_of_row r) of
          Some (None, pr) \<Rightarrow> [row_of pr (st_time demo_store)] | _ \<Rightarrow> [])) [demo_row 0 80, demo_row 0 81, demo_row 5 82]) =
      [(demo_row 7 80)\<lparr>d_Time := 9\<rparr>, demo_row 5 82]" by code_simp
  then show ?thesis
    using CheckDB_keeps_working [of demo_store "[demo_row 0 80, demo_row 0 81, demo_row 5 82]" demo_probe] demo_store_ok
    by (simp add: demo_store_def)
qed

text \<open>
  C40. A saved proxy is listed under a wrong address: the key is \<open>IpInt<<8 | Port\<close>, but a port has 16 bits,
  so after saving a measured proxy the list holds it with the upper byte of its port merged into the
  address. The address is right exactly when that byte adds no bit to it.
\<close>

theorem saved_proxy_listed:
  assumes "st_fail st = None" "st_table st \<noteq> None" "p_Order self \<noteq> 0"
    and "0 \<le> p_IpInt self" "p_IpInt self < 2 ^ 32" "0 \<le> p_Port self" "p_Port self \<le> 65535"
  shows "\<exists>st' list. SaveDB self st = Some (None, st') \<and> GetProxyList False st' = Some (Inr list, st') \<and>
    self\<lparr>p_IpInt := p_IpInt self OR p_Port self div 256, p_Url := [], p_Order := 0\<rparr> \<in> set list"
proof -
  obtain rows where rows: "st_table st = Some rows" using assms by blast
  let ?r = "row_of self (st_time st)"
  define rows' where "rows' = (case sql_insert d_Ip ?r rows of Some rows \<Rightarrow> rows | None \<Rightarrow> sql_replace d_Ip ?r rows)"
  have "?r \<in> set rows'"
    using sql_replace_mem [of d_Ip ?r rows] by (auto simp: rows'_def sql_insert_def set_insort_key)
  moreover have "SaveDB self st = Some (None, st\<lparr>st_table := Some rows'\<rparr>)"
    using assms rows by (simp add: SaveDB_def rows'_def)
  moreover have "info_of_row (row_of self (st_time st)) =
      self\<lparr>p_IpInt := p_IpInt self OR p_Port self div 256, p_Url := [], p_Order := 0\<rparr>"
    using key_overlap [OF assms(4-7)] by (simp add: info_of_row_of)
  ultimately show ?thesis using assms by (force simp: GetProxyList_def)
qed

definition demo_info :: ProxyInfo where
  "demo_info = \<lparr>p_Port = 8080, p_Scheme = 0, p_Au = [], p_IpInt = 167772161, p_Url = [], p_Order = 7\<rparr>"

text \<open>10.0.0.1:8080 comes back as 10.0.0.31:8080, and shares its key with the proxy of that address.\<close>

theorem saved_proxy_listed_witness:
  "(\<exists>st' list. SaveDB demo_info demo_store = Some (None, st') \<and> GetProxyList False st' = Some (Inr list, st') \<and>
     demo_info\<lparr>p_IpInt := 167772191, p_Order := 0\<rparr> \<in> set list) \<and>
   IpIntToString (p_IpInt demo_info) = ''10.0.0.1'' \<and> IpIntToString 167772191 = ''10.0.0.31'' \<and>
   proxy_key demo_info = proxy_key (demo_info\<lparr>p_IpInt := 167772191\<rparr>)"
proof -
  have "IpIntToString (p_IpInt demo_info) = ''10.0.0.1'' \<and> IpIntToString 167772191 = ''10.0.0.31'' \<and>
   proxy_key demo_info = proxy_key (demo_info\<lparr>p_IpInt := 167772191\<rparr>)" by code_simp
  moreover have "(167772161 :: int) OR 31 = 167772191" by code_simp
  ultimately show ?thesis using saved_proxy_listed [of demo_store demo_info] by (simp add: demo_store_def demo_info_def)
qed

theorem proxy_table_invariant_witness:
  "sorted_wrt (<) (map d_Ip [row_of demo_info 3]) \<and> proxy_key (info_of_row (row_of demo_info 3)) = d_Ip (row_of demo_info 3)"
proof -
  let ?st = "\<lparr>st_table = None, st_fail = None, st_time = 3\<rparr>"
  have "SaveDB demo_info ?st = Some (Some (ErrEnv 2), ?st\<lparr>st_table := Some []\<rparr>)"
    "SaveDB demo_info (?st\<lparr>st_table := Some []\<rparr>) = Some (None, ?st\<lparr>st_table := Some [row_of demo_info 3]\<rparr>)"
    by (simp_all add: SaveDB_def CreateDB_def sql_insert_def)
  moreover have "in_int64 (p_Port demo_info)" by (simp add: demo_info_def in_int64_def)
  ultimately have "db_reachable (?st\<lparr>st_table := Some [row_of demo_info 3]\<rparr>)"
    by (meson db_missing db_save)
  then show ?thesis using proxy_table_invariant [of "?st\<lparr>st_table := Some [row_of demo_info 3]\<rparr>"] by simp
qed

subsection \<open>Loading the list of a pool\<close>

lemma remove_ips:
  "\<exists>rest. foldl (\<lambda>l p. remove_ip (p_IpInt p) l) l ps = rest \<and> subseq rest l \<and>
     (\<forall>q \<in> set l. q \<in> set rest \<or> p_IpInt q \<in> p_IpInt ` set ps)"
proof (induction ps arbitrary: l)
  case (Cons p ps)
  have one: "subseq (remove_ip ip l) l" "\<forall>q \<in> set l. q \<in> set (remove_ip ip l) \<or> p_IpInt q = ip" for ip l
    by (induction l) auto
  show ?case using Cons.IH [of "remove_ip (p_IpInt p) l"] one(1) [where ip = "p_IpInt p" and l = l] one(2) [where ip = "p_IpInt p" and l = l]
    by (fastforce intro: subseq_order.trans)
qed simp

text \<open>
  No measured proxy is lost when a pool is loaded: the proxies that other pools use come first, then a
  subsequence of the measured ones by ascending delay, and what is left out has the address of one
  in use.
\<close>

lemma LoadProxyList_complete:
  assumes "GetProxyList False st = Some (Inr list, st')"
  shows "\<exists>rest. LoadProxyList used self st = Some (self\<lparr>pp_ProxyList := pp_ProxyList self @ used @ rest\<rparr>, st') \<and>
    subseq rest list \<and> (\<forall>q \<in> set list. q \<in> set rest \<or> p_IpInt q \<in> p_IpInt ` set used)"
  using assms remove_ips [of list used] by (auto simp: LoadProxyList_def)

end
