(* ===== verification/ConnProxy.thy ===== *)
theory ConnProxy
  imports ProxyClient ProxyPool
begin

text \<open>
  Where the pool meets the proxy client: \<open>ConnProxy\<close> of \<^verbatim>\<open>src/proxyPool/ProxyInfo.go\<close> dials through the
  link of a proxy with \<open>proxyclient.NewClient\<close> (\<^verbatim>\<open>src/proxyPool/ProxyClient/client.go\<close>). The theorems
  follow a proxy of the table from its link to the bytes on its connection: which address is dialed, which
  schemes can work, and what the check of a proxy takes for a working one.
\<close>

text \<open>
  The world outside: \<open>url.Parse\<close>, \<open>net.Dial\<close>, the environments of the SOCKS and HTTP clients, what the direct
  client needs, and the blackhole connection. The clients of REJECT, which counts its calls, of SS,
  whose connections have a cipher, and of SSH have definitions of another type or none, and are
  arguments here; the pool uses none of them.
\<close>

record dial_env =
  de_parse :: "string \<Rightarrow> go_error + URL"
  de_netDial :: "conn Dial"
  de_socks :: socks_env
  de_http :: http_env
  de_timeoutDial :: "int \<Rightarrow> conn Dial"
  de_duration :: "string \<Rightarrow> int"
  de_hole :: conn
  de_reject :: "conn DialFactory"
  de_ss :: "conn DialFactory"
  de_ssh :: "conn DialFactory"

definition schemes :: "dial_env \<Rightarrow> string \<rightharpoonup> conn DialFactory" where
  "schemes env = map_of
     [(''DIRECT'', newDirectProxyClient (de_netDial env) (de_timeoutDial env) (de_duration env)),
      (''REJECT'', de_reject env),
      (''BLACKHOLE'', newBlackholeProxyClient (de_hole env)),
      (''SOCKS'', newSocksProxyClient (de_socks env)),
      (''SOCKS4'', newSocksProxyClient (de_socks env)),
      (''SOCKS4A'', newSocksProxyClient (de_socks env)),
      (''SOCKS5'', newSocksProxyClient (de_socks env)),
      (''SOCKS5+TLS'', newSocksProxyClient (de_socks env)),
      (''HTTP'', newHTTPProxyClient (de_http env)),
      (''HTTPS'', newHTTPProxyClient (de_http env)),
      (''SS'', de_ss env),
      (''SSH'', de_ssh env)]"

definition NewClient :: "dial_env \<Rightarrow> URL option \<Rightarrow> go_error + conn Dial" where
  "NewClient env proxy = NewClientWithDial (schemes env) proxy (Some (de_netDial env))"

definition NewClientChain :: "dial_env \<Rightarrow> URL option list \<Rightarrow> go_error + conn Dial option" where
  "NewClientChain env proxies = NewClientChainWithDial (schemes env) proxies (Some (de_netDial env))"

definition LoadFreUsedAddr :: string where
  "LoadFreUsedAddr = ''117.175.92.40:80''"

definition ConnProxy :: "dial_env \<Rightarrow> string \<Rightarrow> string \<Rightarrow> dialed go" where
  "ConnProxy env addr proxy =
     (let addr = (if addr = [] then LoadFreUsedAddr else addr) in
      case de_parse env proxy of
        Inl err \<Rightarrow> Some (None, Some err)
      | Inr pr \<Rightarrow> (case NewClient env (Some pr) of
          Inl err \<Rightarrow> Some (None, Some err)
        | Inr dial \<Rightarrow> dial ''tcp'' addr))"

subsection \<open>The link of a proxy\<close>

text \<open>
  What the code needs of \<open>url.Parse\<close>: a link of one of the six schemes to an IPv4 address in dotted
  decimals and a port number, without user, path and query, is taken apart at the separator.
\<close>

definition parses_links :: "(string \<Rightarrow> go_error + URL) \<Rightarrow> bool" where
  "parses_links parse \<longleftrightarrow> (\<forall>s \<in> set SCHEME. \<forall>n port. 0 \<le> port \<and> port \<le> 65535 \<longrightarrow>
     parse (s @ ''://'' @ IpIntToString n @ '':'' @ Itoa port) =
       Inr \<lparr>u_Scheme = s, u_User = None, u_Host = IpIntToString n @ '':'' @ Itoa port, u_Path = [], u_Query = []\<rparr>)"

definition host_port :: "ProxyInfo \<Rightarrow> string" where
  "host_port p = IpIntToString (p_IpInt p) @ '':'' @ Itoa (p_Port p)"

text \<open>A proxy as the table holds it: no credentials, one of the six schemes, a TCP port, a link that is not yet built.\<close>

definition listed :: "ProxyInfo \<Rightarrow> bool" where
  "listed p \<longleftrightarrow> p_Url p = [] \<and> p_Au p = [] \<and> 0 \<le> p_Scheme p \<and> p_Scheme p < 6 \<and> 0 \<le> p_Port p \<and> p_Port p \<le> 65535"

definition proxy_link :: "ProxyInfo \<Rightarrow> URL" where
  "proxy_link p = \<lparr>u_Scheme = ToUpper (SCHEME ! nat (p_Scheme p)), u_User = None, u_Host = host_port p, u_Path = [], u_Query = []\<rparr>"

text \<open>The client that the link of a listed proxy gets.\<close>

definition link_dial :: "dial_env \<Rightarrow> ProxyInfo \<Rightarrow> string \<Rightarrow> dialed go" where
  "link_dial env p addr = (let s = SCHEME ! nat (p_Scheme p) in
     if s \<in> {''http'', ''https''} then http_Dial (de_http env\<lparr>hc_Dial := de_netDial env\<rparr>) (proxy_link p) ''tcp'' addr
     else if s = ''socks5'' then socks5_Dial (de_socks env\<lparr>se_Dial := de_netDial env\<rparr>) (proxy_link p) ''tcp'' addr
     else if s \<in> {''socks4'', ''socks4a''} then socks4_Dial (de_socks env\<lparr>se_Dial := de_netDial env\<rparr>) (proxy_link p) ''tcp'' addr
     else Some (None, Some (ErrMsg ''SOCKS not supported'')))"

lemma upper_schemes:
  "ToUpper ''socks5'' = ''SOCKS5''" "ToUpper ''socks4'' = ''SOCKS4''" "ToUpper ''socks4a'' = ''SOCKS4A''"
  "ToUpper ''https'' = ''HTTPS''" "ToUpper ''http'' = ''HTTP''" "ToUpper ''socks'' = ''SOCKS''"
  "ToUpper ''SOCKS5'' = ''SOCKS5''" "ToUpper ''SOCKS4'' = ''SOCKS4''" "ToUpper ''SOCKS4A'' = ''SOCKS4A''"
  "ToUpper ''HTTPS'' = ''HTTPS''" "ToUpper ''HTTP'' = ''HTTP''" "ToUpper ''SOCKS'' = ''SOCKS''" "ToUpper ''tcp'' = ''TCP''"
  by code_simp+

lemma scheme_cases:
  assumes "listed p"
  obtains "SCHEME ! nat (p_Scheme p) = ''socks5''" | "SCHEME ! nat (p_Scheme p) = ''socks4''" | "SCHEME ! nat (p_Scheme p) = ''socks4a''"
    | "SCHEME ! nat (p_Scheme p) = ''https''" | "SCHEME ! nat (p_Scheme p) = ''http''" | "SCHEME ! nat (p_Scheme p) = ''socks''"
proof -
  have "SCHEME ! nat (p_Scheme p) \<in> set SCHEME"
    using assms by (intro nth_mem) (simp add: listed_def SCHEME_def nat_less_iff)
  then show ?thesis using that by (auto simp: SCHEME_def)
qed

lemma ConnProxy_link:
  assumes "parses_links (de_parse env)" "listed p" "ProxyInfo_String p = Some (u, p')"
  shows "ConnProxy env addr u = link_dial env p (if addr = [] then LoadFreUsedAddr else addr)"
proof -
  let ?s = "SCHEME ! nat (p_Scheme p)"
  let ?url = "\<lparr>u_Scheme = ?s, u_User = None, u_Host = host_port p, u_Path = [], u_Query = []\<rparr>"
  have "u = ?s @ ''://'' @ host_port p"
    using assms(2,3) by (auto simp: ProxyInfo_String_def listed_def host_port_def go_simps Let_def)
  moreover have "?s \<in> set SCHEME" using scheme_cases [OF assms(2)] by (auto simp: SCHEME_def)
  ultimately have parse: "de_parse env u = Inr ?url"
    using assms(1,2) unfolding parses_links_def listed_def host_port_def by simp
  have norm: "normalizeLink ?url = proxy_link p"
    by (simp add: normalizeLink_def ToUpper_def lower_query_def proxy_link_def)
  show ?thesis
    using assms(2) unfolding ConnProxy_def parse NewClient_def NewClientWithDial_def option.case sum.case norm Let_def
    by (rule scheme_cases; simp add: proxy_link_def upper_schemes schemes_def newSocksProxyClient_def newHTTPProxyClient_def
        Socks_NewClient_def Let_def TCPOnly_def Socks_Dial_def link_dial_def)
qed

subsection \<open>What the pool does with a proxy\<close>

lemma newRequest_upd: "newRequest (e\<lparr>hc_Dial := d\<rparr>) proxy address = newRequest e proxy address"
  by (simp add: newRequest_def split: sum.split option.split)

lemma http_env_upd: "hc_Dial (e\<lparr>hc_Dial := d\<rparr>) = d" "hc_TLS (e\<lparr>hc_Dial := d\<rparr>) = hc_TLS e"
  "hc_ReadResponse (e\<lparr>hc_Dial := d\<rparr>) = hc_ReadResponse e"
  by simp_all

lemma socks_env_upd: "se_Dial (e\<lparr>se_Dial := d\<rparr>) = d" "se_TLS (e\<lparr>se_Dial := d\<rparr>) = se_TLS e"
  by simp_all

lemma http_Dial_host:
  assumes "d1 network (u_Host proxy) = d2 network (u_Host proxy)"
  shows "http_Dial (e\<lparr>hc_Dial := d1\<rparr>) proxy network address = http_Dial (e\<lparr>hc_Dial := d2\<rparr>) proxy network address"
  unfolding http_Dial_def http_connect_def newRequest_upd http_env_upd using assms by simp

lemma lookupIP_upd: "lookupIP (e\<lparr>se_Dial := d\<rparr>) host = lookupIP e host"
  by (simp add: lookupIP_def)

lemma socks4_Dial_host:
  assumes "d1 ''tcp'' (u_Host proxy) = d2 ''tcp'' (u_Host proxy)"
  shows "socks4_Dial (e\<lparr>se_Dial := d1\<rparr>) proxy network address = socks4_Dial (e\<lparr>se_Dial := d2\<rparr>) proxy network address"
  unfolding socks4_Dial_def lookupIP_upd socks_env_upd assms ..

lemma socks5_Dial_host:
  assumes "d1 network (u_Host proxy) = d2 network (u_Host proxy)"
  shows "socks5_Dial (e\<lparr>se_Dial := d1\<rparr>) proxy network address = socks5_Dial (e\<lparr>se_Dial := d2\<rparr>) proxy network address"
  unfolding socks5_Dial_def socks_env_upd assms ..

lemma link_dial_host:
  assumes "d1 ''tcp'' (host_port p) = d2 ''tcp'' (host_port p)"
  shows "link_dial (env\<lparr>de_netDial := d1\<rparr>) p addr = link_dial (env\<lparr>de_netDial := d2\<rparr>) p addr"
proof -
  have "u_Host (proxy_link p) = host_port p" by (simp add: proxy_link_def)
  then show ?thesis
    using assms http_Dial_host [of d1 "''tcp''" "proxy_link p" d2] socks4_Dial_host [of d1 "proxy_link p" d2]
      socks5_Dial_host [of d1 "''tcp''" "proxy_link p" d2] by (simp add: link_dial_def Let_def)
qed

text \<open>
  C10. Whatever the target, the pool dials the proxy and nothing else: for a listed proxy of any scheme the
  outcome of \<open>ConnProxy\<close> depends on \<open>net.Dial\<close> only through a TCP connection to the address and port of
  that proxy, so two dialing functions that agree on it give the same outcome. This is about dialing: the
  name of a target of a SOCKS4 proxy is also looked up (\<open>net.LookupIP\<close>), with a resolver that is the same
  on both sides here.
\<close>

theorem pool_dials_only_proxy:
  assumes "parses_links (de_parse env)" "listed p" "ProxyInfo_String p = Some (u, p')"
    and "d1 ''tcp'' (IpIntToString (p_IpInt p) @ '':'' @ Itoa (p_Port p)) = d2 ''tcp'' (IpIntToString (p_IpInt p) @ '':'' @ Itoa (p_Port p))"
  shows "ConnProxy (env\<lparr>de_netDial := d1\<rparr>) addr u = ConnProxy (env\<lparr>de_netDial := d2\<rparr>) addr u"
proof -
  have "ConnProxy (env\<lparr>de_netDial := d\<rparr>) addr u = link_dial (env\<lparr>de_netDial := d\<rparr>) p (if addr = [] then LoadFreUsedAddr else addr)" for d
    using assms(1-3) by (intro ConnProxy_link) auto
  then show ?thesis using link_dial_host [of d1 p d2 env] assms(4) by (simp add: host_port_def)
qed

text \<open>
  The probe of \<open>ProxyInfo.Check\<close> is \<open>ConnProxy\<close> with the default address: it gives the error of the
  connection, and the clock.
\<close>

definition probes :: "dial_env \<Rightarrow> probe \<Rightarrow> bool" where
  "probes env probe \<longleftrightarrow> (\<forall>u c err. ConnProxy env [] u = Some (c, err) \<longrightarrow> fst (probe u) = err)"

lemma sixth_scheme_fails:
  assumes "parses_links (de_parse env)" "listed p" "p_Scheme p = 5" "ProxyInfo_String p = Some (u, p')"
  shows "ConnProxy env addr u = Some (None, Some (ErrMsg ''SOCKS not supported''))"
  using ConnProxy_link [OF assms(1,2,4), of addr] assms(3) by (simp add: link_dial_def SCHEME_def)

lemma String_fields: "ProxyInfo_String p = Some (u, p') \<Longrightarrow> p' = p\<lparr>p_Url := u\<rparr>"
  by (auto simp: ProxyInfo_String_def Let_def go_simps split: if_splits)

lemma String_listed:
  assumes "listed p"
  obtains u where "ProxyInfo_String p = Some (u, p\<lparr>p_Url := u\<rparr>)"
proof -
  have "idx SCHEME (p_Scheme p) = Some (SCHEME ! nat (p_Scheme p))" "p_Url p = []"
    using assms by (simp_all add: listed_def SCHEME_def idx_def)
  then show ?thesis using that by (simp add: ProxyInfo_String_def Let_def)
qed

lemma check_schemes_last:
  assumes "check_schemes probe (is @ [k]) err p = Some (None, p')" "p_Url p = []"
    and "\<And>q u q'. p_Url q = [] \<Longrightarrow> p_Au q = p_Au p \<Longrightarrow> p_Port q = p_Port p \<Longrightarrow> p_Scheme q = k \<Longrightarrow>
      ProxyInfo_String q = Some (u, q') \<Longrightarrow> fst (probe u) \<noteq> None"
  shows "p_Scheme p' \<in> set is"
  using assms
proof (induction "is" arbitrary: p err)
  case Nil
  then obtain u q where q: "ProxyInfo_String (p\<lparr>p_Scheme := k\<rparr>) = Some (u, q)" by (auto simp: go_simps)
  moreover obtain e t where "probe u = (e, t)" by (cases "probe u")
  ultimately show ?case using Nil(1) Nil(3) [OF _ _ _ _ q] Nil(2) by (cases t) (auto simp: Let_def split: if_splits)
next
  case (Cons i "is")
  then obtain u q where q: "ProxyInfo_String (p\<lparr>p_Scheme := i\<rparr>) = Some (u, q)" by (auto simp: go_simps)
  obtain e t0 t1 where e: "probe u = (e, t0, t1)" by (cases "probe u") auto
  have f: "q = p\<lparr>p_Scheme := i, p_Url := u\<rparr>" using String_fields [OF q] by simp
  show ?case
  proof (cases "e = None")
    case True
    then show ?thesis using Cons.prems(1) q e f by (auto simp: Let_def)
  next
    case False
    then have "check_schemes probe (is @ [k]) e (p\<lparr>p_Scheme := i, p_Order := t0, p_Url := []\<rparr>) = Some (None, p')"
      using Cons.prems(1,2) q e f by (auto simp: Let_def)
    then show ?thesis using Cons.IH [of e "p\<lparr>p_Scheme := i, p_Order := t0, p_Url := []\<rparr>"] Cons.prems(2,3) by auto
  qed
qed

text \<open>
  C37. One of the six schemes can never work: a proxy with scheme "socks" gets the SOCKS client, which refuses that name,
  so a proxy whose scheme is being searched for is never found to be one, whatever the network does, and the check of a
  proxy that is saved with it fails.
\<close>

theorem sixth_scheme_dead:
  assumes "parses_links (de_parse env)" "probes env probe" "p_Url p = []" "p_Au p = []" "0 \<le> p_Port p" "p_Port p \<le> 65535" "0 \<le> p_Scheme p \<longrightarrow> 5 \<le> p_Scheme p"
    and "ProxyInfo_Check probe p = Some (None, p')"
  shows "p_Scheme p' \<in> {0..4}"
proof -
  have dead: "fst (probe u) \<noteq> None"
    if q: "p_Url q = []" "p_Au q = p_Au p" "p_Port q = p_Port p" "p_Scheme q = 5" "ProxyInfo_String q = Some (u, q')" for q u q'
  proof -
    have "listed q" using q assms(4-6) by (simp add: listed_def)
    then show ?thesis using sixth_scheme_fails [OF assms(1) _ q(4,5), of "[]"] assms(2) by (auto simp: probes_def)
  qed
  show ?thesis
  proof (cases "p_Scheme p = 5")
    case True
    then obtain u q where q: "ProxyInfo_String p = Some (u, q)" using assms(8) by (auto simp: ProxyInfo_Check_def go_simps)
    moreover obtain e t0 t1 where "probe u = (Some e, t0, t1)"
      using dead [OF assms(3) refl refl True q] by (cases "probe u") auto
    ultimately show ?thesis using True assms(8) by (simp add: ProxyInfo_Check_def)
  next
    case False
    then have "check_schemes probe [0..5] None p = Some (None, p')"
      using assms(7,8) by (auto simp: ProxyInfo_Check_def go_simps split: option.splits if_splits)
    moreover have "[0..5] = [0, 1, 2, 3, 4] @ [5 :: int]" by (simp add: upto.simps)
    ultimately show ?thesis using check_schemes_last [of probe "[0, 1, 2, 3, 4]" 5 None p p'] assms(3) dead by auto
  qed
qed

text \<open>
  C36. A host that refuses every CONNECT request passes for a working proxy: when the HTTP proxy answers the request of
  the check with any status, the client closes the connection but reports no error, so \<open>Check\<close> succeeds, with
  the time of the refusal as the delay that ranks the proxy.
\<close>

theorem refusing_proxy_passes_check:
  assumes "parses_links (de_parse env)" "probes env probe" "listed p" "p_Scheme p = 4"
    and "de_netDial env ''tcp'' (host_port p) = Some (Some c, None)" "hc_NewRequest (de_http env) ''117.175.92.40'' = None"
    and "conn_Write (hc_request (de_http env) LoadFreUsedAddr None) c = (None, c1)"
    and "hc_ReadResponse (de_http env) c1 = (Inr status, c2)"
  shows "\<exists>u t0 t1 c'. ConnProxy env [] u = Some (Some c', None) \<and> (status \<noteq> 200 \<longrightarrow> cn_closed c') \<and> probe u = (None, t0, t1) \<and>
    ProxyInfo_Check probe p = Some (None, p\<lparr>p_Url := u, p_Order := t1 - t0\<rparr>)"
proof -
  obtain u where u: "ProxyInfo_String p = Some (u, p\<lparr>p_Url := u\<rparr>)" using assms(3) by (rule String_listed)
  let ?e = "de_http env\<lparr>hc_Dial := de_netDial env\<rparr>"
  have "SplitHostPort LoadFreUsedAddr = Inr (''117.175.92.40'', ''80'')" by code_simp
  then have "newRequest ?e (proxy_link p) LoadFreUsedAddr = Inr (hc_request ?e LoadFreUsedAddr None)"
    using assms(6) by (simp add: newRequest_def proxy_link_def setBasicAuth_def)
  then obtain c' where "http_Dial ?e (proxy_link p) ''tcp'' LoadFreUsedAddr = Some (Some c', None)" "status \<noteq> 200 \<longrightarrow> cn_closed c'"
    using http_refused_no_error [of "proxy_link p" ?e "''tcp''" c LoadFreUsedAddr _ c1 status c2] assms(4,5,7,8)
    by (auto simp: proxy_link_def SCHEME_def upper_schemes)
  then have c': "ConnProxy env [] u = Some (Some c', None)" "status \<noteq> 200 \<longrightarrow> cn_closed c'"
    using ConnProxy_link [OF assms(1,3) u, of "[]"] assms(4) by (simp_all add: link_dial_def SCHEME_def)
  moreover have "fst (probe u) = None" using c'(1) assms(2) unfolding probes_def by blast
  then obtain t0 t1 where "probe u = (None, t0, t1)" by (cases "probe u") auto
  ultimately show ?thesis using u assms(4) by (force simp: ProxyInfo_Check_def)
qed

subsection \<open>A concrete network\<close>

text \<open>A parser for links as the hypotheses want it, and a network in which every address accepts and refuses CONNECT.\<close>

fun cut_link :: "string \<Rightarrow> string \<Rightarrow> (string \<times> string) option" where
  "cut_link pre [] = None"
| "cut_link pre (x # xs) = (if take 3 (x # xs) = ''://'' then Some (rev pre, drop 2 xs) else cut_link (x # pre) xs)"

definition demo_parse :: "string \<Rightarrow> go_error + URL" where
  "demo_parse s = (case cut_link [] s of None \<Rightarrow> Inl (ErrMsg ''missing protocol scheme'')
     | Some (s, host) \<Rightarrow> Inr \<lparr>u_Scheme = s, u_User = None, u_Host = host, u_Path = [], u_Query = []\<rparr>)"

lemma demo_parse_ok: "parses_links demo_parse"
  by (simp add: parses_links_def SCHEME_def demo_parse_def)

definition demo_dial_env :: "conn \<Rightarrow> dial_env" where
  "demo_dial_env c = \<lparr>de_parse = demo_parse, de_netDial = \<lambda>_ _. Some (Some c, None),
     de_socks = \<lparr>se_Dial = \<lambda>_ _. None, se_LookupIP = \<lambda>_. Inr [], se_TLS = Inr\<rparr>, de_http = (demo_http_env 403)\<lparr>hc_TLS := \<lambda>_. Inr (arriving [])\<rparr>,
     de_timeoutDial = \<lambda>_ _ _. None, de_duration = \<lambda>_. 0, de_hole = arriving [], de_reject = \<lambda>_ _. Inl EOF, de_ss = \<lambda>_ _. Inl EOF,
     de_ssh = \<lambda>_ _. Inl EOF\<rparr>"

definition demo_net_probe :: "conn \<Rightarrow> probe" where
  "demo_net_probe c u = (case ConnProxy (demo_dial_env c) [] u of Some (_, err) \<Rightarrow> (err, 3, 10) | None \<Rightarrow> (Some EOF, 3, 10))"

definition demo_http_proxy :: ProxyInfo where
  "demo_http_proxy = new_ProxyInfo\<lparr>p_IpInt := 5, p_Port := 80, p_Scheme := 4\<rparr>"

lemma demo_net_probes: "probes (demo_dial_env c) (demo_net_probe c)" "parses_links (de_parse (demo_dial_env c))"
  by (simp_all add: probes_def demo_net_probe_def demo_dial_env_def demo_parse_ok)

lemma default_addr: "SplitHostPort LoadFreUsedAddr = Inr (''117.175.92.40'', ''80'')"
  by code_simp

theorem refusing_proxy_passes_check_witness:
  "\<exists>u c'. ConnProxy (demo_dial_env (arriving [])) [] u = Some (Some c', None) \<and> cn_closed c' \<and>
    ProxyInfo_Check (demo_net_probe (arriving [])) demo_http_proxy = Some (None, demo_http_proxy\<lparr>p_Url := u, p_Order := 7\<rparr>)"
proof -
  let ?c = "arriving []" and ?req = "hc_request (demo_http_env 403) LoadFreUsedAddr None"
  have "listed demo_http_proxy" "p_Scheme demo_http_proxy = 4"
    by (simp_all add: listed_def demo_http_proxy_def new_ProxyInfo_def)
  then obtain u t0 t1 c' where "ConnProxy (demo_dial_env ?c) [] u = Some (Some c', None)" "403 \<noteq> (200 :: nat) \<longrightarrow> cn_closed c'"
      "demo_net_probe ?c u = (None, t0, t1)"
      "ProxyInfo_Check (demo_net_probe ?c) demo_http_proxy = Some (None, demo_http_proxy\<lparr>p_Url := u, p_Order := t1 - t0\<rparr>)"
    using refusing_proxy_passes_check [OF demo_net_probes(2,1), of demo_http_proxy ?c ?c "?c\<lparr>cn_out := [?req]\<rparr>" 403 "?c\<lparr>cn_out := [?req]\<rparr>"]
    by (auto simp: demo_dial_env_def demo_http_env_def arriving_def conn_Write_def)
  then show ?thesis by (intro exI [of _ u] exI [of _ c']) (auto simp: demo_net_probe_def)
qed

theorem pool_dials_only_proxy_witness:
  "ConnProxy (demo_dial_env (arriving [])\<lparr>de_netDial := \<lambda>n a. if a = ''0.0.0.5:80'' then Some (Some (arriving []), None) else None\<rparr>) ''t:1'' ''http://0.0.0.5:80'' =
   ConnProxy (demo_dial_env (arriving [])\<lparr>de_netDial := \<lambda>n a. Some (Some (arriving []), None)\<rparr>) ''t:1'' ''http://0.0.0.5:80''"
proof -
  have link: "IpIntToString 5 @ '':'' @ Itoa 80 = ''0.0.0.5:80''" by code_simp
  then have "ProxyInfo_String demo_http_proxy = Some (''http://0.0.0.5:80'', demo_http_proxy\<lparr>p_Url := ''http://0.0.0.5:80''\<rparr>)"
    by (simp add: ProxyInfo_String_def demo_http_proxy_def new_ProxyInfo_def SCHEME_def idx_def Let_def)
  moreover have "listed demo_http_proxy" "p_IpInt demo_http_proxy = 5" "p_Port demo_http_proxy = 80"
    by (simp_all add: listed_def demo_http_proxy_def new_ProxyInfo_def)
  ultimately show ?thesis
    using link by (intro pool_dials_only_proxy [OF demo_net_probes(2), where p = demo_http_proxy]) simp_all
qed

text \<open>With connections that are closed at once SOCKS fails, but the TLS handshake of the HTTPS scheme gives a new one.\<close>

lemma demo_net_probe_link:
  "listed q \<Longrightarrow> ProxyInfo_String q = Some (u, q') \<Longrightarrow> link_dial (demo_dial_env c) q LoadFreUsedAddr = Some (d, err) \<Longrightarrow>
    demo_net_probe c u = (err, 3, 10)"
  using ConnProxy_link [OF demo_net_probes(2), of q u q' c "[]"] by (simp add: demo_net_probe_def)

lemma demo_closed_links:
  defines "c \<equiv> (arriving [])\<lparr>cn_closed := True\<rparr>"
  shows "\<exists>d e. link_dial (demo_dial_env c) (demo_http_proxy\<lparr>p_Scheme := 0, p_Order := t\<rparr>) LoadFreUsedAddr = Some (d, Some e)"
    and "\<exists>d e. link_dial (demo_dial_env c) (demo_http_proxy\<lparr>p_Scheme := 1, p_Order := t\<rparr>) LoadFreUsedAddr = Some (d, Some e)"
    and "\<exists>d e. link_dial (demo_dial_env c) (demo_http_proxy\<lparr>p_Scheme := 2, p_Order := t\<rparr>) LoadFreUsedAddr = Some (d, Some e)"
    and "\<exists>d. link_dial (demo_dial_env c) (demo_http_proxy\<lparr>p_Scheme := 3, p_Order := t\<rparr>) LoadFreUsedAddr = Some (d, None)"
  by (simp_all add: c_def link_dial_def SCHEME_def Let_def socks5_Dial_def socks4_Dial_def http_Dial_def http_connect_def splitHostPort_def
      default_addr commandByNetwork_def ToLower_def lower_char_def isTLS_def isSOCKS4_def lookupIP_def proxy_link_def upper_schemes
      client_handshake_def conn_Write_def demo_dial_env_def socks4_ToPacket_def IsSOCKS4A_def newRequest_def demo_http_env_def arriving_def idx_def)

lemma demo_check_step:
  assumes "link_dial (demo_dial_env c) (demo_http_proxy\<lparr>p_Scheme := i, p_Order := t\<rparr>) LoadFreUsedAddr = Some (d, err)" "0 \<le> i" "i < 6"
  shows "check_schemes (demo_net_probe c) (i # is) e (demo_http_proxy\<lparr>p_Scheme := j, p_Order := t\<rparr>) =
    (if err = None then Some (None, demo_http_proxy\<lparr>p_Scheme := i, p_Order := 7\<rparr>)
     else check_schemes (demo_net_probe c) is err (demo_http_proxy\<lparr>p_Scheme := i, p_Order := 3\<rparr>))"
proof -
  let ?q = "demo_http_proxy\<lparr>p_Scheme := i, p_Order := t\<rparr>"
  have q: "listed ?q" using assms(2,3) by (simp add: listed_def demo_http_proxy_def new_ProxyInfo_def)
  then obtain u where u: "ProxyInfo_String ?q = Some (u, ?q\<lparr>p_Url := u\<rparr>)" by (rule String_listed)
  have "demo_net_probe c u = (err, 3, 10)" by (rule demo_net_probe_link [OF q u assms(1)])
  then show ?thesis using u by (simp add: Let_def demo_http_proxy_def new_ProxyInfo_def)
qed

theorem sixth_scheme_dead_witness:
  "\<exists>p'. ProxyInfo_Check (demo_net_probe ((arriving [])\<lparr>cn_closed := True\<rparr>)) (demo_http_proxy\<lparr>p_Scheme := - 1, p_Order := 0\<rparr>) = Some (None, p') \<and>
    p_Scheme p' \<in> {0..4}"
proof -
  let ?c = "(arriving [])\<lparr>cn_closed := True\<rparr>" and ?p = "demo_http_proxy\<lparr>p_Scheme := - 1, p_Order := 0\<rparr>"
  have scan: "check_schemes (demo_net_probe ?c) [0, 1, 2, 3, 4, 5] None ?p = Some (None, demo_http_proxy\<lparr>p_Scheme := 3, p_Order := 7\<rparr>)"
    using demo_closed_links(1) [of 0] demo_closed_links(2,3,4) [of 3] by (auto simp: demo_check_step simp del: check_schemes.simps)
  moreover have "[0..5] = [0, 1, 2, 3, 4, 5 :: int]" by (simp add: upto.simps)
  ultimately have "ProxyInfo_Check (demo_net_probe ?c) ?p = Some (None, demo_http_proxy\<lparr>p_Scheme := 3, p_Order := 7\<rparr>)"
    by (simp add: ProxyInfo_Check_def)
  moreover from this have "p_Scheme (demo_http_proxy\<lparr>p_Scheme := 3, p_Order := 7\<rparr>) \<in> {0..4}"
    by (rule sixth_scheme_dead [OF demo_net_probes(2,1), rotated 5]) (simp_all add: demo_http_proxy_def new_ProxyInfo_def)
  ultimately show ?thesis by blast
qed

end
