(* ===== verification/Relay.thy ===== *)
theory Relay
  imports ProxyPool
begin

text \<open>
  The relay of a pool (\<^verbatim>\<open>src/proxyPool/proxy.go\<close>, from \<open>Inits\<close> on): one goroutine per
  connection asks the client host for the target address of its port, all through the single
  goroutine of \<open>SyncServer\<close> and two channels of capacity 1.

  \<open>serve_request\<close> is one iteration of the loop of \<open>SyncServer\<close> as a function of the outcomes of the
  dials, writes and reads to come. The relations below interleave the goroutines at the granularity
  of channel operations, of the accesses to the shared buffer and of the dials, writes and reads of
  \<open>SyncServer\<close>, with the client host as a separate program. Neither channel is ever closed.
\<close>

subsection \<open>One request to the client host\<close>

text \<open>\<open>connfunc\<close> dials until it succeeds; the outcomes of the dials to come are given. \<open>None\<close>: it goes on for ever.\<close>

record client_link =
  cl_conn :: conn
  cl_dials :: "(go_error + conn) list"

fun redial :: "(go_error + conn) list \<Rightarrow> client_link option" where
  "redial [] = None"
| "redial (Inl err # ds) = redial ds"
| "redial (Inr c # ds) = Some \<lparr>cl_conn = c, cl_dials = ds\<rparr>"

definition connfunc :: "client_link \<Rightarrow> client_link option" where
  "connfunc l = redial (cl_dials l)"

text \<open>
  What is sent on \<open>Out\<close>: a slice of the buffer that all requests share, or the one byte 1 of a
  failure.
\<close>

datatype out_msg = OutBuf nat | OutOne

definition write_request :: "byte list \<Rightarrow> client_link \<Rightarrow> (bool \<times> client_link) option" where
  "write_request val l = (case conn_Write val (cl_conn l) of
       (None, c) \<Rightarrow> Some (True, l\<lparr>cl_conn := c\<rparr>)
     | (Some err, c) \<Rightarrow> do {
         l \<leftarrow> connfunc (l\<lparr>cl_conn := conn_Close c\<rparr>);
         Some (case conn_Write val (cl_conn l) of (err, c) \<Rightarrow> (err = None, l\<lparr>cl_conn := c\<rparr>)) })"

definition read_reply :: "client_link \<Rightarrow> (byte list option \<times> client_link) option" where
  "read_reply l = (case conn_Read 1024 (cl_conn l) of
       (Inr bs, c) \<Rightarrow> Some (Some bs, l\<lparr>cl_conn := c\<rparr>)
     | (Inl err, c) \<Rightarrow> do {
         l \<leftarrow> connfunc (l\<lparr>cl_conn := conn_Close c\<rparr>);
         Some (case conn_Read 1024 (cl_conn l) of
             (Inr bs, c) \<Rightarrow> (Some bs, l\<lparr>cl_conn := c\<rparr>)
           | (Inl err, c) \<Rightarrow> (None, l\<lparr>cl_conn := c\<rparr>)) })"

text \<open>The buffer \<open>buf\<close> has 1024 bytes; reading overwrites its front.\<close>

definition fill :: "byte list \<Rightarrow> byte list \<Rightarrow> byte list" where
  "fill bs buf = bs @ drop (length bs) buf"

definition serve_request :: "byte list \<Rightarrow> byte list \<Rightarrow> client_link \<Rightarrow> (out_msg \<times> byte list \<times> client_link) option" where
  "serve_request val buf l = do {
     (ok, l) \<leftarrow> write_request val l;
     if \<not> ok then Some (OutOne, buf, l)
     else do {
       (reply, l) \<leftarrow> read_reply l;
       Some (case reply of
           None \<Rightarrow> (OutOne, buf, l)
         | Some bs \<Rightarrow> (OutBuf (length bs), fill bs buf, l)) } }"

text \<open>The tail of \<open>GetRemoteAddr\<close>.\<close>

definition remote_addr :: "byte list \<Rightarrow> go_error + string" where
  "remote_addr buf = (if length buf = 0 then Inl (ErrMsg ''GetRempteAddr Err 1'')
     else if length buf = 1 then Inl (ErrMsg ''GetRempteAddr Err 1'')
     else Inr (string_of buf))"

definition out_bytes :: "byte list \<Rightarrow> out_msg \<Rightarrow> byte list" where
  "out_bytes buf m = (case m of OutBuf n \<Rightarrow> take n buf | OutOne \<Rightarrow> [1])"

text \<open>What \<open>RelayHandle\<close> connects to: the URL of the proxy in use and the address to reach through it.\<close>

definition relay_target :: "go_error + string \<Rightarrow> ProxyPool \<Rightarrow> ((go_error + string \<times> string) \<times> ProxyPool) go" where
  "relay_target res pool = (case res of
       Inl err \<Rightarrow> Some (Inl err, pool)
     | Inr addr \<Rightarrow> do {
         (r, pool) \<leftarrow> ProxyPool_GetConn pool;
         Some (case r of Inl err \<Rightarrow> Inl err | Inr u \<Rightarrow> Inr (u, addr), pool) })"

lemma conn_Read_out:
  "conn_Read n (c\<lparr>cn_out := w\<rparr>) = (case conn_Read n c of (r, c') \<Rightarrow> (r, c'\<lparr>cn_out := w\<rparr>))"
  by (simp add: conn_Read_def split: list.split del: dropWhile_eq_Nil_conv)

text \<open>
  A request on a connection that works is answered with the next bytes of that connection, and the
  request is what was written.
\<close>

lemma serve_request_works:
  assumes "\<not> cn_closed c" "cn_writes c = None" "conn_Read 1024 c = (Inr bs, c')" "cl_conn l = c" "length buf = 1024"
  shows "\<exists>m buf' l'. serve_request val buf l = Some (m, buf', l') \<and> out_bytes buf' m = bs \<and>
    cn_out (cl_conn l') = cn_out c @ [val] \<and> length buf' = 1024"
proof -
  have "length bs \<le> 1024" "reads_to c c'" using conn_Read_Inr [OF assms(3)] by simp_all
  then show ?thesis using assms
    by (simp add: serve_request_def write_request_def read_reply_def conn_Write_def out_bytes_def fill_def conn_Read_out)
qed

subsection \<open>The goroutines\<close>

datatype handler =
    Asking "byte list"
  | Waiting "byte list"
  | Holding "byte list" out_msg
  | Done "byte list" "go_error + string"

text \<open>
  The places at which \<open>SyncServer\<close> can be: in \<open>connfunc\<close> before the loop, at the receive, at the first
  write of a request, in \<open>connfunc\<close> after it failed, at the second write, and likewise for the read,
  and at the send of the reply.
\<close>

datatype srv =
    DialFirst | Idle
  | Writing "byte list" | DialWrite "byte list" | Rewriting "byte list"
  | Reading "byte list" | DialRead "byte list" | Rereading "byte list"
  | Replying out_msg

text \<open>
  The channels, the buffer, the server and the handlers, and the connection to the client host:
  the bytes that have arrived and are not read yet, whether it is closed or reset, the bytes the
  network still takes before a write blocks, and the requests the host has still to answer on it.
\<close>

record relay =
  r_In :: "byte list list"
  r_Out :: "out_msg list"
  r_buf :: "byte list"
  r_srv :: srv
  r_hs :: "handler list"
  r_pending :: "byte list"
  r_broken :: bool
  r_room :: nat
  r_asked :: "byte list list"

definition relay_init :: relay where
  "relay_init = \<lparr>r_In = [], r_Out = [], r_buf = replicate 1024 0, r_srv = DialFirst, r_hs = [],
     r_pending = [], r_broken = False, r_room = 0, r_asked = []\<rparr>"

text \<open>The loop of \<open>connfunc\<close>: it is left with a new connection, at the place after the call.\<close>

fun after_dial :: "srv \<Rightarrow> srv option" where
  "after_dial DialFirst = Some Idle"
| "after_dial (DialWrite p) = Some (Rewriting p)"
| "after_dial (DialRead p) = Some (Rereading p)"
| "after_dial _ = None"

inductive relay_dial :: "relay \<Rightarrow> relay \<Rightarrow> bool" where
  dial_fail: "after_dial (r_srv s) = Some v \<Longrightarrow> relay_dial s s"
| dial_ok: "after_dial (r_srv s) = Some v \<Longrightarrow>
    relay_dial s (s\<lparr>r_srv := v, r_pending := [], r_broken := False, r_room := w, r_asked := []\<rparr>)"

text \<open>
  The other steps of the running goroutines: the channel operations and the conversion of
  \<open>GetRemoteAddr\<close>, and the body of the loop of \<open>SyncServer\<close>. A write or a read fails only on a
  broken connection (but may succeed there), a write waits for room and a read for bytes, for both have no
  deadline; a read takes what has arrived, whatever request it answers, up to the size of the buffer.
\<close>

inductive relay_goes :: "relay \<Rightarrow> relay \<Rightarrow> bool" where
  ask: "\<lbrakk>i < length (r_hs s); r_hs s ! i = Asking p; r_In s = []\<rbrakk> \<Longrightarrow>
    relay_goes s (s\<lparr>r_In := [p], r_hs := (r_hs s)[i := Waiting p]\<rparr>)"
| take_in: "\<lbrakk>r_srv s = Idle; r_In s = [p]\<rbrakk> \<Longrightarrow> relay_goes s (s\<lparr>r_In := [], r_srv := Writing p\<rparr>)"
| write_ok: "\<lbrakk>r_srv s = Writing p \<or> r_srv s = Rewriting p; length p \<le> r_room s\<rbrakk> \<Longrightarrow>
    relay_goes s (s\<lparr>r_srv := Reading p, r_room := r_room s - length p, r_asked := r_asked s @ [p]\<rparr>)"
| write_err: "\<lbrakk>r_srv s = Writing p; r_broken s\<rbrakk> \<Longrightarrow> relay_goes s (s\<lparr>r_srv := DialWrite p\<rparr>)"
| rewrite_err: "\<lbrakk>r_srv s = Rewriting p; r_broken s\<rbrakk> \<Longrightarrow> relay_goes s (s\<lparr>r_srv := Replying OutOne\<rparr>)"
| read_ok: "\<lbrakk>r_srv s = Reading p \<or> r_srv s = Rereading p; bs = take 1024 (r_pending s); bs \<noteq> []\<rbrakk> \<Longrightarrow>
    relay_goes s (s\<lparr>r_srv := Replying (OutBuf (length bs)), r_buf := fill bs (r_buf s), r_pending := drop 1024 (r_pending s)\<rparr>)"
| read_err: "\<lbrakk>r_srv s = Reading p; r_broken s\<rbrakk> \<Longrightarrow> relay_goes s (s\<lparr>r_srv := DialRead p\<rparr>)"
| reread_err: "\<lbrakk>r_srv s = Rereading p; r_broken s\<rbrakk> \<Longrightarrow> relay_goes s (s\<lparr>r_srv := Replying OutOne\<rparr>)"
| send_out: "\<lbrakk>r_srv s = Replying m; r_Out s = []\<rbrakk> \<Longrightarrow> relay_goes s (s\<lparr>r_Out := [m], r_srv := Idle\<rparr>)"
| recv: "\<lbrakk>i < length (r_hs s); r_hs s ! i = Waiting p; r_Out s = [m]\<rbrakk> \<Longrightarrow>
    relay_goes s (s\<lparr>r_Out := [], r_hs := (r_hs s)[i := Holding p m]\<rparr>)"
| convert: "\<lbrakk>i < length (r_hs s); r_hs s ! i = Holding p m\<rbrakk> \<Longrightarrow>
    relay_goes s (s\<lparr>r_hs := (r_hs s)[i := Done p (remote_addr (out_bytes (r_buf s) m))]\<rparr>)"

text \<open>A step of the program: \<open>RelayHandle\<close> may also be started on a new connection at any time.\<close>

inductive relay_step :: "relay \<Rightarrow> relay \<Rightarrow> bool" where
  accept: "relay_step s (s\<lparr>r_hs := r_hs s @ [Asking p]\<rparr>)"
| goes: "relay_goes s s' \<Longrightarrow> relay_step s s'"
| dial: "relay_dial s s' \<Longrightarrow> relay_step s s'"

text \<open>
  The client host (\<open>addr\<close> of \<open>Inits\<close>) is another program. \<open>any_host\<close> is all it and the network
  can do: send bytes in any pieces, take bytes, break the connection. \<open>honest_host answer\<close> answers
  the requests of a connection in their order with \<open>answer p\<close>, each answer in one piece; its
  connections may still break at any time.
\<close>

inductive any_host :: "relay \<Rightarrow> relay \<Rightarrow> bool" where
  says: "\<not> r_broken s \<Longrightarrow> any_host s (s\<lparr>r_pending := r_pending s @ bs, r_asked := ps\<rparr>)"
| takes: "any_host s (s\<lparr>r_room := r_room s + n\<rparr>)"
| breaks: "any_host s (s\<lparr>r_broken := True\<rparr>)"

inductive honest_host :: "(byte list \<Rightarrow> byte list) \<Rightarrow> relay \<Rightarrow> relay \<Rightarrow> bool" for answer where
  answers: "\<lbrakk>\<not> r_broken s; r_asked s = p # ps\<rbrakk> \<Longrightarrow>
    honest_host answer s (s\<lparr>r_pending := r_pending s @ answer p, r_asked := ps\<rparr>)"
| honest_takes: "honest_host answer s (s\<lparr>r_room := r_room s + n\<rparr>)"
| honest_breaks: "honest_host answer s (s\<lparr>r_broken := True\<rparr>)"

lemma honest_any: "honest_host answer s s' \<Longrightarrow> any_host s s'"
  by (induction rule: honest_host.induct) (auto intro: any_host.intros)

inductive relay_reachable :: "(relay \<Rightarrow> relay \<Rightarrow> bool) \<Rightarrow> relay \<Rightarrow> bool" for host where
  reach_init: "relay_reachable host relay_init"
| reach_step: "relay_reachable host s \<Longrightarrow> relay_step s s' \<Longrightarrow> relay_reachable host s'"
| reach_host: "relay_reachable host s \<Longrightarrow> host s s' \<Longrightarrow> relay_reachable host s'"

fun is_Done :: "handler \<Rightarrow> bool" where
  "is_Done (Done _ _) = True"
| "is_Done _ = False"

fun is_Waiting :: "handler \<Rightarrow> bool" where
  "is_Waiting (Waiting _) = True"
| "is_Waiting _ = False"

text \<open>The requests the server has taken and not replied to yet: none or one.\<close>

fun at_server :: "srv \<Rightarrow> nat" where
  "at_server DialFirst = 0"
| "at_server Idle = 0"
| "at_server _ = 1"

text \<open>Where the server depends on the client host: it dials, has no room to write, or nothing to read.\<close>

fun needs_host :: "relay \<Rightarrow> srv \<Rightarrow> bool" where
  "needs_host s (Writing p) \<longleftrightarrow> \<not> r_broken s \<and> r_room s < length p"
| "needs_host s (Rewriting p) \<longleftrightarrow> \<not> r_broken s \<and> r_room s < length p"
| "needs_host s (Reading p) \<longleftrightarrow> \<not> r_broken s \<and> r_pending s = []"
| "needs_host s (Rereading p) \<longleftrightarrow> \<not> r_broken s \<and> r_pending s = []"
| "needs_host s v \<longleftrightarrow> after_dial v \<noteq> None"

definition waits_for_host :: "relay \<Rightarrow> bool" where
  "waits_for_host s \<longleftrightarrow> needs_host s (r_srv s)"

text \<open>
  The client host reacts to a server that waits for it: a dial succeeds, or room, bytes or a failure
  arrive so that the server can go on.
\<close>

definition host_reacts :: "relay \<Rightarrow> relay \<Rightarrow> bool" where
  "host_reacts s s' \<longleftrightarrow> waits_for_host s \<and>
     (relay_dial s s' \<and> r_srv s' \<noteq> r_srv s \<or> any_host s s' \<and> \<not> waits_for_host s')"

definition relay_served :: "relay \<Rightarrow> relay \<Rightarrow> bool" where
  "relay_served s s' \<longleftrightarrow> relay_goes s s' \<or> host_reacts s s'"

subsection \<open>Requests and replies\<close>

definition waiting :: "handler list \<Rightarrow> nat" where
  "waiting hs = (\<Sum>h\<leftarrow>hs. if is_Waiting h then 1 else 0)"

definition relay_inv :: "relay \<Rightarrow> bool" where
  "relay_inv s \<longleftrightarrow> length (r_In s) \<le> 1 \<and> length (r_Out s) \<le> 1 \<and>
     waiting (r_hs s) = length (r_In s) + length (r_Out s) + at_server (r_srv s)"

lemma waiting_update:
  "i < length hs \<Longrightarrow> waiting (hs[i := h]) + (if is_Waiting (hs ! i) then 1 else 0) = waiting hs + (if is_Waiting h then 1 else 0)"
proof -
  assume i: "i < length hs"
  then have "(if is_Waiting (hs ! i) then 1 else 0) \<le> waiting hs"
    unfolding waiting_def by (intro member_le_sum_list) (auto intro!: image_eqI [where x = "hs ! i"])
  with i show ?thesis unfolding waiting_def by (simp add: map_update sum_list_update)
qed

lemma waiting_append [simp]: "waiting (hs @ [h]) = waiting hs + (if is_Waiting h then 1 else 0)"
  by (simp add: waiting_def)

lemma waiting_filter: "waiting hs = length (filter is_Waiting hs)"
  by (induction hs) (simp_all add: waiting_def)

lemma waiting_pos: "0 < waiting hs \<longleftrightarrow> (\<exists>i < length hs. is_Waiting (hs ! i))"
  by (simp add: waiting_filter filter_empty_conv) (metis in_set_conv_nth)

lemma relay_goes_inv: "relay_goes s s' \<Longrightarrow> relay_inv s \<Longrightarrow> relay_inv s'"
proof (induction rule: relay_goes.induct)
  case (ask i s p)
  then show ?case using waiting_update [of i "r_hs s" "Waiting p"] by (simp add: relay_inv_def)
next
  case (recv i s p m)
  then show ?case using waiting_update [of i "r_hs s" "Holding p m"] by (simp add: relay_inv_def)
next
  case (convert i s p m)
  then show ?case using waiting_update [of i "r_hs s" "Done p (remote_addr (out_bytes (r_buf s) m))"]
    by (simp add: relay_inv_def)
qed (auto simp: relay_inv_def)

lemma relay_dial_inv: "relay_dial s s' \<Longrightarrow> relay_inv s \<Longrightarrow> relay_inv s'"
proof (induction rule: relay_dial.induct)
  case (dial_ok s v w)
  then have "at_server v = at_server (r_srv s)" by (cases "r_srv s") auto
  with dial_ok show ?case by (simp add: relay_inv_def)
qed

lemma any_host_inv: "any_host s s' \<Longrightarrow> relay_inv s \<Longrightarrow> relay_inv s'"
  by (induction rule: any_host.induct) (auto simp: relay_inv_def)

lemma relay_step_inv: "relay_step s s' \<Longrightarrow> relay_inv s \<Longrightarrow> relay_inv s'"
proof (induction rule: relay_step.induct)
  case (accept s p)
  then show ?case by (simp add: relay_inv_def)
qed (fact relay_goes_inv, fact relay_dial_inv)

lemma relay_reachable_inv: "relay_reachable any_host s \<Longrightarrow> relay_inv s"
proof (induction rule: relay_reachable.induct)
  case reach_init
  then show ?case by (simp add: relay_inv_def relay_init_def waiting_def)
qed (blast intro: relay_step_inv any_host_inv)+

lemma relay_served_inv: "relay_served s s' \<Longrightarrow> relay_inv s \<Longrightarrow> relay_inv s'"
  unfolding relay_served_def host_reacts_def using relay_goes_inv relay_dial_inv any_host_inv by blast

subsection \<open>Every request is answered, as soon as the client host answers\<close>

lemma relay_goesI: "relay_goes s s' \<Longrightarrow> \<exists>s'. relay_goes s s'"
  by blast

text \<open>As long as a goroutine is not done and the server need not wait for the host, some goroutine can take a step.\<close>

lemma server_goes:
  assumes "at_server (r_srv s) = 1" "\<not> waits_for_host s" "r_Out s = []"
  shows "\<exists>s'. relay_goes s s'"
proof (cases "r_srv s")
  case (Writing p)
  then show ?thesis using assms(2) write_ok [of s p] write_err [of s p] by (force simp: waits_for_host_def)
next
  case (Rewriting p)
  then show ?thesis using assms(2) write_ok [of s p] rewrite_err [of s p] by (force simp: waits_for_host_def)
next
  case (Reading p)
  then show ?thesis using assms(2) read_ok [of s p] read_err [of s p] by (force simp: waits_for_host_def)
next
  case (Rereading p)
  then show ?thesis using assms(2) read_ok [of s p] reread_err [of s p] by (force simp: waits_for_host_def)
next
  case (Replying m)
  then show ?thesis using assms(3) send_out [of s m] by blast
qed (use assms in \<open>simp_all add: waits_for_host_def\<close>)

lemma relay_progress:
  assumes inv: "relay_inv s" and work: "\<not> list_all is_Done (r_hs s)" and host: "\<not> waits_for_host s"
  shows "\<exists>s'. relay_goes s s'"
proof -
  obtain i where i: "i < length (r_hs s)" "\<not> is_Done (r_hs s ! i)"
    using work by (auto simp: list_all_length)
  have first: "r_srv s \<noteq> DialFirst" using host by (auto simp: waits_for_host_def)
  consider (holding) j p m where "j < length (r_hs s)" "r_hs s ! j = Holding p m"
    | (out) m where "r_Out s = [m]"
    | (busy) "r_Out s = []" "at_server (r_srv s) = 1"
    | (taking) p where "r_srv s = Idle" "r_In s = [p]"
    | (asking) p where "r_hs s ! i = Asking p" "r_In s = []"
  proof (cases "r_hs s ! i")
    case (Waiting p)
    then have "0 < waiting (r_hs s)" using i by (auto simp: waiting_pos)
    with inv first that(2-4) show thesis
      by (cases "r_Out s"; cases "r_In s"; cases "r_srv s") (auto simp: relay_inv_def)
  next
    case (Asking p)
    with inv first that show thesis
      by (cases "r_In s"; cases "r_srv s"; cases "r_Out s") (auto simp: relay_inv_def)
  qed (use i that(1) in auto)
  then show ?thesis
  proof cases
    case holding
    then show ?thesis by (blast intro: convert)
  next
    case out
    then have "0 < waiting (r_hs s)" using inv by (simp add: relay_inv_def)
    then obtain j p where "j < length (r_hs s)" "r_hs s ! j = Waiting p"
      by (auto simp: waiting_pos elim: is_Waiting.elims)
    with out show ?thesis by (blast intro: recv)
  next
    case busy
    then show ?thesis using host by (blast intro: server_goes)
  next
    case taking
    then show ?thesis by (blast intro: take_in)
  next
    case asking
    then show ?thesis using i by (blast intro: ask)
  qed
qed

text \<open>The host can always react.\<close>

lemma host_can_react:
  assumes "waits_for_host s"
  shows "\<exists>s'. host_reacts s s'"
proof -
  have dialed: "host_reacts s (s\<lparr>r_srv := v, r_pending := [], r_broken := False, r_room := 0, r_asked := []\<rparr>)"
    if "after_dial (r_srv s) = Some v" for v
    using that assms dial_ok [of s v 0] by (cases "r_srv s") (auto simp: host_reacts_def)
  have broken: "host_reacts s (s\<lparr>r_broken := True\<rparr>)" if "after_dial (r_srv s) = None"
    using that assms breaks [of s] by (cases "r_srv s") (auto simp: host_reacts_def waits_for_host_def)
  show ?thesis by (cases "after_dial (r_srv s)") (use dialed broken in blast)+
qed

text \<open>While the host does not react the server stays where it is, and with it all later requests.\<close>

lemma waits_for_host_goes:
  assumes "relay_goes s s'" "waits_for_host s"
  shows "r_srv s' = r_srv s \<and> waits_for_host s'"
proof -
  have same: "needs_host t v = needs_host s v" if "r_broken t = r_broken s" "r_room t = r_room s" "r_pending t = r_pending s" for t v
    using that by (cases v) simp_all
  from assms show ?thesis
    by (induction rule: relay_goes.induct) (auto simp: waits_for_host_def elim!: needs_host.elims)
qed

text \<open>Every step of a running goroutine, and every reaction of the host, brings the whole nearer to the end.\<close>

fun h_weight :: "handler \<Rightarrow> nat" where
  "h_weight (Asking _) = 12"
| "h_weight (Waiting _) = 2"
| "h_weight (Holding _ _) = 1"
| "h_weight (Done _ _) = 0"

fun srv_weight :: "srv \<Rightarrow> nat" where
  "srv_weight DialFirst = 1"
| "srv_weight Idle = 0"
| "srv_weight (Writing _) = 8"
| "srv_weight (DialWrite _) = 7"
| "srv_weight (Rewriting _) = 6"
| "srv_weight (Reading _) = 5"
| "srv_weight (DialRead _) = 4"
| "srv_weight (Rereading _) = 3"
| "srv_weight (Replying _) = 2"

definition relay_weight :: "relay \<Rightarrow> nat" where
  "relay_weight s = sum_list (map h_weight (r_hs s)) + 9 * length (r_In s) + srv_weight (r_srv s)"

lemma weight_update:
  assumes "i < length hs"
  shows "sum_list (map h_weight (hs[i := h])) + h_weight (hs ! i) = sum_list (map h_weight hs) + h_weight h"
proof -
  have "h_weight (hs ! i) \<le> sum_list (map h_weight hs)"
    using assms by (intro member_le_sum_list) (auto intro!: image_eqI [where x = "hs ! i"])
  with assms show ?thesis by (simp add: map_update sum_list_update)
qed

lemma relay_goes_weight: "relay_goes s s' \<Longrightarrow> relay_weight s' < relay_weight s"
proof (induction rule: relay_goes.induct)
  case (ask i s p)
  then show ?case using weight_update [of i "r_hs s" "Waiting p"] by (simp add: relay_weight_def)
next
  case (recv i s p m)
  then show ?case using weight_update [of i "r_hs s" "Holding p m"] by (simp add: relay_weight_def)
next
  case (convert i s p m)
  then show ?case using weight_update [of i "r_hs s" "Done p (remote_addr (out_bytes (r_buf s) m))"]
    by (simp add: relay_weight_def)
qed (auto simp: relay_weight_def)

definition served_weight :: "relay \<Rightarrow> nat" where
  "served_weight s = 2 * relay_weight s + (if waits_for_host s then 1 else 0)"

lemma dial_weight: "relay_dial s s' \<Longrightarrow> r_srv s' \<noteq> r_srv s \<Longrightarrow> relay_weight s' < relay_weight s"
proof (induction rule: relay_dial.induct)
  case (dial_ok s v w)
  then show ?case by (cases "r_srv s") (auto simp: relay_weight_def)
qed simp

lemma any_host_weight: "any_host s s' \<Longrightarrow> relay_weight s' = relay_weight s"
  by (induction rule: any_host.induct) (simp_all add: relay_weight_def)

lemma relay_served_weight: "relay_served s s' \<Longrightarrow> served_weight s' < served_weight s"
  unfolding relay_served_def host_reacts_def
  using relay_goes_weight [of s s'] dial_weight [of s s'] any_host_weight [of s s'] by (auto simp: served_weight_def)

lemma relay_served_ends:
  assumes "relay_inv s" "\<nexists>s'. relay_served s s'"
  shows "list_all is_Done (r_hs s)"
  using assms relay_progress [of s] host_can_react [of s] unfolding relay_served_def by blast

lemma served_star_inv: "relay_served\<^sup>*\<^sup>* s s' \<Longrightarrow> relay_inv s \<Longrightarrow> relay_inv s'"
  by (induction rule: rtranclp_induct) (blast intro: relay_served_inv)+

lemma goes_star_waits: "relay_goes\<^sup>*\<^sup>* s s' \<Longrightarrow> waits_for_host s \<Longrightarrow> r_srv s' = r_srv s \<and> waits_for_host s'"
  by (induction rule: rtranclp_induct) (auto dest: waits_for_host_goes)

lemma no_infinite_served: "\<not> (\<forall>n. relay_served (run n) (run (Suc n)))"
proof
  assume run: "\<forall>n. relay_served (run n) (run (Suc n))"
  have "served_weight (run n) + n \<le> served_weight (run 0)" for n
  proof (induction n)
    case (Suc n)
    have "served_weight (run (Suc n)) < served_weight (run n)" using run relay_served_weight by blast
    with Suc show ?case by simp
  qed simp
  from this [of "Suc (served_weight (run 0))"] show False by simp
qed

text \<open>
  C8. A connection that is accepted waits for nothing but the client host. In each reachable state,
  whatever the client host and the network did, the requests under way (in the channels or at the
  server) are as many as the handlers that wait, so no reply is lost. If the running goroutines cannot go on
  although a handler is not done, the server waits for the client host: it dials, or a write
  finds no room, or a read finds nothing on a connection that is not broken. As long as the host does not react,
  the server stays there whatever the handlers do (no deadline and no bound on the dials ends
  it). If the host always reacts, every execution of the running goroutines ends, and it ends with all
  handlers done.
\<close>

theorem relay_live:
  assumes "relay_reachable any_host s"
  shows "length (filter is_Waiting (r_hs s)) = length (r_In s) + length (r_Out s) + at_server (r_srv s) \<and>
    ((\<nexists>s'. relay_goes s s') \<longrightarrow> list_all is_Done (r_hs s) \<or> waits_for_host s) \<and>
    (waits_for_host s \<longrightarrow> (\<forall>s'. relay_goes\<^sup>*\<^sup>* s s' \<longrightarrow> r_srv s' = r_srv s \<and> waits_for_host s')) \<and>
    (\<nexists>run. run 0 = s \<and> (\<forall>n. relay_served (run n) (run (Suc n)))) \<and>
    (\<forall>s'. relay_served\<^sup>*\<^sup>* s s' \<and> (\<nexists>t. relay_served s' t) \<longrightarrow> list_all is_Done (r_hs s'))"
proof -
  have inv: "relay_inv s" using assms by (rule relay_reachable_inv)
  then have "length (filter is_Waiting (r_hs s)) = length (r_In s) + length (r_Out s) + at_server (r_srv s)"
    by (simp add: relay_inv_def waiting_filter)
  moreover have "list_all is_Done (r_hs s) \<or> waits_for_host s" if "\<nexists>s'. relay_goes s s'"
    using relay_progress [OF inv] that by blast
  moreover have "list_all is_Done (r_hs s')" if "relay_served\<^sup>*\<^sup>* s s'" "\<nexists>t. relay_served s' t" for s'
    using relay_served_ends served_star_inv inv that by blast
  ultimately show ?thesis using no_infinite_served goes_star_waits [of s] by blast
qed

theorem relay_live_witness:
  "\<exists>s. r_hs s = [Asking [56, 48]] \<and> waits_for_host s \<and>
     (\<forall>s'. relay_goes\<^sup>*\<^sup>* s s' \<longrightarrow> r_srv s' = DialFirst) \<and>
     (\<forall>s'. relay_served\<^sup>*\<^sup>* s s' \<and> (\<nexists>t. relay_served s' t) \<longrightarrow> list_all is_Done (r_hs s'))"
proof -
  let ?s = "relay_init\<lparr>r_hs := [Asking [56, 48]]\<rparr>"
  have "relay_reachable any_host ?s"
    using reach_step [OF reach_init accept, of any_host "[56, 48]"] by (simp add: relay_init_def)
  from relay_live [OF this] show ?thesis by (intro exI [of _ ?s]) (auto simp: waits_for_host_def relay_init_def)
qed

subsection \<open>One at a time, and two at once\<close>

text \<open>The executions in which a connection is accepted only when all earlier ones are done.\<close>

inductive relay_alone :: "(relay \<Rightarrow> relay \<Rightarrow> bool) \<Rightarrow> relay \<Rightarrow> bool" for host where
  alone_init: "relay_alone host relay_init"
| alone_accept: "relay_alone host s \<Longrightarrow> list_all is_Done (r_hs s) \<Longrightarrow> relay_alone host (s\<lparr>r_hs := r_hs s @ [Asking p]\<rparr>)"
| alone_goes: "relay_alone host s \<Longrightarrow> relay_goes s s' \<Longrightarrow> relay_alone host s'"
| alone_dial: "relay_alone host s \<Longrightarrow> relay_dial s s' \<Longrightarrow> relay_alone host s'"
| alone_host: "relay_alone host s \<Longrightarrow> host s s' \<Longrightarrow> relay_alone host s'"

definition right_msg :: "(byte list \<Rightarrow> byte list) \<Rightarrow> byte list \<Rightarrow> byte list \<Rightarrow> out_msg \<Rightarrow> bool" where
  "right_msg answer buf p m \<longleftrightarrow> out_bytes buf m \<in> {answer p, [1]}"

definition right_done :: "(byte list \<Rightarrow> byte list) \<Rightarrow> handler \<Rightarrow> bool" where
  "right_done answer h \<longleftrightarrow> (\<exists>p. h = Done p (remote_addr (answer p)) \<or> h = Done p (remote_addr [1]))"

text \<open>Nothing is left over on the connection: no bytes to read and no request to answer.\<close>

definition calm :: "relay \<Rightarrow> bool" where
  "calm s \<longleftrightarrow> r_pending s = [] \<and> r_asked s = []"

text \<open>Where the request of the only active goroutine is.\<close>

fun at_srv :: "(byte list \<Rightarrow> byte list) \<Rightarrow> relay \<Rightarrow> byte list \<Rightarrow> srv \<Rightarrow> bool" where
  "at_srv answer s p (Writing q) \<longleftrightarrow> q = p \<and> calm s"
| "at_srv answer s p (DialWrite q) \<longleftrightarrow> q = p"
| "at_srv answer s p (Rewriting q) \<longleftrightarrow> q = p \<and> calm s"
| "at_srv answer s p (Reading q) \<longleftrightarrow> q = p \<and>
     (r_pending s = [] \<and> r_asked s = [p] \<or> r_pending s = answer p \<and> r_asked s = [])"
| "at_srv answer s p (DialRead q) \<longleftrightarrow> q = p"
| "at_srv answer s p (Rereading q) \<longleftrightarrow> q = p \<and> calm s"
| "at_srv answer s p (Replying m) \<longleftrightarrow> calm s \<and> right_msg answer (r_buf s) p m"
| "at_srv answer s p v \<longleftrightarrow> False"

definition resting :: "relay \<Rightarrow> bool" where
  "resting s \<longleftrightarrow> r_In s = [] \<and> r_Out s = [] \<and> (r_srv s = Idle \<or> r_srv s = DialFirst) \<and> calm s"

fun request_at :: "(byte list \<Rightarrow> byte list) \<Rightarrow> relay \<Rightarrow> handler \<Rightarrow> bool" where
  "request_at answer s (Asking p) \<longleftrightarrow> resting s"
| "request_at answer s (Waiting p) \<longleftrightarrow>
     (r_In s = [p] \<and> r_Out s = [] \<and> (r_srv s = Idle \<or> r_srv s = DialFirst) \<and> calm s) \<or>
     (r_In s = [] \<and> r_Out s = [] \<and> at_srv answer s p (r_srv s)) \<or>
     (\<exists>m. r_In s = [] \<and> r_Out s = [m] \<and> r_srv s = Idle \<and> calm s \<and> right_msg answer (r_buf s) p m)"
| "request_at answer s (Holding p m) \<longleftrightarrow> resting s \<and> r_srv s = Idle \<and> right_msg answer (r_buf s) p m"
| "request_at answer s (Done p res) \<longleftrightarrow> False"

inductive alone_inv :: "(byte list \<Rightarrow> byte list) \<Rightarrow> relay \<Rightarrow> bool" for answer where
  quiet: "\<lbrakk>list_all (right_done answer) (r_hs s); resting s\<rbrakk> \<Longrightarrow> alone_inv answer s"
| active: "\<lbrakk>r_hs s = hs @ [h]; list_all (right_done answer) hs; request_at answer s h\<rbrakk> \<Longrightarrow> alone_inv answer s"

lemma out_bytes_fill [simp]: "out_bytes (fill bs buf) (OutBuf (length bs)) = bs"
  by (simp add: out_bytes_def fill_def)

lemma right_OutOne [simp]: "right_msg answer buf p OutOne"
  by (simp add: right_msg_def out_bytes_def)

lemma right_done_Done: "right_done answer h \<Longrightarrow> is_Done h"
  by (auto simp: right_done_def)

lemma last_only:
  assumes "list_all (right_done answer) hs" "i < length (hs @ [h])" "\<not> is_Done ((hs @ [h]) ! i)"
  shows "i = length hs" and "(hs @ [h]) ! i = h"
proof -
  have "\<not> i < length hs" using assms by (metis list_all_length nth_append right_done_Done)
  with assms(2) show "i = length hs" by simp
  then show "(hs @ [h]) ! i = h" by simp
qed

lemma request_at_goes:
  assumes s: "r_hs s = hs @ [h]" "list_all (right_done answer) hs" and at: "request_at answer s h"
    and short: "\<forall>p. length (answer p) \<le> 1024" and step: "relay_goes s s'"
  shows "alone_inv answer s'"
proof -
  have here: "i = length hs \<and> h = g" if "i < length (r_hs s)" "r_hs s ! i = g" "\<not> is_Done g" for i g
    using last_only [OF s(2), of i h] that unfolding s(1) by simp
  have served: "alone_inv answer s'" if "r_hs s' = r_hs s" "request_at answer s' h"
    using that s by (intro active [of s' hs h]) auto
  from step show ?thesis
  proof (cases rule: relay_goes.cases)
    case (ask i p)
    from here [OF ask(2,3)] have h: "i = length hs" "h = Asking p" by simp_all
    then have "r_hs s' = hs @ [Waiting p]" using ask(1) s(1) by simp
    with ask at h s(2) show ?thesis by (intro active [of s' hs "Waiting p"]) (auto simp: resting_def calm_def)
  next
    case (read_ok p bs)
    have "request_at answer s' h"
      using read_ok at short by (cases h) (auto simp: resting_def calm_def right_msg_def)
    with read_ok show ?thesis by (intro served) simp_all
  next
    case (recv i p m)
    from here [OF recv(2,3)] have h: "i = length hs" "h = Waiting p" by simp_all
    then have "r_hs s' = hs @ [Holding p m]" using recv(1) s(1) by simp
    with recv at h s(2) show ?thesis by (intro active [of s' hs "Holding p m"]) (auto simp: resting_def calm_def)
  next
    case (convert i p m)
    from here [OF convert(2,3)] have h: "i = length hs" "h = Holding p m" by simp_all
    then have "r_hs s' = hs @ [Done p (remote_addr (out_bytes (r_buf s) m))]" using convert(1) s(1) by simp
    with convert at h s(2) show ?thesis by (intro quiet) (auto simp: right_done_def right_msg_def resting_def calm_def)
  qed (rule served, simp, use at in \<open>cases h; auto simp: resting_def calm_def\<close>)+
qed

lemma request_at_dial:
  assumes "relay_dial s s'" "request_at answer s h"
  shows "request_at answer s' h"
  using assms
proof (induction rule: relay_dial.induct)
  case (dial_ok s v w)
  then show ?case by (cases h; cases "r_srv s") (auto simp: resting_def calm_def)
qed

lemma request_at_host:
  assumes "honest_host answer s s'" "request_at answer s h"
  shows "request_at answer s' h"
  using assms
proof (induction rule: honest_host.induct)
  case (answers s p ps)
  then show ?case by (cases h; cases "r_srv s") (auto simp: resting_def calm_def)
next
  case (honest_takes s n)
  then show ?case by (cases h; cases "r_srv s") (auto simp: resting_def calm_def)
next
  case (honest_breaks s)
  then show ?case by (cases h; cases "r_srv s") (auto simp: resting_def calm_def)
qed

lemma dial_resting: "relay_dial s s' \<Longrightarrow> resting s \<Longrightarrow> resting s'"
  by (induction rule: relay_dial.induct) (auto simp: resting_def calm_def)

lemma host_resting: "honest_host answer s s' \<Longrightarrow> resting s \<Longrightarrow> resting s'"
  by (induction rule: honest_host.induct) (auto simp: resting_def calm_def)

lemma dial_hs: "relay_dial s s' \<Longrightarrow> r_hs s' = r_hs s"
  by (induction rule: relay_dial.induct) simp_all

lemma host_hs: "any_host s s' \<Longrightarrow> r_hs s' = r_hs s"
  by (induction rule: any_host.induct) simp_all

lemma quiet_goes:
  assumes "relay_goes s s'" "list_all (right_done answer) (r_hs s)" "resting s"
  shows False
proof -
  have still: "is_Done (r_hs s ! i)" if "i < length (r_hs s)" for i
    using assms(2) that by (auto simp: list_all_length dest: right_done_Done)
  from assms(1,3) show False
    by (cases rule: relay_goes.cases) (auto simp: resting_def dest: still)
qed

lemma alone_inv_reachable:
  assumes "\<forall>p. length (answer p) \<le> 1024"
  shows "relay_alone (honest_host answer) s \<Longrightarrow> alone_inv answer s"
proof (induction rule: relay_alone.induct)
  case alone_init
  then show ?case by (intro quiet) (simp_all add: relay_init_def resting_def calm_def)
next
  case (alone_accept s p)
  from alone_accept.IH show ?case
  proof cases
    case quiet
    then show ?thesis by (intro active [of _ "r_hs s" "Asking p"]) (simp_all add: resting_def calm_def)
  next
    case (active hs h)
    with alone_accept.hyps show ?thesis by (cases h) simp_all
  qed
next
  case (alone_goes s s')
  from alone_goes.IH show ?case
    by cases (use alone_goes.hyps assms in \<open>blast intro: request_at_goes dest: quiet_goes\<close>)+
next
  case (alone_dial s s')
  from alone_dial.IH show ?case
    by cases (use alone_dial.hyps dial_hs [of s s'] in
      \<open>force intro: alone_inv.intros dest: dial_resting request_at_dial\<close>)+
next
  case (alone_host s s')
  from alone_host.IH show ?case
    by cases (use alone_host.hyps host_hs [OF honest_any, of answer s s'] in
      \<open>force intro: alone_inv.intros dest: host_resting request_at_host\<close>)+
qed

text \<open>
  C19. One connection at a time is relayed to the right place: when a connection is accepted only
  after the earlier ones are answered, and the client host sends the answers in the order of the
  requests, each in one piece of at most 1024 bytes, then every handler that got an address got the answer of
  the client host to its own port. Dials may fail and connections may break at any time, before, between and
  after the bytes; what is read after a reconnection is never the answer to another request.
\<close>

theorem relay_alone_right:
  assumes "relay_alone (honest_host answer) s" "\<forall>p. length (answer p) \<le> 1024" "Done p (Inr addr) \<in> set (r_hs s)"
  shows "addr = string_of (answer p)"
proof -
  from alone_inv_reachable [OF assms(2,1)] have "right_done answer (Done p (Inr addr))"
    by cases (use assms(3) in \<open>auto simp: list_all_iff elim: request_at.elims\<close>)
  then show ?thesis by (auto simp: right_done_def remote_addr_def split: if_splits)
qed

text \<open>States on a connection that works; the server serves one request.\<close>

abbreviation rst :: "byte list list \<Rightarrow> out_msg list \<Rightarrow> byte list \<Rightarrow> srv \<Rightarrow> handler list \<Rightarrow> byte list \<Rightarrow> nat \<Rightarrow> byte list list \<Rightarrow> relay" where
  "rst i out buf srv hs bs w ps \<equiv> \<lparr>r_In = i, r_Out = out, r_buf = buf, r_srv = srv, r_hs = hs,
     r_pending = bs, r_broken = False, r_room = w, r_asked = ps\<rparr>"

lemma served_round:
  assumes closed: "\<forall>s s'. P s \<longrightarrow> relay_goes s s' \<longrightarrow> P s'"
    and host: "\<forall>s. P s \<longrightarrow> r_asked s = [p] \<longrightarrow> \<not> r_broken s \<longrightarrow> P (s\<lparr>r_pending := r_pending s @ bs, r_asked := []\<rparr>)"
    and init: "P (rst [p] [] b Idle hs [] w [])" and "length p \<le> w" "bs \<noteq> []" "length bs \<le> 1024"
  shows "P (rst [] [OutBuf (length bs)] (fill bs b) Idle hs [] (w - length p) [])"
proof -
  let ?m = "OutBuf (length bs)"
  have goes: "P s'" if "P s" "relay_goes s s'" for s s' using closed that by blast
  have "P (rst [] [] b (Writing p) hs [] w [])"
    using goes [OF init take_in [of _ p]] by simp
  then have "P (rst [] [] b (Reading p) hs [] (w - length p) [p])"
    by (rule goes) (use write_ok [of "rst [] [] b (Writing p) hs [] w []" p] assms(4) in simp)
  then have "P (rst [] [] b (Reading p) hs bs (w - length p) [])"
    using host [rule_format, of "rst [] [] b (Reading p) hs [] (w - length p) [p]"] by simp
  then have "P (rst [] [] (fill bs b) (Replying ?m) hs [] (w - length p) [])"
    by (rule goes) (use read_ok [of "rst [] [] b (Reading p) hs bs (w - length p) []" p bs] assms(5,6) in simp)
  then show ?thesis
    by (rule goes) (use send_out [of "rst [] [] (fill bs b) (Replying ?m) hs [] (w - length p) []" ?m] in simp)
qed

lemma handler_asks:
  assumes closed: "\<forall>s s'. P s \<longrightarrow> relay_goes s s' \<longrightarrow> P s'"
    and "P (rst [] out b v (hs @ Asking p # hs') bs w ps)"
  shows "P (rst [p] out b v (hs @ Waiting p # hs') bs w ps)"
  using closed [rule_format, OF assms(2) relay_goes.ask [of "length hs" _ p]] by (simp add: nth_append list_update_append)

lemma handler_gets:
  assumes closed: "\<forall>s s'. P s \<longrightarrow> relay_goes s s' \<longrightarrow> P s'"
    and "P (rst i [m] b v (hs @ Waiting p # hs') bs w ps)"
  shows "P (rst i [] b v (hs @ Done p (remote_addr (out_bytes b m)) # hs') bs w ps)"
proof -
  have "P (rst i [] b v (hs @ Holding p m # hs') bs w ps)"
    using closed [rule_format, OF assms(2) recv [of "length hs" _ p m]] by (simp add: nth_append list_update_append)
  from closed [rule_format, OF this convert [of "length hs" _ p m]] show ?thesis by (simp add: nth_append list_update_append)
qed

lemma alone_round:
  assumes "answer p \<noteq> []" "length (answer p) \<le> 1024"
  shows "\<exists>s. relay_alone (honest_host answer) s \<and> r_hs s = [Done p (remote_addr (answer p))]"
proof -
  let ?P = "relay_alone (honest_host answer)" and ?b = "replicate 1024 0 :: byte list"
  have goes: "\<forall>s s'. ?P s \<longrightarrow> relay_goes s s' \<longrightarrow> ?P s'" by (blast intro: alone_goes)
  have host: "\<forall>s. ?P s \<longrightarrow> r_asked s = [p] \<longrightarrow> \<not> r_broken s \<longrightarrow> ?P (s\<lparr>r_pending := r_pending s @ answer p, r_asked := []\<rparr>)"
    using answers [of _ p "[]" answer] by (blast intro: alone_host)
  have "?P (rst [] [] ?b DialFirst [Asking p] [] 0 [])"
    using alone_accept [OF alone_init, of _ p] by (simp add: relay_init_def)
  from alone_dial [OF this dial_ok [of _ Idle "length p"]]
  have "?P (rst [] [] ?b Idle [Asking p] [] (length p) [])" by simp
  with handler_asks [of ?P "[]" ?b Idle "[]" p "[]" "[]" "length p" "[]", OF goes]
  have "?P (rst [p] [] ?b Idle [Waiting p] [] (length p) [])" by simp
  from served_round [OF goes host this] assms
  have "?P (rst [] [OutBuf (length (answer p))] (fill (answer p) ?b) Idle [Waiting p] [] 0 [])" by simp
  with handler_gets [of ?P "[]" "OutBuf (length (answer p))" "fill (answer p) ?b" Idle "[]" p "[]" "[]" 0 "[]", OF goes]
  have "?P (rst [] [] (fill (answer p) ?b) Idle [Done p (remote_addr (answer p))] [] 0 [])" by simp
  then show ?thesis by fastforce
qed

definition demo_answer :: "byte list \<Rightarrow> byte list" where
  "demo_answer p = bytes_of ''1.2.3.4:'' @ take 5 p"

lemma demo_answer_short: "length (demo_answer p) \<le> 1024"
  by (simp add: demo_answer_def)

theorem relay_alone_right_witness:
  "\<exists>s. relay_alone (honest_host demo_answer) s \<and> Done [56, 48] (Inr ''1.2.3.4:80'') \<in> set (r_hs s) \<and>
     ''1.2.3.4:80'' = string_of (demo_answer [56, 48])"
proof -
  have a: "remote_addr (demo_answer [56, 48]) = Inr ''1.2.3.4:80''" by code_simp
  obtain s where s: "relay_alone (honest_host demo_answer) s" "r_hs s = [Done [56, 48] (Inr ''1.2.3.4:80'')]"
    using alone_round [of demo_answer "[56, 48]"] a demo_answer_short by (auto simp: demo_answer_def)
  moreover have "Done [56, 48] (Inr ''1.2.3.4:80'') \<in> set (r_hs s)" using s by simp
  ultimately show ?thesis using relay_alone_right demo_answer_short by blast
qed

text \<open>
  C35. Two connections at once can be relayed to each other's targets: the replies on \<open>Out\<close> carry no
  mark of their request and any waiting goroutine may take them. For any two ports whose requests
  are answered, there is an execution, with a client host that answers in order and a connection that never
  fails, in which each gets the address of the other.
\<close>

theorem relay_swaps:
  assumes "2 \<le> length (answer p)" "length (answer p) \<le> 1024" "2 \<le> length (answer q)" "length (answer q) \<le> 1024"
  shows "\<exists>s. relay_reachable (honest_host answer) s \<and>
    r_hs s = [Done p (Inr (string_of (answer q))), Done q (Inr (string_of (answer p)))]"
proof -
  let ?P = "relay_reachable (honest_host answer)" and ?b = "replicate 1024 0 :: byte list"
  let ?m = "OutBuf (length (answer p))" and ?n = "OutBuf (length (answer q))"
  let ?c = "fill (answer p) ?b"
  let ?d = "fill (answer q) ?c" and ?q = "Done q (remote_addr (answer p))"
  let ?w = "length p + length q"
  have goes: "\<forall>s s'. ?P s \<longrightarrow> relay_goes s s' \<longrightarrow> ?P s'" by (blast intro: reach_step relay_step.goes)
  have host: "\<forall>s. ?P s \<longrightarrow> r_asked s = [r] \<longrightarrow> \<not> r_broken s \<longrightarrow> ?P (s\<lparr>r_pending := r_pending s @ answer r, r_asked := []\<rparr>)" for r
    using answers [of _ r "[]" answer] by (blast intro: reach_host)
  have "?P (rst [] [] ?b DialFirst [Asking p] [] 0 [])"
    using reach_step [OF reach_init accept, of _ p] by (simp add: relay_init_def)
  from reach_step [OF this accept, of q] have "?P (rst [] [] ?b DialFirst [Asking p, Asking q] [] 0 [])" by simp
  from reach_step [OF this dial, OF dial_ok [of _ Idle ?w]]
  have "?P (rst [] [] ?b Idle [Asking p, Asking q] [] ?w [])" by simp
  with handler_asks [of ?P "[]" ?b Idle "[]" p "[Asking q]" "[]" ?w "[]", OF goes]
  have "?P (rst [p] [] ?b Idle [Waiting p, Asking q] [] ?w [])" by simp
  from served_round [OF goes host this] assms
  have "?P (rst [] [?m] ?c Idle [Waiting p, Asking q] [] (length q) [])" by fastforce
  with handler_asks [of ?P "[?m]" ?c Idle "[Waiting p]" q "[]" "[]" "length q" "[]", OF goes]
  have "?P (rst [q] [?m] ?c Idle [Waiting p, Waiting q] [] (length q) [])" by simp
  with handler_gets [of ?P "[q]" ?m ?c Idle "[Waiting p]" q "[]" "[]" "length q" "[]", OF goes]
  have "?P (rst [q] [] ?c Idle [Waiting p, ?q] [] (length q) [])" by simp
  from served_round [OF goes host this] assms
  have "?P (rst [] [?n] ?d Idle [Waiting p, ?q] [] 0 [])" by fastforce
  with handler_gets [of ?P "[]" ?n ?d Idle "[]" p "[?q]" "[]" 0 "[]", OF goes]
  have "?P (rst [] [] ?d Idle [Done p (remote_addr (answer q)), ?q] [] 0 [])" by simp
  moreover have "remote_addr (answer q) = Inr (string_of (answer q))" "remote_addr (answer p) = Inr (string_of (answer p))"
    using assms by (auto simp: remote_addr_def)
  ultimately show ?thesis by fastforce
qed

theorem relay_swaps_witness:
  "\<exists>s. relay_reachable (honest_host demo_answer) s \<and>
     r_hs s = [Done [56, 48] (Inr ''1.2.3.4:90''), Done [57, 48] (Inr ''1.2.3.4:80'')]"
proof -
  have "string_of (demo_answer [56, 48]) = ''1.2.3.4:80''" "string_of (demo_answer [57, 48]) = ''1.2.3.4:90''" by code_simp+
  then show ?thesis using relay_swaps [of demo_answer "[56, 48]" "[57, 48]"] by (simp add: demo_answer_def)
qed

text \<open>
  After a failed read the loop dials again and reads from the new connection without sending the request
  on it: what it passes on as the answer is whatever the client host says first.
\<close>

lemma failed_read_not_resent:
  assumes "\<not> cn_closed c" "cn_writes c = None" "conn_Read 1024 c = (Inl err, c')" "cl_conn l = c"
    and "cl_dials l = Inr c1 # ds" "conn_Read 1024 c1 = (Inr bs, c1')"
  shows "serve_request val buf l = Some (OutBuf (length bs), fill bs buf, \<lparr>cl_conn = c1', cl_dials = ds\<rparr>)"
    and "cn_out c1' = cn_out c1"
proof -
  show "serve_request val buf l = Some (OutBuf (length bs), fill bs buf, \<lparr>cl_conn = c1', cl_dials = ds\<rparr>)"
    using assms by (simp add: serve_request_def write_request_def read_reply_def conn_Write_def connfunc_def conn_Read_out)
  show "cn_out c1' = cn_out c1" using conn_Read_Inr(5) [OF assms(6)] reads_to_fields by simp
qed

text \<open>
  A reply is taken with a single read: when the answer to a request arrives in two pieces, the first
  passes for the answer and the second is what the next request gets.
\<close>

lemma split_answer_goes_astray:
  assumes "\<not> cn_closed c" "cn_writes c = None" "cn_in c = [bs, cs]" "cl_conn l = c" "length buf = 1024"
    and "bs \<noteq> []" "cs \<noteq> []" "length bs \<le> 1024" "length cs \<le> 1024"
  shows "\<exists>m buf1 l1 n buf2 l2. serve_request p buf l = Some (m, buf1, l1) \<and> out_bytes buf1 m = bs \<and>
    serve_request q buf1 l1 = Some (n, buf2, l2) \<and> out_bytes buf2 n = cs"
  using assms
  by (auto simp: serve_request_def write_request_def read_reply_def conn_Write_def conn_Read_def out_bytes_def fill_def)

end
