(* ===== verification/MainEntry.thy ===== *)
theory MainEntry
  imports Relay
begin

text \<open>
  The two handlers of \<^verbatim>\<open>src/main.go\<close> that work on the proxy pool: \<open>ProxyHandle\<close>, which adds proxies
  to the table, and \<open>ListHandle[1]\<close>, which gives every client host a pool. The map of pools is
  an association list; Go's order of iteration over it is not specified, here it is the list order.
\<close>

datatype main_effect = ReadFailed | ScannIP | ScannPort | Console | NoCommand | Checked "go_error option"

text \<open>The error of \<open>Init\<close> is ignored: the fields it has set by then are checked and saved.\<close>

definition add_proxy :: "probe \<Rightarrow> string \<Rightarrow> store \<Rightarrow> (go_error option \<times> store) go" where
  "add_proxy probe hostPort st = do {
     (err, pi) \<leftarrow> ProxyInfo_Check probe (snd (ProxyInfo_Init hostPort [] (- 1) new_ProxyInfo));
     (case err of
        Some e \<Rightarrow> Some (Some e, st)
      | None \<Rightarrow> SaveDB pi st) }"

definition ProxyHandle :: "probe \<Rightarrow> go_error + byte list \<Rightarrow> store \<Rightarrow> (main_effect \<times> store) go" where
  "ProxyHandle probe input st = (case input of
       Inl err \<Rightarrow> Some (ReadFailed, st)
     | Inr buf \<Rightarrow>
         if length buf = 1 then
           Some (if hd buf = 100 then ScannIP else if hd buf = 101 then ScannPort
                 else if hd buf = 90 then Console else NoCommand, st)
         else do {
           (err, st) \<leftarrow> add_proxy probe (string_of buf) st;
           Some (Checked err, st) })"

text \<open>The proxies that the other pools use: the first of each, which panics for an empty pool.\<close>

fun BeingUsed :: "(int \<times> ProxyPool) list \<Rightarrow> ProxyInfo list go" where
  "BeingUsed [] = Some []"
| "BeingUsed ((ip, p) # ps) = do {
     x \<leftarrow> idx (pp_ProxyList p) 0;
     xs \<leftarrow> BeingUsed ps;
     Some (x # xs) }"

text \<open>The pool that the connection is queued for, or \<open>None\<close> when it is closed at once.\<close>

definition ListHandle1 :: "string \<Rightarrow> (int \<times> ProxyPool) list \<Rightarrow> store \<Rightarrow>
    (int option \<times> (int \<times> ProxyPool) list \<times> store) go" where
  "ListHandle1 remote pools st = (case SplitHostPort remote of
       Inl err \<Rightarrow> Some (None, pools, st)
     | Inr (localhost, _) \<Rightarrow>
         (let ips = StringIpToInt localhost in
          case map_of pools ips of
            Some pr \<Rightarrow> Some (Some ips, pools, st)
          | None \<Rightarrow> do {
              li \<leftarrow> BeingUsed pools;
              (pr, st) \<leftarrow> LoadProxyList li \<lparr>pp_ProxyList = []\<rparr> st;
              Some (Some ips, (ips, pr) # pools, st) }))"

text \<open>
  The ports of the configuration are given to the handlers in their order; ports beyond the third are not
  listened on.
\<close>

definition listen_plan :: "string \<Rightarrow> (string \<times> nat) list" where
  "listen_plan ports = zip (Split (CHR '','') ports) [0..<3]"

lemma default_listen_plan: "listen_plan '':3330,:3332,:3333'' = [('':3330'', 0), ('':3332'', 1), ('':3333'', 2)]"
  by code_simp

text \<open>A host has one pool: connecting again neither reloads nor changes it.\<close>

lemma ListHandle1_known:
  "SplitHostPort remote = Inr (host, port) \<Longrightarrow> map_of pools (StringIpToInt host) = Some pr \<Longrightarrow>
    ListHandle1 remote pools st = Some (Some (StringIpToInt host), pools, st)"
  by (simp add: ListHandle1_def Let_def)

lemma BeingUsed_iff: "BeingUsed pools = Some li \<longleftrightarrow>
    (\<forall>p \<in> snd ` set pools. pp_ProxyList p \<noteq> []) \<and> li = map (\<lambda>p. hd (pp_ProxyList (snd p))) pools"
proof (induction pools arbitrary: li)
  case (Cons a pools)
  obtain ip p where a: "a = (ip, p)" by (cases a)
  show ?case
  proof (cases "pp_ProxyList p")
    case Nil
    then show ?thesis by (simp add: a idx_def)
  next
    case (Cons x xs)
    then show ?thesis using Cons.IH by (cases "BeingUsed pools") (auto simp: a idx_def)
  qed
qed auto

text \<open>
  A new host: with all pools in use non-empty it gets a pool that starts with the proxies in use and
  offers every measured proxy of another address.
\<close>

lemma ListHandle1_new:
  assumes "SplitHostPort remote = Inr (host, port)" "map_of pools (StringIpToInt host) = None"
    and "\<forall>p \<in> snd ` set pools. pp_ProxyList p \<noteq> []" "GetProxyList False st = Some (Inr list, st')"
  defines "used \<equiv> map (\<lambda>p. hd (pp_ProxyList (snd p))) pools"
  shows "\<exists>rest. ListHandle1 remote pools st =
      Some (Some (StringIpToInt host), (StringIpToInt host, \<lparr>pp_ProxyList = used @ rest\<rparr>) # pools, st') \<and>
    subseq rest list \<and> (\<forall>q \<in> set list. q \<in> set rest \<or> p_IpInt q \<in> p_IpInt ` set used)"
proof -
  have "BeingUsed pools = Some used" using assms(3) by (simp add: BeingUsed_iff used_def)
  then show ?thesis using LoadProxyList_complete [OF assms(4), of used "\<lparr>pp_ProxyList = []\<rparr>"] assms(1,2)
    by (auto simp: ListHandle1_def Let_def)
qed

text \<open>Without a measured proxy the first host gets an empty pool, and the second host ends the server.\<close>

lemma second_host_panics:
  assumes "SplitHostPort r1 = Inr (h1, p1)" "SplitHostPort r2 = Inr (h2, p2)" "StringIpToInt h1 \<noteq> StringIpToInt h2"
    and "GetProxyList False st = Some (Inr [], st')"
  shows "\<exists>pools. ListHandle1 r1 [] st = Some (Some (StringIpToInt h1), pools, st') \<and> ListHandle1 r2 pools st' = None"
  using assms by (simp add: ListHandle1_def Let_def LoadProxyList_def idx_def)

end
