(* ===== verification/Scann.thy ===== *)
theory Scann
  imports GoText SqlTable "HOL-Library.Multiset"
begin

text \<open>
  Package \<open>scann\<close> (\<^verbatim>\<open>src/scann/ScannDB.go\<close>): the table of address ranges to be scanned and the table of
  ports, which the scanning clients fetch one range and the whole list at a time.

  A database is a file that may be missing, may have no table yet (SQLite creates the empty file on
  first access), or has its rows in the order of the primary key. Statements can only fail here
  because of a missing table or a key that exists. \<open>ORDER BY\<close> is stable on that order, as in SQLite.
\<close>

datatype 'a sqlfile = NoFile | NoTable | Table 'a

record ip_row =
  ip_begin :: int
  ip_end :: int
  ip_time :: int

record port_row =
  po_port :: int
  po_order :: int

subsection \<open>Ports\<close>

definition first_ports :: "int list" where
  "first_ports = [53, 23, 443, 8080, 1080, 80, 22]"

definition CreateScannPortDB :: "port_row list go" where
  "CreateScannPortDB = foldM (\<lambda>rows p. sql_insert po_port \<lparr>po_port = p, po_order = 0\<rparr> rows) [] first_ports"

definition AddPortDB :: "int \<Rightarrow> port_row list sqlfile \<Rightarrow> go_error option \<times> port_row list sqlfile" where
  "AddPortDB port db = (case db of
       Table rows \<Rightarrow>
         (None, Table (case sql_insert po_port \<lparr>po_port = port, po_order = 1\<rparr> rows of
            Some rows \<Rightarrow> rows
          | None \<Rightarrow> map (\<lambda>r. if po_port r = port then r\<lparr>po_order := po_order r + 1\<rparr> else r) rows))
     | _ \<Rightarrow> (Some (ErrMsg ''no such table: scannPort''), NoTable))"

definition port_line :: "port_row \<Rightarrow> string" where
  "port_line r = Itoa (po_port r) @ [CHR 0x0A]"

text \<open>The text that is written, by descending \<open>order\<close>. A missing table panics.\<close>

definition GetScannPort :: "port_row list sqlfile \<Rightarrow> (string \<times> port_row list sqlfile) go" where
  "GetScannPort db = do {
     rows \<leftarrow> (case db of NoFile \<Rightarrow> CreateScannPortDB | NoTable \<Rightarrow> None | Table rows \<Rightarrow> Some rows);
     Some (concat (map port_line (sort_key (\<lambda>r. - po_order r) rows)) @ [CHR 0x0A], Table rows) }"

subsection \<open>Address ranges\<close>

definition is_space :: "char \<Rightarrow> bool" where
  "is_space c \<longleftrightarrow> c = CHR 0x20 \<or> c = CHR 0x09 \<or> c = CHR 0x0A \<or> c = CHR 0x0B \<or> c = CHR 0x0C \<or> c = CHR 0x0D"

definition TrimSpace :: "string \<Rightarrow> string" where
  "TrimSpace s = rev (dropWhile is_space (rev (dropWhile is_space s)))"

text \<open>
  One line of the downloaded list: three fields are inserted, a begin that is already there panics. The
  last line counts even without a line break, because the insertion overwrites the \<open>io.EOF\<close>.
\<close>

definition UpdateIPDB_line :: "ip_row list \<Rightarrow> string \<Rightarrow> ip_row list go" where
  "UpdateIPDB_line rows line =
     (let lis = Split (CHR 0x09) (TrimSpace line) in
      if length lis = 3 then
        sql_insert ip_begin \<lparr>ip_begin = StringIpToInt (lis ! 0), ip_end = StringIpToInt (lis ! 1), ip_time = 0\<rparr> rows
      else Some rows)"

text \<open>\<open>Inl\<close> is an error before the transaction: of the request, or a status other than 200.\<close>

definition UpdateIPDB :: "go_error + string \<Rightarrow> ip_row list \<Rightarrow> (go_error option \<times> ip_row list) go" where
  "UpdateIPDB download rows = (case download of
       Inl err \<Rightarrow> Some (Some err, rows)
     | Inr body \<Rightarrow> do {
         rows \<leftarrow> foldM UpdateIPDB_line rows (Split (CHR 0x0A) body);
         Some (None, rows) })"

definition CreateScannIPDB :: "go_error + string \<Rightarrow> ip_row list go" where
  "CreateScannIPDB download = do {
     (err, rows) \<leftarrow> UpdateIPDB download [];
     if err = None then Some rows else None }"

definition LIMIT :: nat where
  "LIMIT = 20"

text \<open>The index of the last of the selected rows that was never scanned, or 0.\<close>

definition zerolist :: "ip_row list \<Rightarrow> nat" where
  "zerolist rows = foldl (\<lambda>z (i, r). if ip_time r = 0 then i else z) 0 (enumerate 0 rows)"

definition range_text :: "int \<times> int \<Rightarrow> string" where
  "range_text v = Itoa (fst v) @ ''_'' @ Itoa (snd v)"

text \<open>
  \<open>pick n\<close> is the random number below \<open>n\<close>, \<open>werr\<close> the error of writing the answer, after which the table is
  left alone. The array \<open>list\<close> is zero where the query had no row, so an empty table answers the range
  from 0 to 0.
\<close>

definition GetScannIP :: "go_error + string \<Rightarrow> (nat \<Rightarrow> nat) \<Rightarrow> int \<Rightarrow> go_error option \<Rightarrow> ip_row list sqlfile \<Rightarrow>
    (go_error option \<times> string \<times> ip_row list sqlfile) go" where
  "GetScannIP download pick now werr db = do {
     rows \<leftarrow> (case db of NoFile \<Rightarrow> CreateScannIPDB download | NoTable \<Rightarrow> None | Table rows \<Rightarrow> Some rows);
     let list = take LIMIT (sort_key ip_time rows);
     let z = zerolist list;
     let i = (if z = 0 then 0 else pick z);
     let v = (if i < length list then (ip_begin (list ! i), ip_end (list ! i)) else (0, 0));
     Some (werr, range_text v,
       Table (if werr \<noteq> None then rows
              else map (\<lambda>r. if ip_begin r = fst v then r\<lparr>ip_time := now\<rparr> else r) rows)) }"

subsection \<open>The oldest range is handed out\<close>

lemma zerolist_snoc: "zerolist (rows @ [r]) = (if ip_time r = 0 then length rows else zerolist rows)"
  by (simp add: zerolist_def enumerate_append_eq)

lemma zerolist_cases: "zerolist rows = 0 \<or> (zerolist rows < length rows \<and> ip_time (rows ! zerolist rows) = 0)"
proof (induction rows rule: rev_induct)
  case Nil
  then show ?case by (simp add: zerolist_def)
next
  case (snoc r rows)
  then show ?case by (auto simp: zerolist_snoc nth_append)
qed

text \<open>
  The table of ranges in use: made from a download, then asked for ranges by clients, at times that are
  not negative. Its begins are keys, and its times are not negative.
\<close>

inductive ip_table :: "ip_row list \<Rightarrow> bool" where
  ip_created: "CreateScannIPDB download = Some rows \<Longrightarrow> ip_table rows"
| ip_asked: "\<lbrakk>ip_table rows; 0 \<le> now; GetScannIP download pick now werr (Table rows) = Some (err, out, Table rows')\<rbrakk> \<Longrightarrow>
    ip_table rows'"

definition ranges_ok :: "ip_row list \<Rightarrow> bool" where
  "ranges_ok rows \<longleftrightarrow> pk_ok ip_begin rows \<and> (\<forall>r \<in> set rows. 0 \<le> ip_time r)"

lemma UpdateIPDB_line_ok: "ranges_ok rows \<Longrightarrow> UpdateIPDB_line rows line = Some rows' \<Longrightarrow> ranges_ok rows'"
  by (auto simp: ranges_ok_def UpdateIPDB_line_def Let_def set_sql_insert intro: pk_ok_insert split: if_splits)

lemma UpdateIPDB_lines_ok: "ranges_ok rows \<Longrightarrow> foldM UpdateIPDB_line rows lines = Some rows' \<Longrightarrow> ranges_ok rows'"
proof (induction lines arbitrary: rows)
  case (Cons l lines)
  then show ?case by (cases "UpdateIPDB_line rows l") (auto dest: UpdateIPDB_line_ok)
qed simp

lemma ip_table_ok: "ip_table rows \<Longrightarrow> ranges_ok rows"
proof (induction rule: ip_table.induct)
  case (ip_created download rows)
  then show ?case
    using UpdateIPDB_lines_ok [of "[]" _ rows]
    by (auto simp: CreateScannIPDB_def UpdateIPDB_def ranges_ok_def [of "[]"] split: sum.splits bind_splits if_splits)
next
  case (ip_asked rows now download pick werr err out rows')
  then show ?case
    by (auto simp: GetScannIP_def Let_def ranges_ok_def split: if_splits intro!: pk_ok_map)
qed

text \<open>
  C30. A scanning client gets a range that waited longest: from a table with rows the answer is the range of
  a row whose time of last scan is the least of all (so a range never scanned, as long as there is one),
  whatever the random choice, and exactly that row gets the current time if the answer could be
  written.
\<close>

theorem GetScannIP_oldest:
  assumes "rows \<noteq> []" "ip_table rows" "\<forall>n > 0. pick n < n"
  shows "\<exists>r \<in> set rows. (\<forall>q \<in> set rows. ip_time r \<le> ip_time q) \<and>
    GetScannIP download pick now None (Table rows) =
      Some (None, Itoa (ip_begin r) @ ''_'' @ Itoa (ip_end r), Table (map (\<lambda>q. if q = r then q\<lparr>ip_time := now\<rparr> else q) rows))"
proof -
  have ok: "pk_ok ip_begin rows" "\<forall>r \<in> set rows. 0 \<le> ip_time r"
    using ip_table_ok [OF assms(2)] by (simp_all add: ranges_ok_def)
  define list where "list = take LIMIT (sort_key ip_time rows)"
  define i where "i = (if zerolist list = 0 then 0 else pick (zerolist list))"
  have len: "0 < length list" using assms(1) by (simp add: list_def LIMIT_def)
  have sorted: "ip_time (list ! m) \<le> ip_time (list ! n)" if "m \<le> n" "n < length list" for m n
    using that sorted_nth_mono [of "map ip_time (sort_key ip_time rows)" m n] by (simp add: list_def)
  have i: "i < length list \<and> (i = 0 \<or> ip_time (list ! i) \<le> 0)"
  proof (cases "zerolist list = 0")
    case True
    then show ?thesis using len by (simp add: i_def)
  next
    case False
    then have "i < zerolist list" "zerolist list < length list" "ip_time (list ! zerolist list) = 0"
      using zerolist_cases [of list] assms(3) by (auto simp: i_def)
    then show ?thesis using sorted [of i "zerolist list"] by simp
  qed
  have list_rows: "list ! n \<in> set rows" if "n < length list" for n
    using that nth_mem [of n list] set_take_subset [of LIMIT "sort_key ip_time rows"] by (auto simp: list_def)
  have least: "ip_time (list ! 0) \<le> ip_time q" if q: "q \<in> set rows" for q
  proof -
    obtain n where "n < length rows" "q = sort_key ip_time rows ! n"
      using q in_set_conv_nth [of q "sort_key ip_time rows"] by auto
    then show ?thesis
      using sorted_nth_mono [of "map ip_time (sort_key ip_time rows)" 0 n] len by (simp add: list_def)
  qed
  let ?r = "list ! i"
  have r: "?r \<in> set rows" using list_rows i by simp
  have "ip_time ?r \<le> ip_time q" if "q \<in> set rows" for q
    using i least [OF that] ok(2) that r by fastforce
  moreover have "ip_begin q = ip_begin ?r \<longleftrightarrow> q = ?r" if "q \<in> set rows" for q
    using pk_unique [OF ok(1) r that] .
  then have "map (\<lambda>q. if ip_begin q = ip_begin ?r then q\<lparr>ip_time := now\<rparr> else q) rows =
      map (\<lambda>q. if q = ?r then q\<lparr>ip_time := now\<rparr> else q) rows"
    by (intro map_cong refl if_cong)
  then have "GetScannIP download pick now None (Table rows) =
      Some (None, Itoa (ip_begin ?r) @ ''_'' @ Itoa (ip_end ?r), Table (map (\<lambda>q. if q = ?r then q\<lparr>ip_time := now\<rparr> else q) rows))"
    using i unfolding GetScannIP_def Let_def range_text_def list_def [symmetric] sqlfile.case bind.bind_lunit
      i_def [symmetric] by simp
  ultimately show ?thesis using r by blast
qed

definition demo_line :: string where
  "demo_line = ''0.0.0.5'' @ [CHR 0x09] @ ''0.0.0.9'' @ [CHR 0x09] @ ''5''"

definition demo_list :: string where
  "demo_list = demo_line @ [CHR 0x0A]"

lemma demo_digits: "Itoa 0 = ''0''" "Itoa 5 = ''5''" "Itoa 9 = ''9''"
  by code_simp+

lemma demo_address: "0 \<le> d \<Longrightarrow> d < 256 \<Longrightarrow> StringIpToInt (''0.0.0.'' @ Itoa d) = d"
  using StringIpToInt_four [of 0 0 0 d] by (force simp: demo_digits)

lemma demo_created: "CreateScannIPDB (Inr demo_list) = Some [\<lparr>ip_begin = 5, ip_end = 9, ip_time = 0\<rparr>]"
proof -
  have "Split (CHR 0x0A) demo_list = [demo_line, []]" by code_simp
  moreover have "Split (CHR 0x09) (TrimSpace demo_line) = [''0.0.0.5'', ''0.0.0.9'', ''5'']" "Split (CHR 0x09) (TrimSpace []) = [[]]"
    by (simp_all add: TrimSpace_def is_space_def demo_line_def)
  moreover have "StringIpToInt ''0.0.0.5'' = 5" "StringIpToInt ''0.0.0.9'' = 9"
    using demo_address [of 5] demo_address [of 9] demo_digits by simp_all
  ultimately show ?thesis
    by (simp add: CreateScannIPDB_def UpdateIPDB_def UpdateIPDB_line_def sql_insert_def Let_def)
qed

theorem GetScannIP_oldest_witness:
  "GetScannIP (Inr demo_list) (\<lambda>n. n - 1) 77 None (Table [\<lparr>ip_begin = 5, ip_end = 9, ip_time = 0\<rparr>]) =
     Some (None, ''5_9'', Table [\<lparr>ip_begin = 5, ip_end = 9, ip_time = 77\<rparr>])"
proof -
  let ?rows = "[\<lparr>ip_begin = 5, ip_end = 9, ip_time = 0\<rparr>]"
  have "ip_table ?rows" by (rule ip_created) (rule demo_created)
  then show ?thesis
    using GetScannIP_oldest [of ?rows "\<lambda>n. n - 1" "Inr demo_list" 77] by (simp add: demo_digits)
qed

text \<open>The list of ports names every port once, those that were reported most often first.\<close>

lemma GetScannPort_lists:
  "GetScannPort (Table rows) = Some (text, db) \<Longrightarrow> db = Table rows \<and>
    (\<exists>ps. mset ps = mset rows \<and> sorted_wrt (\<lambda>p q. po_order p \<ge> po_order q) ps \<and> text = concat (map port_line ps) @ [CHR 0x0A])"
proof -
  assume "GetScannPort (Table rows) = Some (text, db)"
  moreover have "sorted_wrt (\<lambda>p q. po_order p \<ge> po_order q) (sort_key (\<lambda>r. - po_order r) rows)"
    using sorted_sort_key [of "\<lambda>r. - po_order r" rows] by (simp add: sorted_map)
  ultimately show ?thesis by (intro conjI exI [of _ "sort_key (\<lambda>r. - po_order r) rows"]) (auto simp: GetScannPort_def)
qed

lemma first_list_of_ports: "map_option (map po_port) CreateScannPortDB = Some [22, 23, 53, 80, 443, 1080, 8080]"
  by code_simp

end
