(* ===== verification/Poly1305Spec.thy ===== *)
theory Poly1305Spec
  imports Poly1305
begin

text \<open>
  Poly1305 as RFC 7539 defines it, on natural numbers modulo \<open>2 ^ 130 - 5\<close>, and the proof that the
  limb arithmetic of \<^verbatim>\<open>crypto/poly1305/sum_ref.go\<close> computes it: no sum or product of the code
  wraps around, the carries keep the value modulo the prime, and the masked final selection is
  the reduction.
\<close>

subsection \<open>The reference\<close>

fun le_nat :: "byte list \<Rightarrow> nat" where
  "le_nat [] = 0"
| "le_nat (b # bs) = unat b + 256 * le_nat bs"

fun le_bytes :: "nat \<Rightarrow> nat \<Rightarrow> byte list" where
  "le_bytes 0 k = []"
| "le_bytes (Suc n) k = of_nat k # le_bytes n (k div 256)"

definition prime_1305 :: nat where
  "prime_1305 = 2 ^ 130 - 5"

text \<open>The clamped \<open>r\<close>: the mask \<open>0ffffffc0ffffffc0ffffffc0fffffff\<close> of the RFC.\<close>

definition rfc_r :: "byte list \<Rightarrow> nat" where
  "rfc_r key = le_nat (take 16 key) AND 0x0ffffffc0ffffffc0ffffffc0fffffff"

function rfc_acc :: "nat \<Rightarrow> byte list \<Rightarrow> nat \<Rightarrow> nat" where
  "rfc_acc r msg acc =
     (if msg = [] then acc
      else rfc_acc r (drop 16 msg)
        ((acc + le_nat (take 16 msg @ [1])) * r mod prime_1305))"
  by pat_completeness auto
termination by (relation "measure (\<lambda>(r, msg, acc). length msg)") auto

declare rfc_acc.simps [simp del]

definition rfc_poly1305 :: "byte list \<Rightarrow> byte list \<Rightarrow> byte list" where
  "rfc_poly1305 msg key = le_bytes 16 (rfc_acc (rfc_r key) msg 0 + le_nat (drop 16 key))"

subsection \<open>Bytes and words\<close>

lemma le_nat_less: "le_nat bs < 256 ^ length bs"
proof (induction bs)
  case (Cons b bs)
  have "unat b < 256" using unsigned_less [of b] by simp
  with Cons show ?case by simp
qed simp

lemma le_nat_append: "le_nat (xs @ ys) = le_nat xs + 256 ^ length xs * le_nat ys"
  by (induction xs) (simp_all add: algebra_simps)

lemma le_nat_take: "le_nat (take n bs) = le_nat bs mod 256 ^ n"
proof (cases "n \<le> length bs")
  case True
  have "le_nat bs = le_nat (take n bs) + 256 ^ n * le_nat (drop n bs)"
    using le_nat_append [of "take n bs" "drop n bs"] True by simp
  moreover have "le_nat (take n bs) < 256 ^ n" using le_nat_less [of "take n bs"] True by simp
  ultimately show ?thesis by simp
next
  case False
  then have "256 ^ length bs \<le> (256 :: nat) ^ n" by (intro power_increasing) auto
  then have "le_nat bs < 256 ^ n" using le_nat_less [of bs] by linarith
  with False show ?thesis by simp
qed

lemma le_nat_drop: "le_nat (drop n bs) = le_nat bs div 256 ^ n"
proof (cases "n \<le> length bs")
  case True
  have "le_nat bs = le_nat (take n bs) + 256 ^ n * le_nat (drop n bs)"
    using le_nat_append [of "take n bs" "drop n bs"] True by simp
  moreover have "le_nat (take n bs) < 256 ^ n" using le_nat_less [of "take n bs"] True by simp
  ultimately show ?thesis by simp
next
  case False
  then have "256 ^ length bs \<le> (256 :: nat) ^ n" by (intro power_increasing) auto
  then have "le_nat bs < 256 ^ n" using le_nat_less [of bs] by linarith
  with False show ?thesis by simp
qed

lemma le_nat_zeros [simp]: "le_nat (replicate n 0) = 0"
  by (induction n) simp_all

lemma le_bytes_append: "le_bytes (m + n) k = le_bytes m k @ le_bytes n (k div 256 ^ m)"
  by (induction m arbitrary: k) (simp_all add: div_mult2_eq)

lemma LE_word:
  fixes b0 b1 b2 b3 :: byte
  shows "ucast b0 OR push_bit 8 (ucast b1) OR push_bit 16 (ucast b2) OR push_bit 24 (ucast b3) =
    (of_nat (le_nat [b0, b1, b2, b3]) :: w32)"
proof -
  have or_plus: "x OR y = x + y" if "\<And>n. bit x n \<Longrightarrow> bit y n \<Longrightarrow> False" for x y :: w32
    using that by (intro disjunctive_add_eq_or [symmetric]) (auto simp: bit_eq_iff bit_simps)
  have b: "n < 8" if "bit b n" for b :: byte and n using bit_imp_le_length [OF that] by simp
  have "push_bit 16 (ucast b2) OR push_bit 24 (ucast b3) = push_bit 16 (ucast b2) + (push_bit 24 (ucast b3) :: w32)"
    by (rule or_plus) (auto simp: bit_simps dest!: b)
  moreover have "push_bit 8 (ucast b1) OR (push_bit 16 (ucast b2) OR push_bit 24 (ucast b3)) =
      push_bit 8 (ucast b1) + ((push_bit 16 (ucast b2) OR push_bit 24 (ucast b3)) :: w32)"
    by (rule or_plus) (auto simp: bit_simps dest!: b)
  moreover have "ucast b0 OR (push_bit 8 (ucast b1) OR (push_bit 16 (ucast b2) OR push_bit 24 (ucast b3))) =
      ucast b0 + ((push_bit 8 (ucast b1) OR (push_bit 16 (ucast b2) OR push_bit 24 (ucast b3))) :: w32)"
    by (rule or_plus) (auto simp: bit_simps dest!: b)
  ultimately show ?thesis
    by (simp add: push_bit_eq_mult algebra_simps or.assoc)
qed

lemma LE_Uint32_of_nat:
  assumes "i + 4 \<le> length b"
  shows "LE_Uint32 b i = of_nat (le_nat b div 256 ^ i)"
proof -
  have "drop i b = b ! i # b ! (i + 1) # b ! (i + 2) # b ! (i + 3) # drop (i + 4) b"
    using assms by (simp add: Cons_nth_drop_Suc numeral_eq_Suc)
  then have "take 4 (drop i b) = [b ! i, b ! (i + 1), b ! (i + 2), b ! (i + 3)]" by simp
  then have "LE_Uint32 b i = of_nat (le_nat (take 4 (drop i b)))"
    by (simp only: LE_Uint32_def LE_word)
  also have "\<dots> = of_nat (le_nat b div 256 ^ i)"
    by (simp add: le_nat_take le_nat_drop word_of_nat_eq_iff take_bit_eq_mod)
  finally show ?thesis .
qed

text \<open>Words as natural numbers: cast, shift and mask are remainder and quotient.\<close>

lemma bit_of_nat_word: "bit (of_nat k :: 'a::len word) n \<longleftrightarrow> n < LENGTH('a) \<and> bit k n"
proof -
  have "(of_nat k :: 'a word) = word_of_int (int k)" by simp
  then show ?thesis by (simp only: bit_word_of_int_iff bit_of_nat_iff_bit)
qed

lemma bit_less_nat: "(k :: nat) < 2 ^ m \<Longrightarrow> bit k n \<Longrightarrow> n < m"
  by (metis bit_take_bit_iff take_bit_nat_eq_self)

lemmas word_bits = bit_of_nat_word bit_simps bit_drop_bit_eq

lemma byte_of_word: "n \<le> 24 \<Longrightarrow> ucast (drop_bit n (of_nat k :: w32)) = (of_nat (k div 2 ^ n) :: byte)"
  by (rule bit_word_eqI) (simp add: word_bits flip: drop_bit_eq_div)

lemma word_of_w64: "ucast (of_nat k :: w64) = (of_nat k :: w32)"
  by (rule bit_word_eqI) (simp add: word_bits)

lemma w64_of_word: "k < 2 ^ 32 \<Longrightarrow> ucast (of_nat k :: w32) = (of_nat k :: w64)"
  using bit_less_nat [of k 32] by (intro bit_word_eqI) (auto simp: word_bits)

lemma shift_w64: "k < 2 ^ 64 \<Longrightarrow> drop_bit n (of_nat k :: w64) = of_nat (k div 2 ^ n)"
  using bit_less_nat [of k 64] by (intro bit_word_eqI) (auto simp: word_bits simp flip: drop_bit_eq_div)

lemma shift_w32: "k < 2 ^ 32 \<Longrightarrow> drop_bit n (of_nat k :: w32) = of_nat (k div 2 ^ n)"
  using bit_less_nat [of k 32] by (intro bit_word_eqI) (auto simp: word_bits simp flip: drop_bit_eq_div)

lemma mask_w32: "(of_nat k :: w32) AND 0x3ffffff = of_nat (k mod 2 ^ 26)"
proof -
  have mask: "(0x3ffffff :: w32) = mask 26" by (simp add: mask_eq_exp_minus_1)
  show ?thesis unfolding mask take_bit_eq_mod [symmetric]
    by (rule bit_word_eqI) (auto simp: word_bits)
qed

lemma LE_PutUint32_of_nat: "LE_PutUint32 (of_nat k) = le_bytes 4 k"
proof -
  have four: "4 = Suc (Suc (Suc (Suc 0)))" by simp
  have "k div 65536 = k div 256 div 256" "k div 16777216 = k div 256 div 256 div 256"
    using div_mult2_eq [of k 256 256] div_mult2_eq [of k 65536 256] by simp_all
  then show ?thesis
    using byte_of_word [of 0 k] byte_of_word [of 8 k] byte_of_word [of 16 k] byte_of_word [of 24 k]
    unfolding LE_PutUint32_def four by simp
qed

subsection \<open>Limbs as natural numbers\<close>

type_synonym nlimbs = "nat \<times> nat \<times> nat \<times> nat \<times> nat"

fun wlimbs :: "nlimbs \<Rightarrow> limbs" where
  "wlimbs (a0, a1, a2, a3, a4) = (of_nat a0, of_nat a1, of_nat a2, of_nat a3, of_nat a4)"

fun lval :: "nlimbs \<Rightarrow> nat" where
  "lval (a0, a1, a2, a3, a4) = a0 + 2 ^ 26 * a1 + 2 ^ 52 * a2 + 2 ^ 78 * a3 + 2 ^ 104 * a4"

text \<open>The limbs of a number below \<open>2 ^ 130\<close>.\<close>

definition limbs_of :: "nat \<Rightarrow> nlimbs" where
  "limbs_of x = (x mod 2 ^ 26, x div 2 ^ 26 mod 2 ^ 26, x div 2 ^ 52 mod 2 ^ 26, x div 2 ^ 78 mod 2 ^ 26, x div 2 ^ 104)"

lemma lval_limbs_of: "lval (limbs_of x) = x"
proof -
  have q: "x div 2 ^ 52 = x div 2 ^ 26 div 2 ^ 26" "x div 2 ^ 78 = x div 2 ^ 26 div 2 ^ 26 div 2 ^ 26"
    "x div 2 ^ 104 = x div 2 ^ 26 div 2 ^ 26 div 2 ^ 26 div 2 ^ 26"
    by (simp_all flip: div_mult2_eq)
  define y1 y2 y3 where "y1 = x div 2 ^ 26" and "y2 = y1 div 2 ^ 26" and "y3 = y2 div 2 ^ 26"
  have "x = x mod 2 ^ 26 + 2 ^ 26 * y1" "y1 = y1 mod 2 ^ 26 + 2 ^ 26 * y2"
    "y2 = y2 mod 2 ^ 26 + 2 ^ 26 * y3" "y3 = y3 mod 2 ^ 26 + 2 ^ 26 * (y3 div 2 ^ 26)"
    by (simp_all only: y1_def y2_def y3_def mod_mult_div_eq)
  moreover have "a + 2 ^ 26 * b + 2 ^ 52 * c + 2 ^ 78 * d + 2 ^ 104 * e = x"
    if "x = a + 2 ^ 26 * z" "z = b + 2 ^ 26 * u" "u = c + 2 ^ 26 * v" "v = d + 2 ^ 26 * e" for a b c d e z u v :: nat
    using that by simp
  ultimately show ?thesis
    unfolding limbs_of_def lval.simps q y1_def [symmetric] y2_def [symmetric] y3_def [symmetric] by blast
qed

lemma LE_and:
  assumes "i + 4 \<le> length b" "m < 2 ^ (32 - s)"
  shows "drop_bit s (LE_Uint32 b i) AND of_nat m = of_nat ((le_nat b div 2 ^ (8 * i + s)) AND m)"
proof -
  have "(256 :: nat) ^ i = 2 ^ (8 * i)" by (simp add: power_mult)
  then have "LE_Uint32 b i = of_nat (drop_bit (8 * i) (le_nat b))"
    using LE_Uint32_of_nat [OF assms(1)] by (simp add: drop_bit_eq_div)
  moreover have "n + s < 32" if "bit m n" for n using bit_less_nat [OF assms(2) that] by linarith
  ultimately show ?thesis unfolding drop_bit_eq_div [symmetric]
    by (intro bit_word_eqI) (auto simp: word_bits add.assoc add.commute [of s])
qed

lemma nat_and_mask: "(k :: nat) AND 67108863 = k mod 67108864"
proof -
  have "(67108863 :: nat) = mask 26" by (simp add: mask_eq_exp_minus_1)
  then show ?thesis using take_bit_eq_mod [of 26 k] by (simp add: take_bit_eq_mask)
qed

lemma LE_limb:
  assumes "i + 4 \<le> length b" "s \<le> 6" "8 * i + s = n"
  shows "drop_bit s (LE_Uint32 b i) AND 0x3ffffff = of_nat (le_nat b div 2 ^ n mod 2 ^ 26)"
proof -
  have "(2 :: nat) ^ 26 \<le> 2 ^ (32 - s)" using assms(2) by (intro power_increasing) auto
  then have "(0x3ffffff :: nat) < 2 ^ (32 - s)" by simp
  then show ?thesis using LE_and [OF assms(1), of "0x3ffffff" s] assms(3) by (simp add: nat_and_mask)
qed

lemma LE_top:
  assumes "length b = 16" "hb = 0 \<or> hb = 2 ^ 24"
  shows "drop_bit 8 (LE_Uint32 b 12) OR of_nat hb = of_nat (le_nat b div 2 ^ 104 + hb)"
proof -
  let ?k = "le_nat b div 2 ^ 104"
  have "le_nat b < 2 ^ 128" using le_nat_less [of b] assms(1) by simp
  then have k: "?k < 2 ^ 24" by (simp add: div_less_iff_less_mult)
  have "le_nat b div 2 ^ 96 < 2 ^ 32" using \<open>le_nat b < 2 ^ 128\<close> by (simp add: div_less_iff_less_mult)
  then have "drop_bit 8 (LE_Uint32 b 12) = of_nat (le_nat b div 2 ^ 96 div 2 ^ 8)"
    using LE_Uint32_of_nat [of 12 b] shift_w32 [of "le_nat b div 2 ^ 96" 8] assms(1) by simp
  then have "drop_bit 8 (LE_Uint32 b 12) = of_nat ?k" by (simp flip: div_mult2_eq)
  moreover have "n = 24" if "bit (2 ^ 24 :: nat) n" for n using that by (simp only: bit_exp_iff)
  then have "(of_nat ?k :: w32) AND of_nat hb = 0"
    using assms(2) bit_less_nat [OF k] by (intro bit_word_eqI) (auto simp: word_bits)
  ultimately show ?thesis using disjunctive_add_eq_or [of "of_nat ?k :: w32" "of_nat hb"] by simp
qed

fun nadd :: "nlimbs \<Rightarrow> nlimbs \<Rightarrow> nlimbs" where
  "nadd (a0, a1, a2, a3, a4) (b0, b1, b2, b3, b4) = (a0 + b0, a1 + b1, a2 + b2, a3 + b3, a4 + b4)"

lemma lval_nadd: "lval (nadd a b) = lval a + lval b"
  by (cases a; cases b) (simp add: algebra_simps)

definition block_limbs :: "nat \<Rightarrow> nat \<Rightarrow> nlimbs" where
  "block_limbs hb n = nadd (limbs_of n) (0, 0, 0, 0, hb)"

lemma lval_block_limbs: "lval (block_limbs hb n) = n + 2 ^ 104 * hb"
  by (simp add: block_limbs_def lval_nadd lval_limbs_of)

lemma poly_add_limbs:
  assumes "length b = 16" "hb = 0 \<or> hb = 2 ^ 24"
  shows "poly_add (of_nat hb) b (wlimbs a) = wlimbs (nadd a (block_limbs hb (le_nat b)))"
proof -
  note limb = LE_limb [of 0 b 0 0] LE_limb [of 3 b 2 26] LE_limb [of 6 b 4 52] LE_limb [of 9 b 6 78] LE_top [OF assms]
  show ?thesis using limb assms(1)
    by (cases a) (simp add: poly_add_def block_limbs_def limbs_of_def)
qed

subsection \<open>Multiplication\<close>

text \<open>The same computation without any width: the five columns with their carries, then the top carry folded back.\<close>

definition ncols :: "nlimbs \<Rightarrow> nlimbs \<Rightarrow> nlimbs" where
  "ncols r h = (case r of (r0, r1, r2, r3, r4) \<Rightarrow> case h of (h0, h1, h2, h3, h4) \<Rightarrow>
     let d0 = h0 * r0 + h1 * (r4 * 5) + h2 * (r3 * 5) + h3 * (r2 * 5) + h4 * (r1 * 5);
       d1 = d0 div 2 ^ 26 + h0 * r1 + h1 * r0 + h2 * (r4 * 5) + h3 * (r3 * 5) + h4 * (r2 * 5);
       d2 = d1 div 2 ^ 26 + h0 * r2 + h1 * r1 + h2 * r0 + h3 * (r4 * 5) + h4 * (r3 * 5);
       d3 = d2 div 2 ^ 26 + h0 * r3 + h1 * r2 + h2 * r1 + h3 * r0 + h4 * (r4 * 5);
       d4 = d3 div 2 ^ 26 + h0 * r4 + h1 * r3 + h2 * r2 + h3 * r1 + h4 * r0
     in (d0, d1, d2, d3, d4))"

definition nfold :: "nlimbs \<Rightarrow> nlimbs" where
  "nfold d = (case d of (d0, d1, d2, d3, d4) \<Rightarrow>
     let k = d0 mod 2 ^ 26 + d4 div 2 ^ 26 * 5
     in (k mod 2 ^ 26, d1 mod 2 ^ 26 + k div 2 ^ 26, d2 mod 2 ^ 26, d3 mod 2 ^ 26, d4 mod 2 ^ 26))"

definition nmul :: "nlimbs \<Rightarrow> nlimbs \<Rightarrow> nlimbs" where
  "nmul r h = nfold (ncols r h)"

fun below :: "nat \<Rightarrow> nlimbs \<Rightarrow> bool" where
  "below m (a0, a1, a2, a3, a4) \<longleftrightarrow> a0 < m \<and> a1 < m \<and> a2 < m \<and> a3 < m \<and> a4 < m"

fun reduced :: "nlimbs \<Rightarrow> bool" where
  "reduced (a0, a1, a2, a3, a4) \<longleftrightarrow> a0 < 2 ^ 26 \<and> a1 < 2 ^ 26 + 2 ^ 6 \<and> a2 < 2 ^ 26 \<and> a3 < 2 ^ 26 \<and> a4 < 2 ^ 26"

lemma ncols_eqs:
  assumes "ncols (r0, r1, r2, r3, r4) (h0, h1, h2, h3, h4) = (d0, d1, d2, d3, d4)"
  shows "d0 = h0 * r0 + h1 * (r4 * 5) + h2 * (r3 * 5) + h3 * (r2 * 5) + h4 * (r1 * 5)"
    and "d1 = d0 div 2 ^ 26 + h0 * r1 + h1 * r0 + h2 * (r4 * 5) + h3 * (r3 * 5) + h4 * (r2 * 5)"
    and "d2 = d1 div 2 ^ 26 + h0 * r2 + h1 * r1 + h2 * r0 + h3 * (r4 * 5) + h4 * (r3 * 5)"
    and "d3 = d2 div 2 ^ 26 + h0 * r3 + h1 * r2 + h2 * r1 + h3 * r0 + h4 * (r4 * 5)"
    and "d4 = d3 div 2 ^ 26 + h0 * r4 + h1 * r3 + h2 * r2 + h3 * r1 + h4 * r0"
  using assms unfolding ncols_def Let_def prod.case prod.inject by metis+

text \<open>The columns fit into 64 bits with room to spare, and the top one is small enough for 32 bits after the shift.\<close>

lemma ncols_small:
  assumes r: "below (2 ^ 26) (r0, r1, r2, r3, r4)" and h: "below (2 ^ 27 + 2 ^ 7) (h0, h1, h2, h3, h4)"
    and d: "ncols (r0, r1, r2, r3, r4) (h0, h1, h2, h3, h4) = (d0, d1, d2, d3, d4)"
  shows "below (2 ^ 58) (d0, d1, d2, d3, d4) \<and> d4 div 2 ^ 26 < 2 ^ 29 + 2 ^ 28"
proof -
  have p: "x * y \<le> (2 ^ 27 + 2 ^ 7) * 2 ^ 26" "x * (y * 5) \<le> (2 ^ 27 + 2 ^ 7) * (2 ^ 26 * 5)"
    if "x < 2 ^ 27 + 2 ^ 7" "y < 2 ^ 26" for x y :: nat
    using that by (intro mult_le_mono; simp)+
  note cols = ncols_eqs [OF d]
  have d0: "d0 < 2 ^ 58"
    using p(1) [of h0 r0] p(2) [of h1 r4] p(2) [of h2 r3] p(2) [of h3 r2] p(2) [of h4 r1] r h by (simp add: cols(1))
  then have d1: "d1 < 2 ^ 58"
    using p(1) [of h0 r1] p(1) [of h1 r0] p(2) [of h2 r4] p(2) [of h3 r3] p(2) [of h4 r2] r h by (simp add: cols(2))
  then have d2: "d2 < 2 ^ 58"
    using p(1) [of h0 r2] p(1) [of h1 r1] p(1) [of h2 r0] p(2) [of h3 r4] p(2) [of h4 r3] r h by (simp add: cols(3))
  then have d3: "d3 < 2 ^ 58"
    using p(1) [of h0 r3] p(1) [of h1 r2] p(1) [of h2 r1] p(1) [of h3 r0] p(2) [of h4 r4] r h by (simp add: cols(4))
  then have "d4 div 2 ^ 26 < 2 ^ 29 + 2 ^ 28"
    using p(1) [of h0 r4] p(1) [of h1 r3] p(1) [of h2 r2] p(1) [of h3 r1] p(1) [of h4 r0] r h by (simp add: cols(5))
  moreover from this have "d4 < 2 ^ 58" by simp
  ultimately show ?thesis using d0 d1 d2 d3 by simp
qed

lemma carry_out_small:
  assumes "d4 div 2 ^ 26 < 2 ^ 29 + 2 ^ 28"
  shows "(d0 mod 2 ^ 26 + d4 div 2 ^ 26 * 5 :: nat) < 2 ^ 32"
proof -
  have "d0 mod 2 ^ 26 < 2 ^ 26" by simp
  with assms show ?thesis by simp
qed

lemma nfold_reduced: "d4 div 2 ^ 26 < 2 ^ 29 + 2 ^ 28 \<Longrightarrow> reduced (nfold (d0, d1, d2, d3, d4))"
proof -
  assume "d4 div 2 ^ 26 < 2 ^ 29 + 2 ^ 28"
  then have "(d0 mod 2 ^ 26 + d4 div 2 ^ 26 * 5) div 2 ^ 26 < 2 ^ 6"
    using carry_out_small [of d4 d0] by (simp add: div_less_iff_less_mult)
  moreover have "d1 mod 2 ^ 26 < 2 ^ 26" by simp
  ultimately show ?thesis by (simp add: nfold_def Let_def)
qed

text \<open>No product, sum or carry of the code exceeds its width.\<close>

lemma poly_mul_limbs:
  assumes r: "below (2 ^ 26) (r0, r1, r2, r3, r4)" and h: "below (2 ^ 27 + 2 ^ 7) (h0, h1, h2, h3, h4)"
  shows "poly_mul (of_nat r0, of_nat r1, of_nat r2, of_nat r3, of_nat r4) (wlimbs (h0, h1, h2, h3, h4)) =
    wlimbs (nmul (r0, r1, r2, r3, r4) (h0, h1, h2, h3, h4))"
proof -
  obtain d0 d1 d2 d3 d4 where d: "ncols (r0, r1, r2, r3, r4) (h0, h1, h2, h3, h4) = (d0, d1, d2, d3, d4)"
    by (cases "ncols (r0, r1, r2, r3, r4) (h0, h1, h2, h3, h4)")
  note small = ncols_small [OF r h d]
  note cols = ncols_eqs [OF d]
  define k where "k = d0 mod 2 ^ 26 + d4 div 2 ^ 26 * 5"
  have cast: "ucast (of_nat h0 :: w32) = (of_nat h0 :: w64)" "ucast (of_nat h1 :: w32) = (of_nat h1 :: w64)"
    "ucast (of_nat h2 :: w32) = (of_nat h2 :: w64)" "ucast (of_nat h3 :: w32) = (of_nat h3 :: w64)"
    "ucast (of_nat h4 :: w32) = (of_nat h4 :: w64)"
    using h by (auto intro!: w64_of_word)
  have shift: "drop_bit 26 (of_nat d :: w64) = of_nat (d div 2 ^ 26)" if "d < 2 ^ 58" for d
    using that by (intro shift_w64) simp
  have five: "(5 :: 'a::len word) = of_nat 5" by simp
  have carry: "drop_bit 26 (of_nat k :: w32) = of_nat (k div 2 ^ 26)"
    using small carry_out_small [of d4 d0] unfolding k_def by (intro shift_w32) blast
  have "below (2 ^ 58) (d0, d1, d2, d3, d4)" using small by blast
  then have shifts: "drop_bit 26 (of_nat d0 :: w64) = of_nat (d0 div 2 ^ 26)" "drop_bit 26 (of_nat d1 :: w64) = of_nat (d1 div 2 ^ 26)"
    "drop_bit 26 (of_nat d2 :: w64) = of_nat (d2 div 2 ^ 26)" "drop_bit 26 (of_nat d3 :: w64) = of_nat (d3 div 2 ^ 26)"
    "drop_bit 26 (of_nat d4 :: w64) = of_nat (d4 div 2 ^ 26)"
    by (simp_all only: below.simps shift)
  show ?thesis
    unfolding nmul_def d nfold_def poly_mul_def wlimbs.simps prod.case Let_def cast five of_nat_mult [symmetric] of_nat_add [symmetric]
      cols [symmetric] shifts word_of_w64 mask_w32 k_def [symmetric] carry ..
qed

lemma nmul_reduced:
  assumes "below (2 ^ 26) r" "below (2 ^ 27 + 2 ^ 7) h"
  shows "reduced (nmul r h)"
proof (cases r; cases h; cases "ncols r h")
  fix r0 r1 r2 r3 r4 h0 h1 h2 h3 h4 d0 d1 d2 d3 d4
  assume "r = (r0, r1, r2, r3, r4)" "h = (h0, h1, h2, h3, h4)" "ncols r h = (d0, d1, d2, d3, d4)"
  then show ?thesis using ncols_small assms nfold_reduced by (metis nmul_def)
qed

text \<open>Reducing by \<open>2 ^ 130 \<equiv> 5\<close> while multiplying keeps the residue.\<close>

lemma carry_chain:
  fixes M :: nat
  assumes "e0 = a0 + M * c0" "c0 + e1 = a1 + M * c1" "c1 + e2 = a2 + M * c2" "c2 + e3 = a3 + M * c3" "c3 + e4 = a4 + M * c4"
  shows "a0 + M * a1 + M ^ 2 * a2 + M ^ 3 * a3 + M ^ 4 * a4 + M ^ 5 * c4 =
    e0 + M * e1 + M ^ 2 * e2 + M ^ 3 * e3 + M ^ 4 * e4"
proof -
  have "M * (c0 + e1) = M * (a1 + M * c1)" "M ^ 2 * (c1 + e2) = M ^ 2 * (a2 + M * c2)"
    "M ^ 3 * (c2 + e3) = M ^ 3 * (a3 + M * c3)" "M ^ 4 * (c3 + e4) = M ^ 4 * (a4 + M * c4)"
    using assms by simp_all
  with assms(1) show ?thesis by (simp add: algebra_simps power_numeral_reduce)
qed

lemma lval_nmul: "lval (nmul r h) mod prime_1305 = lval h * lval r mod prime_1305"
proof -
  obtain r0 r1 r2 r3 r4 where r: "r = (r0, r1, r2, r3, r4)" by (cases r)
  obtain h0 h1 h2 h3 h4 where h: "h = (h0, h1, h2, h3, h4)" by (cases h)
  define M :: nat where "M = 2 ^ 26"
  define e0 where "e0 = h0 * r0 + h1 * (r4 * 5) + h2 * (r3 * 5) + h3 * (r2 * 5) + h4 * (r1 * 5)"
  define e1 where "e1 = h0 * r1 + h1 * r0 + h2 * (r4 * 5) + h3 * (r3 * 5) + h4 * (r2 * 5)"
  define e2 where "e2 = h0 * r2 + h1 * r1 + h2 * r0 + h3 * (r4 * 5) + h4 * (r3 * 5)"
  define e3 where "e3 = h0 * r3 + h1 * r2 + h2 * r1 + h3 * r0 + h4 * (r4 * 5)"
  define e4 where "e4 = h0 * r4 + h1 * r3 + h2 * r2 + h3 * r1 + h4 * r0"
  define d1 d2 d3 d4 where "d1 = e0 div M + e1" and "d2 = d1 div M + e2" and "d3 = d2 div M + e3" and "d4 = d3 div M + e4"
  define k where "k = e0 mod M + d4 div M * 5"
  define q where "q = h1 * r4 + h2 * r3 + h3 * r2 + h4 * r1 + M * (h2 * r4 + h3 * r3 + h4 * r2) + M ^ 2 * (h3 * r4 + h4 * r3) + M ^ 3 * (h4 * r4)"
  have pow: "lval (a0, a1, a2, a3, a4) = a0 + M * a1 + M ^ 2 * a2 + M ^ 3 * a3 + M ^ 4 * a4" for a0 a1 a2 a3 a4
    by (simp add: M_def)
  have "nmul r h = (k mod M, d1 mod M + k div M, d2 mod M, d3 mod M, d4 mod M)"
    unfolding r h nmul_def nfold_def ncols_def prod.case Let_def M_def k_def d4_def d3_def d2_def d1_def e0_def e1_def e2_def e3_def e4_def
    by (simp only: add.assoc)
  then have "lval (nmul r h) = k mod M + M * (k div M) + M * (d1 mod M) + M ^ 2 * (d2 mod M) + M ^ 3 * (d3 mod M) + M ^ 4 * (d4 mod M)"
    by (simp only: pow distrib_left add.assoc add.commute add.left_commute)
  also have "\<dots> = e0 mod M + 5 * (d4 div M) + M * (d1 mod M) + M ^ 2 * (d2 mod M) + M ^ 3 * (d3 mod M) + M ^ 4 * (d4 mod M)"
    by (simp add: k_def)
  finally have l: "lval (nmul r h) + M ^ 5 * (d4 div M) = e0 + M * e1 + M ^ 2 * e2 + M ^ 3 * e3 + M ^ 4 * e4 + 5 * (d4 div M)"
    using carry_chain [of e0 "e0 mod M" M "e0 div M" e1 "d1 mod M" "d1 div M" e2 "d2 mod M" "d2 div M" e3 "d3 mod M"
        "d3 div M" e4 "d4 mod M" "d4 div M"] by (simp add: d1_def d2_def d3_def d4_def)
  have m: "lval h * lval r + 5 * q = e0 + M * e1 + M ^ 2 * e2 + M ^ 3 * e3 + M ^ 4 * e4 + M ^ 5 * q"
    unfolding r h pow e0_def e1_def e2_def e3_def e4_def q_def by (simp add: algebra_simps power_numeral_reduce)
  have "M ^ 5 = prime_1305 + 5" by (simp add: M_def prime_1305_def)
  with l m have "lval h * lval r = lval (nmul r h) + prime_1305 * (d4 div M + q)"
    by (simp add: algebra_simps)
  then show ?thesis by simp
qed

subsection \<open>The message\<close>

lemma LE_Uint32_take: "i + 4 \<le> n \<Longrightarrow> n \<le> length b \<Longrightarrow> LE_Uint32 (take n b) i = LE_Uint32 b i"
  by (simp add: LE_Uint32_def)

lemma and_limb: "(n AND c) div 2 ^ i mod 2 ^ 26 = n div 2 ^ i AND (c div 2 ^ i mod 2 ^ 26)" for n c :: nat
  unfolding drop_bit_eq_div [symmetric] take_bit_eq_mod [symmetric] by (rule bit_eqI) (auto simp: bit_simps)

lemma and_top: "(n AND c) div 2 ^ i = n div 2 ^ i AND (c div 2 ^ i)" for n c :: nat
  unfolding drop_bit_eq_div [symmetric] by (rule bit_eqI) (auto simp: bit_simps)

fun rlimbs :: "nlimbs \<Rightarrow> w64 \<times> w64 \<times> w64 \<times> w64 \<times> w64" where
  "rlimbs (a0, a1, a2, a3, a4) = (of_nat a0, of_nat a1, of_nat a2, of_nat a3, of_nat a4)"

lemma nat_and_le: "(n AND c :: nat) \<le> c"
  using AND_upper2 [of "int c" "int n"] by (simp flip: of_nat_and_eq)

lemma clamp_limbs:
  "limbs_of (rfc_r key) = (let n = le_nat (take 16 key) in
     (n AND 0x3ffffff, n div 2 ^ 26 AND 0x3ffff03, n div 2 ^ 52 AND 0x3ffc0ff, n div 2 ^ 78 AND 0x3f03fff, n div 2 ^ 104 AND 0x00fffff))"
proof -
  have c: "(0x0ffffffc0ffffffc0ffffffc0fffffff :: nat) mod 2 ^ 26 = 0x3ffffff"
    "(0x0ffffffc0ffffffc0ffffffc0fffffff :: nat) div 2 ^ 26 mod 2 ^ 26 = 0x3ffff03"
    "(0x0ffffffc0ffffffc0ffffffc0fffffff :: nat) div 2 ^ 52 mod 2 ^ 26 = 0x3ffc0ff"
    "(0x0ffffffc0ffffffc0ffffffc0fffffff :: nat) div 2 ^ 78 mod 2 ^ 26 = 0x3f03fff"
    "(0x0ffffffc0ffffffc0ffffffc0fffffff :: nat) div 2 ^ 104 = 0x00fffff" by simp_all
  have and_low: "(n AND c) mod 2 ^ 26 = n AND (c mod 2 ^ 26)" for n c :: nat
    using and_limb [of n c 0] by simp
  show ?thesis unfolding limbs_of_def rfc_r_def Let_def and_limb and_low and_top c ..
qed

lemma poly_r_limbs:
  assumes "length key = 32"
  shows "poly_r key = rlimbs (limbs_of (rfc_r key))" and "below (2 ^ 26) (limbs_of (rfc_r key))"
proof -
  let ?n = "le_nat (take 16 key)"
  have limb: "ucast (drop_bit s (LE_Uint32 key i) AND of_nat m) = (of_nat (?n div 2 ^ (8 * i + s) AND m) :: w64)"
    if "i + 4 \<le> 16" "m < 2 ^ (32 - s)" for i s m
  proof -
    have "m < 2 ^ 32" using that(2) by (rule order.strict_trans2) (rule power_increasing, simp_all)
    then have "?n div 2 ^ (8 * i + s) AND m < 2 ^ 32" by (rule order.strict_trans1 [OF nat_and_le])
    then show ?thesis
      using LE_and [of i "take 16 key" m s] LE_Uint32_take [of i 16 key] that assms by (simp add: w64_of_word)
  qed
  show "poly_r key = rlimbs (limbs_of (rfc_r key))"
    using limb [of 0 "0x3ffffff" 0] limb [of 3 "0x3ffff03" 2] limb [of 6 "0x3ffc0ff" 4] limb [of 9 "0x3f03fff" 6]
      limb [of 12 "0x00fffff" 8] by (simp add: poly_r_def clamp_limbs Let_def)
  show "below (2 ^ 26) (limbs_of (rfc_r key))"
    unfolding clamp_limbs Let_def by (simp add: order.strict_trans1 [OF nat_and_le])
qed

text \<open>One block: add, multiply, reduce.\<close>

lemma block_step:
  assumes r: "below (2 ^ 26) r" and h: "reduced h" and b: "length b = 16" "hb = 0 \<or> hb = 2 ^ 24"
    and n: "n = le_nat b + 2 ^ 104 * hb" "n < 2 ^ 129"
  obtains h' where "poly_mul (rlimbs r) (poly_add (of_nat hb) b (wlimbs h)) = wlimbs h'" "reduced h'"
    "lval h' mod prime_1305 = (lval h mod prime_1305 + n) * lval r mod prime_1305"
proof -
  let ?s = "nadd h (block_limbs hb (le_nat b))"
  have "le_nat b div 2 ^ 104 + hb = n div 2 ^ 104" by (simp add: n)
  also have "\<dots> < 2 ^ 25" using n(2) by (simp add: div_less_iff_less_mult)
  finally have top: "le_nat b div 2 ^ 104 + hb < 2 ^ 25" .
  have limb: "a + x mod 2 ^ 26 < 2 ^ 27 + 2 ^ 7" if "a < 2 ^ 26 + 2 ^ 6" for a x :: nat
  proof -
    have "x mod 2 ^ 26 < 2 ^ 26" by simp
    with that show ?thesis by simp
  qed
  obtain h0 h1 h2 h3 h4 where hs: "h = (h0, h1, h2, h3, h4)" by (cases h)
  have "below (2 ^ 27 + 2 ^ 7) ?s"
    using h top limb [of h0 "le_nat b"] limb [of h1 "le_nat b div 2 ^ 26"] limb [of h2 "le_nat b div 2 ^ 52"]
      limb [of h3 "le_nat b div 2 ^ 78"] by (simp add: hs block_limbs_def limbs_of_def)
  then have m: "poly_mul (rlimbs r) (wlimbs ?s) = wlimbs (nmul r ?s)" "reduced (nmul r ?s)"
    using poly_mul_limbs nmul_reduced r by (cases r; cases ?s; fastforce)+
  have "lval (nmul r ?s) mod prime_1305 = (lval h + n) * lval r mod prime_1305"
    by (simp add: lval_nmul lval_nadd lval_block_limbs n(1))
  also have "\<dots> = (lval h mod prime_1305 + n) * lval r mod prime_1305"
    by (metis mod_add_left_eq mod_mult_left_eq)
  finally show thesis using that [of "nmul r ?s"] m poly_add_limbs [OF b] by simp
qed

lemma poly_blocks_limbs:
  assumes "below (2 ^ 26) r" "reduced h"
  shows "\<exists>h'. poly_blocks (rlimbs r) msg (wlimbs h) = wlimbs h' \<and> reduced h' \<and>
    lval h' mod prime_1305 = rfc_acc (lval r) msg (lval h mod prime_1305)"
  using assms(2)
proof (induction msg arbitrary: h rule: length_induct)
  case (1 msg)
  consider "msg = []" | "msg \<noteq> []" "length msg < 16" | "16 \<le> length msg" by linarith
  then show ?case
  proof cases
    case 1
    then show ?thesis using "1.prems"
      by (intro exI [of _ h]) (simp add: poly_blocks.simps [of _ "[]"] rfc_acc.simps [of _ "[]"] TagSize_def)
  next
    case 2
    let ?b = "msg @ [1] @ replicate (16 - length msg - 1) 0"
    let ?n = "le_nat (msg @ [1])"
    have n: "?n = le_nat ?b + 2 ^ 104 * 0" by (simp add: le_nat_append)
    have "?n < 256 ^ length (msg @ [1])" by (rule le_nat_less)
    also have "\<dots> \<le> 256 ^ 16" using 2 by (intro power_increasing) auto
    finally have lt: "?n < 2 ^ 129" by simp
    have len: "length ?b = 16" using 2 by simp
    obtain h' where h': "poly_mul (rlimbs r) (poly_add (of_nat 0) ?b (wlimbs h)) = wlimbs h'" "reduced h'"
      "lval h' mod prime_1305 = (lval h mod prime_1305 + ?n) * lval r mod prime_1305"
      by (rule block_step [OF assms(1) "1.prems" len disjI1 [OF refl] n lt])
    have "rfc_acc (lval r) msg (lval h mod prime_1305) = (lval h mod prime_1305 + ?n) * lval r mod prime_1305"
      using 2 by (simp add: rfc_acc.simps [of _ msg] rfc_acc.simps [of _ "[]"])
    moreover have "poly_blocks (rlimbs r) msg (wlimbs h) = wlimbs h'"
      using 2 h'(1) by (simp add: poly_blocks.simps [of _ msg] TagSize_def)
    ultimately show ?thesis using h' by (intro exI [of _ h']) simp
  next
    case 3
    let ?n = "le_nat (take 16 msg @ [1])"
    have n: "?n = le_nat (take 16 msg) + 2 ^ 104 * 2 ^ 24" using 3 by (simp add: le_nat_append)
    have "le_nat (take 16 msg) < 256 ^ 16" using le_nat_less [of "take 16 msg"] 3 by simp
    then have lt: "?n < 2 ^ 129" unfolding n by simp
    have len: "length (take 16 msg) = 16" using 3 by simp
    obtain h' where h': "poly_mul (rlimbs r) (poly_add (of_nat (2 ^ 24)) (take 16 msg) (wlimbs h)) = wlimbs h'" "reduced h'"
      "lval h' mod prime_1305 = (lval h mod prime_1305 + ?n) * lval r mod prime_1305"
      by (rule block_step [OF assms(1) "1.prems" len disjI2 [OF refl] n lt])
    have "poly_add hb msg h = poly_add hb (take 16 msg) h" for hb h
      using 3 by (simp add: poly_add_def LE_Uint32_take)
    then have "poly_blocks (rlimbs r) msg (wlimbs h) = poly_blocks (rlimbs r) (drop 16 msg) (wlimbs h')"
      using 3 h'(1) by (simp add: poly_blocks.simps [of _ msg] TagSize_def)
    moreover have "rfc_acc (lval r) msg (lval h mod prime_1305) = rfc_acc (lval r) (drop 16 msg) (lval h' mod prime_1305)"
      using 3 h'(3) by (subst rfc_acc.simps) auto
    ultimately show ?thesis using "1.IH" [rule_format, of "drop 16 msg" h'] h'(2) 3 by simp
  qed
qed

subsection \<open>The final reduction\<close>

definition ncarry :: "nlimbs \<Rightarrow> nlimbs" where
  "ncarry h = (case h of (h0, h1, h2, h3, h4) \<Rightarrow>
     let h2 = h2 + h1 div 2 ^ 26; h3 = h3 + h2 div 2 ^ 26; h4 = h4 + h3 div 2 ^ 26; h0 = h0 + 5 * (h4 div 2 ^ 26)
     in (h0 mod 2 ^ 26, h1 mod 2 ^ 26 + h0 div 2 ^ 26, h2 mod 2 ^ 26, h3 mod 2 ^ 26, h4 mod 2 ^ 26))"

lemma div_mod_carry:
  assumes "x < 2 * m"
  shows "x div m = (if x < m then 0 else 1 :: nat)" "x mod m = (if x < m then x else x - m)"
proof -
  show "x div m = (if x < m then 0 else 1 :: nat)" using assms by (auto intro!: div_nat_eqI)
  then show "x mod m = (if x < m then x else x - m)" using assms by (simp add: modulo_nat_def split: if_splits)
qed

lemma poly_carry_limbs:
  assumes "reduced h"
  shows "poly_carry (wlimbs h) = wlimbs (ncarry h)"
proof -
  obtain h0 h1 h2 h3 h4 where h: "h = (h0, h1, h2, h3, h4)" by (cases h)
  define k2 k3 k4 k0 where "k2 = h2 + h1 div 2 ^ 26" and "k3 = h3 + k2 div 2 ^ 26"
    and "k4 = h4 + k3 div 2 ^ 26" and "k0 = h0 + 5 * (k4 div 2 ^ 26)"
  have "h1 < 2 ^ 32" "k2 < 2 ^ 32" "k3 < 2 ^ 32" "k4 < 2 ^ 32" "k0 < 2 ^ 32"
    using assms by (auto simp: h k2_def k3_def k4_def k0_def)
  note shift = this [THEN shift_w32]
  have w: "(of_nat h2 :: w32) + of_nat (h1 div 2 ^ 26) = of_nat k2" "(of_nat h3 :: w32) + of_nat (k2 div 2 ^ 26) = of_nat k3"
    "(of_nat h4 :: w32) + of_nat (k3 div 2 ^ 26) = of_nat k4" "(of_nat h0 :: w32) + 5 * of_nat (k4 div 2 ^ 26) = of_nat k0"
    "(of_nat (h1 mod 2 ^ 26) :: w32) + of_nat (k0 div 2 ^ 26) = of_nat (h1 mod 2 ^ 26 + k0 div 2 ^ 26)"
    by (simp_all add: k2_def k3_def k4_def k0_def)
  show ?thesis
    unfolding h poly_carry_def ncarry_def wlimbs.simps prod.case Let_def shift w mask_w32
      k2_def [symmetric] k3_def [symmetric] k4_def [symmetric] k0_def [symmetric] ..
qed

lemma ncarry_value:
  assumes "reduced h"
  shows "below (2 ^ 26) (ncarry h)" "lval (ncarry h) mod prime_1305 = lval h mod prime_1305"
proof -
  obtain h0 h1 h2 h3 h4 where h: "h = (h0, h1, h2, h3, h4)" by (cases h)
  define k2 k3 k4 k0 where "k2 = h2 + h1 div 2 ^ 26" and "k3 = h3 + k2 div 2 ^ 26"
    and "k4 = h4 + k3 div 2 ^ 26" and "k0 = h0 + 5 * (k4 div 2 ^ 26)"
  have n: "ncarry h = (k0 mod 2 ^ 26, h1 mod 2 ^ 26 + k0 div 2 ^ 26, k2 mod 2 ^ 26, k3 mod 2 ^ 26, k4 mod 2 ^ 26)"
    unfolding h ncarry_def prod.case Let_def k2_def k3_def k4_def k0_def ..
  have b: "h1 < 2 * 2 ^ 26" using assms by (simp add: h)
  then have b2: "k2 < 2 * 2 ^ 26" using assms by (simp add: h k2_def div_mod_carry)
  then have b3: "k3 < 2 * 2 ^ 26" using assms by (simp add: h k3_def div_mod_carry)
  then have b4: "k4 < 2 * 2 ^ 26" using assms by (simp add: h k4_def div_mod_carry)
  then have b0: "k0 < 2 * 2 ^ 26" using assms by (simp add: h k0_def div_mod_carry)
  have "h1 mod 2 ^ 26 + k0 div 2 ^ 26 < 2 ^ 26"
    using assms unfolding k0_def k4_def k3_def k2_def h
    by (auto simp: div_mod_carry)
  then show "below (2 ^ 26) (ncarry h)" by (simp add: n)
  have "h0 + 2 ^ 26 * (h1 mod 2 ^ 26) + (2 ^ 26) ^ 2 * (k2 mod 2 ^ 26) + (2 ^ 26) ^ 3 * (k3 mod 2 ^ 26) +
      (2 ^ 26) ^ 4 * (k4 mod 2 ^ 26) + (2 ^ 26) ^ 5 * (k4 div 2 ^ 26) =
      h0 + 2 ^ 26 * h1 + (2 ^ 26) ^ 2 * h2 + (2 ^ 26) ^ 3 * h3 + (2 ^ 26) ^ 4 * h4"
    by (rule carry_chain [of h0 h0 _ 0 h1 _ "h1 div 2 ^ 26" h2 _ "k2 div 2 ^ 26" h3 _ "k3 div 2 ^ 26"])
      (simp_all only: mod_mult_div_eq k2_def [symmetric] k3_def [symmetric] k4_def [symmetric] add.commute [of _ h2]
        add.commute [of _ h3] add.commute [of _ h4] mult_0_right add_0_right add_0)
  moreover have "k0 mod 2 ^ 26 + 2 ^ 26 * (k0 div 2 ^ 26) = h0 + 5 * (k4 div 2 ^ 26)" by (simp only: mod_mult_div_eq k0_def)
  ultimately have "lval (ncarry h) + 2 ^ 130 * (k4 div 2 ^ 26) = lval h + 5 * (k4 div 2 ^ 26)"
    unfolding n unfolding h lval.simps by (simp add: algebra_simps)
  then have "lval h = lval (ncarry h) + prime_1305 * (k4 div 2 ^ 26)" by (simp add: prime_1305_def)
  then show "lval (ncarry h) mod prime_1305 = lval h mod prime_1305" by simp
qed

lemma limbs_of_lval:
  assumes "below (2 ^ 26) a"
  shows "limbs_of (lval a) = a"
proof -
  obtain a0 a1 a2 a3 a4 where a: "a = (a0, a1, a2, a3, a4)" by (cases a)
  have step: "(x + 2 ^ 26 * y) mod 2 ^ 26 = x" "(x + 2 ^ 26 * y) div 2 ^ 26 = y" if "x < 2 ^ 26" for x y :: nat
    using that by simp_all
  define x3 x2 x1 where "x3 = a3 + 2 ^ 26 * a4" and "x2 = a2 + 2 ^ 26 * x3" and "x1 = a1 + 2 ^ 26 * x2"
  have v: "lval a = a0 + 2 ^ 26 * x1" by (simp add: a x1_def x2_def x3_def)
  have q: "v div 2 ^ 52 = v div 2 ^ 26 div 2 ^ 26" "v div 2 ^ 78 = v div 2 ^ 26 div 2 ^ 26 div 2 ^ 26"
    "v div 2 ^ 104 = v div 2 ^ 26 div 2 ^ 26 div 2 ^ 26 div 2 ^ 26" for v :: nat
    by (simp_all flip: div_mult2_eq)
  have b: "a0 < 2 ^ 26" "a1 < 2 ^ 26" "a2 < 2 ^ 26" "a3 < 2 ^ 26" using assms by (simp_all add: a)
  have d: "lval a div 2 ^ 26 = x1" "x1 div 2 ^ 26 = x2" "x2 div 2 ^ 26 = x3" "x3 div 2 ^ 26 = a4"
    "lval a mod 2 ^ 26 = a0" "x1 mod 2 ^ 26 = a1" "x2 mod 2 ^ 26 = a2" "x3 mod 2 ^ 26 = a3"
    unfolding v unfolding x1_def x2_def x3_def using b by (simp_all only: step)
  show ?thesis unfolding limbs_of_def q d unfolding a ..
qed

lemma lval_less: "below (2 ^ 26) a \<Longrightarrow> lval a < 2 ^ 130"
  by (cases a) simp

text \<open>Selecting between \<open>h\<close> and \<open>h - p\<close>: the code adds 5 with a carry chain, and the sign of the top limb is the mask.\<close>

lemma poly_select_plus5:
  assumes "below (2 ^ 26) h" and h: "h = (h0, h1, h2, h3, h4)"
  obtains u0 u1 u2 u3 t4 where "below (2 ^ 26) (u0, u1, u2, u3, 0)" "t4 \<le> 2 ^ 26" "lval (u0, u1, u2, u3, t4) = lval h + 5"
    "poly_select (wlimbs h) = (let t = of_nat t4 - push_bit 26 1; m = drop_bit 31 t - 1 :: w32 in
      ((of_nat h0 AND NOT m) OR (of_nat u0 AND m), (of_nat h1 AND NOT m) OR (of_nat u1 AND m),
       (of_nat h2 AND NOT m) OR (of_nat u2 AND m), (of_nat h3 AND NOT m) OR (of_nat u3 AND m),
       (of_nat h4 AND NOT m) OR (t AND m)))"
proof
  define t0 t1 t2 t3 t4 where "t0 = h0 + 5" and "t1 = h1 + t0 div 2 ^ 26" and "t2 = h2 + t1 div 2 ^ 26"
    and "t3 = h3 + t2 div 2 ^ 26" and "t4 = h4 + t3 div 2 ^ 26"
  have b0: "t0 < 2 * 2 ^ 26" using assms by (simp add: t0_def)
  then have b1: "t1 < 2 * 2 ^ 26" using assms by (simp add: t1_def div_mod_carry)
  then have b2: "t2 < 2 * 2 ^ 26" using assms by (simp add: t2_def div_mod_carry)
  then have b3: "t3 < 2 * 2 ^ 26" using assms by (simp add: t3_def div_mod_carry)
  then show "t4 \<le> 2 ^ 26" using assms by (simp add: t4_def div_mod_carry)
  show "below (2 ^ 26) (t0 mod 2 ^ 26, t1 mod 2 ^ 26, t2 mod 2 ^ 26, t3 mod 2 ^ 26, 0)" by simp
  have "(t0 mod 2 ^ 26) + 2 ^ 26 * (t1 mod 2 ^ 26) + (2 ^ 26) ^ 2 * (t2 mod 2 ^ 26) + (2 ^ 26) ^ 3 * (t3 mod 2 ^ 26) +
      (2 ^ 26) ^ 4 * t4 + (2 ^ 26) ^ 5 * 0 = t0 + 2 ^ 26 * h1 + (2 ^ 26) ^ 2 * h2 + (2 ^ 26) ^ 3 * h3 + (2 ^ 26) ^ 4 * h4"
    by (rule carry_chain [of t0 _ _ "t0 div 2 ^ 26" h1 _ "t1 div 2 ^ 26" h2 _ "t2 div 2 ^ 26" h3 _ "t3 div 2 ^ 26"])
      (simp_all only: mod_mult_div_eq t1_def [symmetric] t2_def [symmetric] t3_def [symmetric] t4_def [symmetric]
        add.commute [of _ h1] add.commute [of _ h2] add.commute [of _ h3] add.commute [of _ h4] mult_0_right add_0_right)
  then show "lval (t0 mod 2 ^ 26, t1 mod 2 ^ 26, t2 mod 2 ^ 26, t3 mod 2 ^ 26, t4) = lval h + 5" by (simp add: h t0_def)
  have w: "(of_nat h0 :: w32) + 5 = of_nat t0" "(of_nat h1 :: w32) + of_nat (t0 div 2 ^ 26) = of_nat t1"
    "(of_nat h2 :: w32) + of_nat (t1 div 2 ^ 26) = of_nat t2" "(of_nat h3 :: w32) + of_nat (t2 div 2 ^ 26) = of_nat t3"
    "(of_nat h4 :: w32) + of_nat (t3 div 2 ^ 26) = of_nat t4"
    by (simp_all add: t0_def t1_def t2_def t3_def t4_def)
  have "t0 < 2 ^ 32" "t1 < 2 ^ 32" "t2 < 2 ^ 32" "t3 < 2 ^ 32" using b0 b1 b2 b3 by simp_all
  note shift = this [THEN shift_w32]
  let ?t4 = "of_nat t4 - push_bit 26 1 :: w32"
  show "poly_select (wlimbs h) = (let t = ?t4; m = drop_bit 31 t - 1 in
      ((of_nat h0 AND NOT m) OR (of_nat (t0 mod 2 ^ 26) AND m), (of_nat h1 AND NOT m) OR (of_nat (t1 mod 2 ^ 26) AND m),
       (of_nat h2 AND NOT m) OR (of_nat (t2 mod 2 ^ 26) AND m), (of_nat h3 AND NOT m) OR (of_nat (t3 mod 2 ^ 26) AND m),
       (of_nat h4 AND NOT m) OR (t AND m)))"
    unfolding h poly_select_def wlimbs.simps prod.case Let_def w shift mask_w32 ..
qed

lemma poly_select_limbs:
  assumes "below (2 ^ 26) h"
  shows "poly_select (wlimbs h) = wlimbs (limbs_of (lval h mod prime_1305))"
proof -
  obtain h0 h1 h2 h3 h4 where h: "h = (h0, h1, h2, h3, h4)" by (cases h)
  obtain u0 u1 u2 u3 t4 where u: "below (2 ^ 26) (u0, u1, u2, u3, 0)" and t4: "t4 \<le> 2 ^ 26"
    and val: "lval (u0, u1, u2, u3, t4) = lval h + 5" and sel: "poly_select (wlimbs h) =
      (let t = of_nat t4 - push_bit 26 1; m = drop_bit 31 t - 1 :: w32 in
      ((of_nat h0 AND NOT m) OR (of_nat u0 AND m), (of_nat h1 AND NOT m) OR (of_nat u1 AND m),
       (of_nat h2 AND NOT m) OR (of_nat u2 AND m), (of_nat h3 AND NOT m) OR (of_nat u3 AND m),
       (of_nat h4 AND NOT m) OR (t AND m)))"
    using poly_select_plus5 [OF assms h] by blast
  let ?t4 = "of_nat t4 - push_bit 26 1 :: w32"
  show ?thesis
  proof (cases "t4 < 2 ^ 26")
    case True
    have "lval (u0, u1, u2, u3, t4) < 2 ^ 130" using True u by (intro lval_less) simp
    then have "lval h mod prime_1305 = lval h" using val by (simp add: prime_1305_def)
    moreover have wrap: "?t4 = of_nat (t4 + (2 ^ 32 - 2 ^ 26))" by simp
    have "drop_bit 31 ?t4 = of_nat ((t4 + (2 ^ 32 - 2 ^ 26)) div 2 ^ 31)"
      unfolding wrap using True by (intro shift_w32) simp
    then have "drop_bit 31 ?t4 - 1 = 0" using True div_mod_carry(1) [of "t4 + (2 ^ 32 - 2 ^ 26)" "2 ^ 31"] by simp
    ultimately show ?thesis using limbs_of_lval [OF assms] unfolding sel Let_def by (simp add: h)
  next
    case False
    then have top: "t4 = 2 ^ 26" using t4 by simp
    then have v: "lval h = prime_1305 + lval (u0, u1, u2, u3, 0)" using val by (simp add: prime_1305_def)
    then have "lval (u0, u1, u2, u3, 0) < prime_1305"
      using lval_less [OF assms] by (simp add: prime_1305_def)
    then have "lval h mod prime_1305 = lval (u0, u1, u2, u3, 0)" using v by simp
    moreover have "?t4 = 0" by (simp add: top)
    ultimately show ?thesis using limbs_of_lval [OF u] unfolding sel Let_def by simp
  qed
qed

subsection \<open>The tag\<close>

text \<open>Two neighbouring limbs give a 32-bit word of the number, at any offset the code uses.\<close>

lemma join_limbs:
  assumes s: "s \<le> 20" and t: "t = 26 - s" and m: "m = n + 26" and l: "l = n + s"
  shows "(drop_bit s (of_nat (x div 2 ^ n mod 2 ^ 26)) OR push_bit t (of_nat (x div 2 ^ m mod 2 ^ 26)) :: w32) =
    of_nat (x div 2 ^ l)"
  unfolding drop_bit_eq_div [symmetric] take_bit_eq_mod [symmetric]
proof (rule bit_word_eqI)
  fix k assume "k < LENGTH(32)"
  then have k: "k < 32" by simp
  show "bit (drop_bit s (of_nat (take_bit 26 (drop_bit n x))) OR
      push_bit t (of_nat (take_bit 26 (drop_bit m x))) :: w32) k = bit (of_nat (drop_bit l x) :: w32) k"
  proof (cases "k < t")
    case True
    then show ?thesis using k s t by (auto simp: l word_bits add.commute add.left_commute)
  next
    case False
    then have "m + (k - t) = l + k" using s t by (simp add: m l)
    then show ?thesis using k s t False by (auto simp: word_bits add.commute add.left_commute)
  qed
qed

lemma limbs_words:
  assumes "x < 2 ^ 130" "wlimbs (limbs_of x) = (h0, h1, h2, h3, h4)"
  shows "h0 OR push_bit 26 h1 = of_nat x" "drop_bit 6 h1 OR push_bit 20 h2 = of_nat (x div 2 ^ 32)"
    "drop_bit 12 h2 OR push_bit 14 h3 = of_nat (x div 2 ^ 64)" "drop_bit 18 h3 OR push_bit 8 h4 = of_nat (x div 2 ^ 96)"
proof -
  have top: "x div 2 ^ 104 mod 2 ^ 26 = x div 2 ^ 104" using assms(1) by (simp add: div_less_iff_less_mult)
  have hs: "h0 = of_nat (x mod 2 ^ 26)" "h1 = of_nat (x div 2 ^ 26 mod 2 ^ 26)" "h2 = of_nat (x div 2 ^ 52 mod 2 ^ 26)"
    "h3 = of_nat (x div 2 ^ 78 mod 2 ^ 26)" "h4 = of_nat (x div 2 ^ 104 mod 2 ^ 26)"
    using assms(2) unfolding limbs_of_def wlimbs.simps prod.inject top by (elim conjE, simp only:)+
  show "h0 OR push_bit 26 h1 = of_nat x" using join_limbs [of 0 26 26 0 0 x] unfolding hs by simp
  show "drop_bit 6 h1 OR push_bit 20 h2 = of_nat (x div 2 ^ 32)" unfolding hs by (rule join_limbs) simp_all
  show "drop_bit 12 h2 OR push_bit 14 h3 = of_nat (x div 2 ^ 64)" unfolding hs by (rule join_limbs) simp_all
  show "drop_bit 18 h3 OR push_bit 8 h4 = of_nat (x div 2 ^ 96)" unfolding hs by (rule join_limbs) simp_all
qed

text \<open>Adding with a 64-bit accumulator, word by word.\<close>

lemma add_words:
  fixes x y c :: nat
  assumes "c \<le> 1"
  defines "t \<equiv> x mod 2 ^ 32 + y mod 2 ^ 32 + c"
  shows "ucast (of_nat x :: w32) + ucast (of_nat y :: w32) + of_nat c = (of_nat t :: w64)"
    and "drop_bit 32 (of_nat t :: w64) = of_nat (t div 2 ^ 32)" and "t div 2 ^ 32 \<le> 1"
proof -
  have low: "ucast (of_nat x :: w32) = (of_nat (x mod 2 ^ 32) :: w64)" for x
    unfolding take_bit_eq_mod [symmetric] by (rule bit_word_eqI) (auto simp: word_bits)
  show "ucast (of_nat x :: w32) + ucast (of_nat y :: w32) + of_nat c = (of_nat t :: w64)"
    by (simp only: low t_def of_nat_add)
  have "x mod 2 ^ 32 < 2 ^ 32" "y mod 2 ^ 32 < 2 ^ 32" by simp_all
  then have t: "t < 2 * 2 ^ 32" using assms(1) unfolding t_def by linarith
  then show "drop_bit 32 (of_nat t :: w64) = of_nat (t div 2 ^ 32)" by (intro shift_w64) simp
  show "t div 2 ^ 32 \<le> 1" using t by (simp add: div_mod_carry)
qed

lemma word_carry:
  fixes x y :: nat
  shows "of_nat (x mod 2 ^ 32 + y mod 2 ^ 32 + c) = (of_nat (x + y + c) :: w32)"
    and "(x div 2 ^ 32 + y div 2 ^ 32) + (x mod 2 ^ 32 + y mod 2 ^ 32 + c) div 2 ^ 32 = (x + y + c) div 2 ^ 32"
proof -
  show "of_nat (x mod 2 ^ 32 + y mod 2 ^ 32 + c) = (of_nat (x + y + c) :: w32)"
    by (simp only: word_of_nat_eq_iff take_bit_eq_mod) (simp, metis mod_add_eq mod_add_left_eq)
  have eq: "x + y + c = 2 ^ 32 * (x div 2 ^ 32 + y div 2 ^ 32) + (x mod 2 ^ 32 + y mod 2 ^ 32 + c)"
    by (simp add: algebra_simps)
  have "((2 :: nat) ^ 32 * q + r) div 2 ^ 32 = q + r div 2 ^ 32" for q r by simp
  then show "(x div 2 ^ 32 + y div 2 ^ 32) + (x mod 2 ^ 32 + y mod 2 ^ 32 + c) div 2 ^ 32 = (x + y + c) div 2 ^ 32"
    unfolding eq by metis
qed

lemma poly_tag_limbs:
  assumes "x < 2 ^ 130" "length key = 32"
  shows "poly_tag key (wlimbs (limbs_of x)) = le_bytes 16 (x + le_nat (drop 16 key))"
proof -
  let ?y = "le_nat (drop 16 key)"
  obtain h0 h1 h2 h3 h4 where h: "wlimbs (limbs_of x) = (h0, h1, h2, h3, h4)" by (cases "wlimbs (limbs_of x)")
  have key: "LE_Uint32 key (16 + i) = of_nat (?y div 256 ^ i)" if "i + 4 \<le> 16" for i
    using LE_Uint32_of_nat [of "16 + i" key] that assms(2) by (simp add: le_nat_drop power_add flip: div_mult2_eq)
  have keys: "LE_Uint32 key 16 = of_nat ?y" "LE_Uint32 key 20 = of_nat (?y div 2 ^ 32)"
    "LE_Uint32 key 24 = of_nat (?y div 2 ^ 64)" "LE_Uint32 key 28 = of_nat (?y div 2 ^ 96)"
    using key [of 0] key [of 4] key [of 8] key [of 12] by simp_all
  have q: "v div 2 ^ 64 = v div 2 ^ 32 div 2 ^ 32" "v div 2 ^ 96 = v div 2 ^ 32 div 2 ^ 32 div 2 ^ 32" for v :: nat
    by (simp_all flip: div_mult2_eq)
  define x1 x2 x3 where "x1 = x div 2 ^ 32" and "x2 = x1 div 2 ^ 32" and "x3 = x2 div 2 ^ 32"
  define y1 y2 y3 where "y1 = ?y div 2 ^ 32" and "y2 = y1 div 2 ^ 32" and "y3 = y2 div 2 ^ 32"
  define t0 where "t0 = x mod 2 ^ 32 + ?y mod 2 ^ 32 + 0"
  define t1 where "t1 = x1 mod 2 ^ 32 + y1 mod 2 ^ 32 + t0 div 2 ^ 32"
  define t2 where "t2 = x2 mod 2 ^ 32 + y2 mod 2 ^ 32 + t1 div 2 ^ 32"
  define t3 where "t3 = x3 mod 2 ^ 32 + y3 mod 2 ^ 32 + t2 div 2 ^ 32"
  note a0 = add_words [of 0 x ?y, folded t0_def, OF zero_le_one]
  have e0: "ucast (of_nat x :: w32) + ucast (of_nat ?y :: w32) = (of_nat t0 :: w64)" using a0(1) by simp
  note a1 = add_words [of "t0 div 2 ^ 32" x1 y1, folded t1_def, OF a0(3)]
  note a2 = add_words [of "t1 div 2 ^ 32" x2 y2, folded t2_def, OF a1(3)]
  note a3 = add_words [of "t2 div 2 ^ 32" x3 y3, folded t3_def, OF a2(3)]
  have z1: "x1 + y1 + t0 div 2 ^ 32 = (x + ?y) div 2 ^ 32"
    using word_carry(2) [of x ?y 0] unfolding x1_def y1_def t0_def by simp
  have z2: "x2 + y2 + t1 div 2 ^ 32 = (x + ?y) div 2 ^ 32 div 2 ^ 32"
    using word_carry(2) [of x1 y1 "t0 div 2 ^ 32"] unfolding z1 x2_def y2_def t1_def by simp
  have z3: "x3 + y3 + t2 div 2 ^ 32 = (x + ?y) div 2 ^ 32 div 2 ^ 32 div 2 ^ 32"
    using word_carry(2) [of x2 y2 "t1 div 2 ^ 32"] unfolding z2 x3_def y3_def t2_def by simp
  note w = word_carry(1) [of x ?y 0, folded t0_def, unfolded add_0_right] word_carry(1) [of x1 y1 "t0 div 2 ^ 32", folded t1_def, unfolded z1]
    word_carry(1) [of x2 y2 "t1 div 2 ^ 32", folded t2_def, unfolded z2]
    word_carry(1) [of x3 y3 "t2 div 2 ^ 32", folded t3_def, unfolded z3]
  have sixteen: "le_bytes 16 z = le_bytes 4 z @ le_bytes 4 (z div 2 ^ 32) @ le_bytes 4 (z div 2 ^ 32 div 2 ^ 32) @
      le_bytes 4 (z div 2 ^ 32 div 2 ^ 32 div 2 ^ 32)" for z
    using le_bytes_append [of 4 12 z] le_bytes_append [of 4 8 "z div 2 ^ 32"] le_bytes_append [of 4 4 "z div 2 ^ 32 div 2 ^ 32"]
    by simp
  show ?thesis
    unfolding poly_tag_def h prod.case Let_def limbs_words [OF assms(1) h] keys q
      x1_def [symmetric] x2_def [symmetric] x3_def [symmetric] y1_def [symmetric] y2_def [symmetric] y3_def [symmetric]
      e0 a0(2) a1 a2 a3 word_of_w64 w LE_PutUint32_of_nat sixteen ..
qed

subsection \<open>The code computes the authenticator of the RFC\<close>

text \<open>
  C6. The limb arithmetic of \<open>Sum\<close> is Poly1305: for every message and every 32-byte key the sixteen
  bytes that the code writes are those of RFC 7539, the little-endian sum modulo \<open>2 ^ 128\<close> of the
  second half of the key and the polynomial in the clamped first half, modulo \<open>2 ^ 130 - 5\<close>.
\<close>

theorem Poly_Sum_is_rfc7539:
  assumes "length key = 32"
  shows "Poly_Sum msg key = rfc_poly1305 msg key"
proof -
  let ?r = "limbs_of (rfc_r key)"
  obtain h where h: "poly_blocks (rlimbs ?r) msg (wlimbs (0, 0, 0, 0, 0)) = wlimbs h" "reduced h"
    "lval h mod prime_1305 = rfc_acc (rfc_r key) msg 0"
    using poly_blocks_limbs [OF poly_r_limbs(2) [OF assms], of "(0, 0, 0, 0, 0)" msg] by (auto simp: lval_limbs_of)
  then have "poly_select (poly_carry (wlimbs h)) = wlimbs (limbs_of (rfc_acc (rfc_r key) msg 0))"
    using ncarry_value [OF h(2)] by (simp add: poly_carry_limbs poly_select_limbs)
  moreover have "rfc_acc (rfc_r key) msg 0 < 2 ^ 130"
    using h(3) mod_less_divisor [of prime_1305 "lval h"] by (simp add: prime_1305_def)
  ultimately show ?thesis
    using h(1) poly_tag_limbs [OF _ assms] by (simp add: Poly_Sum_def poly_r_limbs [OF assms] rfc_poly1305_def)
qed

theorem Poly_Sum_is_rfc7539_witness:
  "Poly_Sum [1, 2, 3] (replicate 32 7) = rfc_poly1305 [1, 2, 3] (replicate 32 7) \<and>
   hd (Poly_Sum [1, 2, 3] (replicate 32 7)) = 64"
proof -
  have "hd (Poly_Sum [1, 2, 3] (replicate 32 7)) = 64" by code_simp
  then show ?thesis using Poly_Sum_is_rfc7539 [of "replicate 32 7" "[1, 2, 3]"] by simp
qed

end
