(* ===== verification/ShadowTunnel.thy ===== *)
theory ShadowTunnel
  imports ShadowCore
begin

text \<open>
  The connection that \<open>PickCipher\<close> and \<open>StreamConn\<close> of \<^verbatim>\<open>src/proxyPool/ProxyClient/core/cipher.go\<close> give, used
  through \<open>net.Conn\<close>: whatever listed cipher two peers choose, with the same password they exchange the
  byte stream that was written, and datagrams one by one. This composes the key derivation, the choice
  of the cipher and both families of connections.
\<close>

text \<open>The methods of \<open>net.Conn\<close> on the connection of a cipher.\<close>

definition core_Write :: "(nat \<Rightarrow> go_error + byte list) \<Rightarrow> byte list \<Rightarrow> core_Conn \<Rightarrow> (nat \<times> go_error option \<times> core_Conn) go" where
  "core_Write rnd b cc = (case cc of
       PlainConn c \<Rightarrow> Some (case conn_Write b c of (err, c) \<Rightarrow> (if err = None then length b else 0, err, PlainConn c))
     | AeadConn sc \<Rightarrow> do { (n, err, sc) \<leftarrow> streamConn_Write rnd b sc; Some (n, err, AeadConn sc) }
     | StreamCipherConn sc \<Rightarrow> do { (n, err, sc) \<leftarrow> s_Write rnd b sc; Some (n, err, StreamCipherConn sc) })"

text \<open>Copying everything that arrives to \<open>d\<close> by \<open>io.WriterTo\<close>, which a plain connection does not implement.\<close>

definition core_WriteTo :: "core_Conn \<Rightarrow> conn \<Rightarrow> (nat \<times> go_error option \<times> conn) go" where
  "core_WriteTo cc d = (case cc of
       PlainConn c \<Rightarrow> None
     | AeadConn sc \<Rightarrow> do { (n, err, sc, d) \<leftarrow> streamConn_WriteTo sc d; Some (n, err, d) }
     | StreamCipherConn sc \<Rightarrow> do { (n, err, sc, d) \<leftarrow> s_WriteTo sc d; Some (n, err, d) })"

definition core_raw :: "core_Conn \<Rightarrow> conn" where
  "core_raw cc = (case cc of PlainConn c \<Rightarrow> c | AeadConn sc \<Rightarrow> sc_Conn sc | StreamCipherConn sc \<Rightarrow> s_Conn sc)"

definition core_sends :: "(nat \<Rightarrow> go_error + byte list) \<Rightarrow> byte list list \<Rightarrow> core_Conn \<Rightarrow> core_Conn go" where
  "core_sends rnd bss cc = foldM (\<lambda>cc b. do {
     (n, err, cc) \<leftarrow> core_Write rnd b cc;
     (if err = None \<and> n = length b then Some cc else None) }) cc bss"

lemma core_sends_aead: "core_sends rnd bss (AeadConn sc) = map_option AeadConn (sends rnd bss sc)"
proof (induction bss arbitrary: sc)
  case (Cons b bss)
  show ?case
  proof (cases "streamConn_Write rnd b sc")
    case (Some r)
    then show ?thesis using Cons.IH by (cases r) (auto simp: core_sends_def sends_def core_Write_def)
  qed (simp add: core_sends_def sends_def core_Write_def)
qed (simp add: core_sends_def sends_def)

lemma core_sends_stream: "core_sends rnd bss (StreamCipherConn sc) = map_option StreamCipherConn (s_sends rnd bss sc)"
proof (induction bss arbitrary: sc)
  case (Cons b bss)
  show ?case
  proof (cases "s_Write rnd b sc")
    case (Some r)
    then show ?thesis using Cons.IH by (cases r) (auto simp: core_sends_def s_sends_def core_Write_def)
  qed (simp add: core_sends_def s_sends_def core_Write_def)
qed (simp add: core_sends_def s_sends_def)

text \<open>What a tunnel is for: all writes succeed, and any segmentation of what went over the wire delivers them.\<close>

definition tunnels :: "(nat \<Rightarrow> go_error + byte list) \<Rightarrow> core_Cipher \<Rightarrow> byte list list \<Rightarrow> bool" where
  "tunnels rnd ciph bss \<longleftrightarrow>
     (\<exists>cc. core_sends rnd bss (core_StreamConn ciph (arriving [])) = Some cc \<and>
       (\<forall>segs. concat segs = concat (cn_out (core_raw cc)) \<longrightarrow>
          (\<exists>d. core_WriteTo (core_StreamConn ciph (arriving segs)) (arriving []) = Some (length (concat bss), None, d) \<and>
             concat (cn_out d) = concat bss)))"

lemma aead_tunnels:
  assumes "aead_stream A limit" "rnd (SaltSize ciph) = Inr salt" "length salt = SaltSize ciph"
    and "Encrypter ciph salt = Some (Inr A)" "Decrypter ciph salt = Some (Inr A)"
  shows "tunnels rnd (CAead ciph) (b # bss)"
proof -
  have "sink (arriving [])" "cn_out (arriving []) = []" by (simp_all add: sink_def arriving_def)
  from aead_stream.stream_delivers [where rnd = rnd and ciph = ciph and b = b and bss = bss, OF assms this] show ?thesis
    by (fastforce simp: tunnels_def core_StreamConn_def core_sends_aead core_WriteTo_def core_raw_def)
qed

lemma stream_tunnels:
  assumes "scipher_ok ciph" "rnd (IVSize ciph) = Inr iv" "length iv = IVSize ciph"
  shows "tunnels rnd (CStream ciph) (b # bss)"
  using stream_conn_delivers [where rnd = rnd and ciph = ciph and b = b and bss = bss, OF assms]
  by (fastforce simp: tunnels_def core_StreamConn_def core_sends_stream core_WriteTo_def core_raw_def)

text \<open>
  The same for datagrams: a payload that leaves room for 48 bytes in the buffers of 64 KiB and of the
  receiver is sent as one packet. The peer reads it into the buffer of its caller and decrypts it from
  there to the front of the same buffer, over the salt or IV. It turns it back into the payload when that
  is no longer than the salt or IV, so that nothing overlaps, or when the cipher does not mind; a
  cipher that enforces the rule on overlaps panics on longer payloads.
\<close>

definition core_pWriteTo ::
  "(nat \<Rightarrow> go_error + byte list) \<Rightarrow> byte list \<Rightarrow> string \<Rightarrow> core_PConn \<Rightarrow> (nat \<times> go_error option \<times> core_PConn) go" where
  "core_pWriteTo rnd b addr pc = (case pc of
       PlainPacket c \<Rightarrow> Some (case pconn_WriteTo b addr c of (err, c) \<Rightarrow> (if err = None then length b else 0, err, PlainPacket c))
     | AeadPacket c \<Rightarrow> do { (n, err, c) \<leftarrow> packetConn_WriteTo rnd b addr c; Some (n, err, AeadPacket c) }
     | StreamPacket c \<Rightarrow> do { (n, err, c) \<leftarrow> spacketConn_WriteTo rnd b addr c; Some (n, err, StreamPacket c) })"

definition core_pReadFrom :: "nat \<Rightarrow> core_PConn \<Rightarrow> (byte list \<times> string \<times> go_error option \<times> core_PConn) go" where
  "core_pReadFrom len pc = (case pc of
       PlainPacket c \<Rightarrow> Some (case pconn_ReadFrom len c of ((b, addr, err), c) \<Rightarrow> (b, addr, err, PlainPacket c))
     | AeadPacket c \<Rightarrow> do { (b, addr, err, c) \<leftarrow> packetConn_ReadFrom len c; Some (b, addr, err, AeadPacket c) }
     | StreamPacket c \<Rightarrow> do { (b, addr, err, c) \<leftarrow> spacketConn_ReadFrom len c; Some (b, addr, err, StreamPacket c) })"

fun prefix_of :: "core_Cipher \<Rightarrow> nat" where
  "prefix_of CDummy = 0"
| "prefix_of (CAead a) = SaltSize a"
| "prefix_of (CStream s) = IVSize s"

definition minds_not :: "core_Cipher \<Rightarrow> bool" where
  "minds_not ciph = (case ciph of
       CAead a \<Rightarrow> \<forall>salt A. length salt = SaltSize a \<and> Decrypter a salt = Some (Inr A) \<longrightarrow> open_anyhow A
     | _ \<Rightarrow> False)"

definition strict :: "core_Cipher \<Rightarrow> bool" where
  "strict ciph = (case ciph of
       CDummy \<Rightarrow> False
     | CAead a \<Rightarrow> \<forall>salt A. length salt = SaltSize a \<and> Decrypter a salt = Some (Inr A) \<longrightarrow> open_strict A
     | CStream s \<Rightarrow> xor_strict s)"

definition carries :: "(nat \<Rightarrow> go_error + byte list) \<Rightarrow> core_Cipher \<Rightarrow> byte list \<Rightarrow> nat \<Rightarrow> bool" where
  "carries rnd ciph p len \<longleftrightarrow> (\<forall>tx addr. pc_errs tx = [] \<longrightarrow>
     (\<exists>pkt. core_pWriteTo rnd p addr (core_PacketConn ciph tx) =
        Some (length p, None, core_PacketConn ciph (tx\<lparr>pc_out := pc_out tx @ [(pkt, addr)]\<rparr>)) \<and>
      (\<forall>rx src ds. pc_in rx = (pkt, src) # ds \<longrightarrow>
        (length p \<le> prefix_of ciph \<or> minds_not ciph \<longrightarrow>
           core_pReadFrom len (core_PacketConn ciph rx) = Some (p, src, None, core_PacketConn ciph (rx\<lparr>pc_in := ds\<rparr>))) \<and>
        (strict ciph \<and> 0 < prefix_of ciph \<and> prefix_of ciph < length p \<longrightarrow>
           core_pReadFrom len (core_PacketConn ciph rx) = None))))"

text \<open>
  What the primitives outside the repository have to satisfy: HMAC-SHA1 has digests of 20 bytes, MD5 of 16,
  AES takes keys of 16, 24 and 32 bytes, GCM of such a key has nonces of 12 bytes and tags of 16 and
  meets the contract of an AEAD for at least 64 KiB, and ChaCha20 takes a 32-byte key and nonces of
  its two sizes. GCM panics on an inexact overlap; of ChaCha20 only its behaviour without one is known.
\<close>

definition aead_fit :: "AEAD \<Rightarrow> bool" where
  "aead_fit A \<longleftrightarrow> NonceSize A = 12 \<and> Overhead A = 16 \<and> (\<exists>limit \<ge> 64 * 1024. aead_stream A limit) \<and> open_apart A"

definition cc_apart :: "chacha20_pkg \<Rightarrow> bool" where
  "cc_apart cc \<longleftrightarrow> (\<forall>off st mem. \<not> inexact_overlap off (length mem - off) \<longrightarrow>
     cc_XORAhead cc off st mem = Some (fst (stream_XOR st (drop off mem))))"

definition primitives_ok :: "crypto_env \<Rightarrow> bool" where
  "primitives_ok env \<longleftrightarrow> crypto_ok env \<and> (\<forall>k x. length (ce_hmac env k x) = 20) \<and>
     (\<forall>key. length key \<in> {16, 24, 32} \<longrightarrow> (\<exists>A. ce_aesGCM env key = Inr A \<and> aead_fit A \<and> open_strict A)) \<and>
     cc_apart (ce_chacha20 env) \<and>
     cc_INonceSize (ce_chacha20 env) \<le> 32 \<and> cc_XNonceSize (ce_chacha20 env) \<le> 32 \<and>
     (\<forall>k iv. length k = 32 \<longrightarrow> length iv \<in> {cc_INonceSize (ce_chacha20 env), cc_XNonceSize (ce_chacha20 env)} \<longrightarrow>
        (\<exists>ks. cc_NewCipher (ce_chacha20 env) k iv = Inr ks))"

text \<open>\<open>rand.Reader\<close> that works: as many bytes as asked for.\<close>

definition random_ok :: "(nat \<Rightarrow> go_error + byte list) \<Rightarrow> bool" where
  "random_ok rnd \<longleftrightarrow> (\<forall>n. \<exists>bs. rnd n = Inr bs \<and> length bs = n)"

lemma random_okE:
  assumes "random_ok rnd"
  obtains bs where "rnd n = Inr bs" "length bs = n"
  using assms unfolding random_ok_def by blast

text \<open>
  What makes a cipher fit for both uses: salts or IVs of at most 32 bytes, and for each of them both
  directions have matching states.
\<close>

definition cipher_fit :: "core_Cipher \<Rightarrow> bool" where
  "cipher_fit ciph = (case ciph of
       CDummy \<Rightarrow> False
     | CAead a \<Rightarrow> SaltSize a \<le> 32 \<and> (\<forall>salt. length salt = SaltSize a \<longrightarrow>
         (\<exists>A. Encrypter a salt = Some (Inr A) \<and> Decrypter a salt = Some (Inr A) \<and> aead_fit A))
     | CStream s \<Rightarrow> IVSize s \<le> 32 \<and> scipher_ok s \<and> xor_apart s)"

lemma fit_tunnels:
  assumes "cipher_fit ciph" "random_ok rnd"
  shows "tunnels rnd ciph (b # bss)"
proof (cases ciph)
  case (CAead a)
  obtain salt where salt: "rnd (SaltSize a) = Inr salt" "length salt = SaltSize a" using assms(2) by (rule random_okE)
  then obtain A limit where "aead_stream A limit" "Encrypter a salt = Some (Inr A)" "Decrypter a salt = Some (Inr A)"
    using assms(1) by (auto simp: cipher_fit_def CAead aead_fit_def)
  with aead_tunnels [where rnd = rnd and salt = salt, OF _ salt] show ?thesis by (auto simp: CAead)
next
  case (CStream s)
  obtain iv where "rnd (IVSize s) = Inr iv" "length iv = IVSize s" using assms(2) by (rule random_okE)
  then show ?thesis using assms(1) stream_tunnels [of s rnd iv b bss] by (simp add: cipher_fit_def CStream)
qed (use assms(1) in \<open>simp add: cipher_fit_def\<close>)

lemma fit_carries:
  assumes "cipher_fit ciph" "random_ok rnd" "length p + 48 \<le> 64 * 1024" "length p + 48 \<le> len"
  shows "carries rnd ciph p len"
proof (cases ciph)
  case (CAead a)
  obtain salt where salt: "rnd (SaltSize a) = Inr salt" "length salt = SaltSize a" using assms(2) by (rule random_okE)
  then obtain A limit where A: "aead_stream A limit" "64 * 1024 \<le> limit" "Encrypter a salt = Some (Inr A)"
      "Decrypter a salt = Some (Inr A)" "NonceSize A = 12" "Overhead A = 16" "open_apart A"
    using assms(1) by (auto simp: cipher_fit_def CAead aead_fit_def)
  have "SaltSize a \<le> 32" using assms(1) by (simp add: cipher_fit_def CAead)
  then have "NonceSize A \<le> 128" "length p \<le> limit" "SaltSize a + length p + Overhead A \<le> 64 * 1024"
      "SaltSize a + length p + Overhead A \<le> len"
    using A(2,5,6) assms(3,4) by simp_all
  note rt = aead_contract.packet_roundtrip [where rnd = rnd and ciph = a and salt = salt,
      OF aead_stream.axioms(1) [OF A(1)] salt this(1) A(3,4) this(2-4)]
  show ?thesis unfolding carries_def
  proof (intro allI impI, goal_cases)
    case (1 tx addr)
    have "minds_not ciph \<longrightarrow> open_anyhow A" "strict ciph \<longrightarrow> open_strict A"
      using A(4) salt(2) by (auto simp: CAead minds_not_def strict_def)
    with rt [OF 1, of addr] A(7) show ?case by (fastforce simp: CAead core_pWriteTo_def core_pReadFrom_def core_PacketConn_def)
  qed
next
  case (CStream s)
  obtain iv where iv: "rnd (IVSize s) = Inr iv" "length iv = IVSize s" using assms(2) by (rule random_okE)
  have ok: "xor_apart s" "strict ciph \<longrightarrow> xor_strict s" "\<not> minds_not ciph" "scipher_ok s" "IVSize s + length p \<le> 64 * 1024" "IVSize s + length p \<le> len"
    using assms(1,3,4) by (simp_all add: cipher_fit_def CStream strict_def minds_not_def)
  note rt = stream_datagram [where rnd = rnd and iv = iv, OF ok(4) iv ok(5,6)]
  show ?thesis unfolding carries_def
  proof (intro allI impI, goal_cases)
    case (1 tx addr)
    from rt [OF 1, of addr] ok(1-3) show ?case by (fastforce simp: CStream core_pWriteTo_def core_pReadFrom_def core_PacketConn_def)
  qed
qed (use assms(1) in \<open>simp add: cipher_fit_def\<close>)

text \<open>
  What the name of a cipher says about its datagrams: the length of the salt or IV, and the names whose
  ciphers do more or less than panic on an inexact overlap.
\<close>

definition prefix_size :: "crypto_env \<Rightarrow> string \<Rightarrow> nat" where
  "prefix_size env name =
     (if name = ''AEAD_AES_192_GCM'' then 24
      else if name \<in> {''AEAD_AES_256_GCM'', ''AEAD_CHACHA20_POLY1305''} then 32
      else if name = ''CHACHA20-IETF'' then cc_INonceSize (ce_chacha20 env)
      else if name = ''XCHACHA20'' then cc_XNonceSize (ce_chacha20 env)
      else 16)"

definition chacha_names :: "string set" where
  "chacha_names = {''AEAD_CHACHA20_POLY1305'', ''CHACHA20-IETF'', ''XCHACHA20''}"

definition suits_name :: "crypto_env \<Rightarrow> string \<Rightarrow> core_Cipher \<Rightarrow> bool" where
  "suits_name env name ciph \<longleftrightarrow> cipher_fit ciph \<and> prefix_of ciph = prefix_size env name \<and>
     (name = ''AEAD_CHACHA20_POLY1305'' \<longrightarrow> minds_not ciph) \<and> (name \<notin> chacha_names \<longrightarrow> strict ciph)"

text \<open>Every entry of the two tables makes a fit cipher that suits its name.\<close>

lemma meta_fit:
  assumes "primitives_ok env" "length psk \<le> 32"
    and "\<And>key. length key = length psk \<Longrightarrow> \<exists>A. mk key = Inr A \<and> aead_fit A"
  shows "cipher_fit (CAead (metaCipher (ce_hmac env) psk mk))"
proof -
  have "\<exists>A. meta_AEAD (ce_hmac env) mk psk salt = Some (Inr A) \<and> aead_fit A" for salt
  proof -
    obtain key where key: "hkdfSHA1 (ce_hmac env) psk salt ss_subkey (length psk) = Some key" "length key = length psk"
      using hkdfSHA1_returns [of "ce_hmac env" "length psk" psk salt ss_subkey] assms(1,2) by (auto simp: primitives_ok_def)
    with assms(3) [OF key(2)] show ?thesis by (auto simp: meta_AEAD_def)
  qed
  then show ?thesis using assms(2) by (simp add: cipher_fit_def metaCipher_def)
qed

lemma meta_all:
  assumes "\<And>key A. mk key = Inr A \<Longrightarrow> Q A" and "Decrypter (metaCipher hmac psk mk) salt = Some (Inr A)"
  shows "Q A"
  using assms by (auto simp: metaCipher_def meta_AEAD_def go_simps)

lemma c20_aead_fit: "aead_fit (chacha20poly1305 key)"
proof -
  have "open_apart (chacha20poly1305 key)"
    using c20_open_anyhow [of key] by (simp add: open_apart_def open_anyhow_def)
  then show ?thesis
    using c20s.aead_stream_axioms [of key]
    by (auto simp: aead_fit_def chacha20poly1305_def c20_NonceSize_def intro!: exI [of _ "2 ^ 38 - 64"])
qed

lemma gcm_suits:
  assumes "primitives_ok env" "length key \<in> {16, 24, 32}"
  shows "\<exists>c. AESGCM (ce_hmac env) (ce_aesGCM env) key = Inr c \<and> cipher_fit (CAead c) \<and> strict (CAead c) \<and> SaltSize c = length key"
proof -
  let ?c = "metaCipher (ce_hmac env) key (ce_aesGCM env)"
  have gcm: "\<exists>A. ce_aesGCM env k = Inr A \<and> aead_fit A \<and> open_strict A" if "length k = length key" for k
    using assms that unfolding primitives_ok_def by (metis (no_types, lifting))
  have "cipher_fit (CAead ?c)"
    by (rule meta_fit [OF assms(1)]) (use assms(2) gcm in fastforce)+
  moreover have "strict (CAead ?c)"
  proof -
    have "open_strict A" if "Decrypter ?c salt = Some (Inr A)" for salt A
    proof -
      obtain k where "hkdfSHA1 (ce_hmac env) key salt ss_subkey (length key) = Some k" "length k = length key"
        using hkdfSHA1_returns [of "ce_hmac env" "length key" key salt ss_subkey] assms by (auto simp: primitives_ok_def)
      with that gcm show ?thesis by (fastforce simp: metaCipher_def meta_AEAD_def)
    qed
    then show ?thesis unfolding strict_def core_Cipher.case by blast
  qed
  ultimately show ?thesis using assms(2) by (auto simp: AESGCM_def metaCipher_def)
qed

lemma c20_suits:
  assumes "primitives_ok env" "length key = 32"
  shows "\<exists>c. Chacha20Poly1305 (ce_hmac env) key = Inr c \<and> cipher_fit (CAead c) \<and> minds_not (CAead c) \<and> SaltSize c = 32"
proof -
  let ?c = "metaCipher (ce_hmac env) key c20_New"
  have "cipher_fit (CAead ?c)"
    by (rule meta_fit [OF assms(1)]) (use assms(2) c20_aead_fit in \<open>auto simp: c20_New_def c20_KeySize_def\<close>)
  moreover have "open_anyhow A" if "c20_New k = Inr A" for k A
    using that c20_open_anyhow by (auto simp: c20_New_def split: if_splits)
  then have "minds_not (CAead ?c)"
    unfolding minds_not_def core_Cipher.case by (blast dest: meta_all [where mk = c20_New and Q = open_anyhow, rotated])
  ultimately show ?thesis using assms(2) by (auto simp: Chacha20Poly1305_def c20_KeySize_def metaCipher_def)
qed

lemma aeadList_fit:
  assumes "primitives_ok env" "map_of (aeadList env) name = Some (n, new)" "length key = n"
  shows "\<exists>c. new key = Inr c \<and> suits_name env name (CAead c)"
  using assms(2,3) gcm_suits [OF assms(1), of key] c20_suits [OF assms(1), of key]
  by (auto simp: aeadList_def suits_name_def prefix_size_def chacha_names_def split: if_splits)

lemma streamList_fit:
  assumes "primitives_ok env" "map_of (streamList env) name = Some (n, new)" "length key = n"
  shows "\<exists>c. new key = Inr c \<and> suits_name env name (CStream c)"
proof -
  have aes: "\<exists>blk. ce_aes env key = Inr blk" if "length key \<in> {16, 24, 32}"
    using that assms(1) by (auto simp: primitives_ok_def crypto_ok_def)
  have cc: "cc_KeySize (ce_chacha20 env) = 32" using assms(1) by (simp add: primitives_ok_def crypto_ok_def)
  have fit: "cipher_fit (CStream (chacha20ietfkey (ce_chacha20 env) key))" "cipher_fit (CStream (xchacha20key (ce_chacha20 env) key))"
    if "length key = 32"
    using that assms(1) chacha20_scipher_ok [of "ce_chacha20 env" key] xchacha20_scipher_ok [of "ce_chacha20 env" key]
    by (auto simp: primitives_ok_def cipher_fit_def chacha20ietfkey_def xchacha20key_def cc_apart_def xor_apart_def)
  have "cipher_fit (CStream (ctrStream blk))" "cipher_fit (CStream (cfbStream blk))"
      "strict (CStream (ctrStream blk))" "strict (CStream (cfbStream blk))" for blk
    using AES_scipher_ok [of blk] AES_xor [of blk]
    by (simp_all add: cipher_fit_def strict_def) (simp_all add: ctrStream_def cfbStream_def aes_BlockSize_def)
  then show ?thesis using assms(2,3) aes fit cc
    by (auto simp: streamList_def AESCTR_def AESCFB_def Chacha20IETF_def Xchacha20_def suits_name_def prefix_size_def chacha_names_def
        split: if_splits) (simp_all add: ctrStream_def cfbStream_def aes_BlockSize_def chacha20ietfkey_def xchacha20key_def)
qed

lemma picked_suits:
  assumes "primitives_ok env" "ToUpper name \<in> set (ListCipher env)"
  shows "\<exists>ciph. PickCipher env name [] password = Some (Inr ciph) \<and> suits_name env (ToUpper name) ciph"
proof -
  have ok: "crypto_ok env" using assms(1) by (simp add: primitives_ok_def)
  have kdf: "\<exists>key. kdf (ce_md5 env) password n = Some key \<and> length key = n" for n
    using kdf_returns(1) [of "ce_md5 env" password n] kdf_returns(2) [of "ce_md5 env" n password] ok by (auto simp: crypto_ok_def)
  have up: "ToUpper name \<noteq> ''DUMMY''" "cipher_alias (ToUpper name) = ToUpper name"
    using ToUpper_listed [OF assms(2)] by simp_all
  from listed_entry [OF ok assms(2)] consider
      n new where "map_of (aeadList env) (ToUpper name) = Some (n, new)"
    | n new where "map_of (aeadList env) (ToUpper name) = None" "map_of (streamList env) (ToUpper name) = Some (n, new)" by blast
  then show ?thesis
  proof cases
    case 1
    obtain key where "kdf (ce_md5 env) password n = Some key" "length key = n" using kdf by blast
    with 1 up aeadList_fit [OF assms(1) 1, of key] show ?thesis by (auto simp: PickCipher_def Let_def)
  next
    case 2
    obtain key where "kdf (ce_md5 env) password n = Some key" "length key = n" using kdf by blast
    with 2 up streamList_fit [OF assms(1) 2(2), of key] show ?thesis by (auto simp: PickCipher_def Let_def)
  qed
qed

lemma picked_fit:
  assumes "primitives_ok env" "ToUpper name \<in> set (ListCipher env)"
  shows "\<exists>ciph. PickCipher env name [] password = Some (Inr ciph) \<and> cipher_fit ciph"
  using picked_suits [OF assms, of password] by (auto simp: suits_name_def)

text \<open>
  C5. Two peers with the same password understand each other under every listed cipher, in any spelling:
  \<open>PickCipher\<close> succeeds, any non-empty sequence of writes on the connection of one peer succeeds, and
  however the network cuts what was sent, the connection of the other peer under the same choice
  copies out exactly the bytes that were written, without an error.
\<close>

theorem shadowsocks_tunnel:
  assumes "primitives_ok env" "random_ok rnd" "ToUpper name \<in> set (ListCipher env)"
  shows "\<exists>ciph cc. PickCipher env name [] password = Some (Inr ciph) \<and>
    core_sends rnd (b # bss) (core_StreamConn ciph (arriving [])) = Some cc \<and>
    (\<forall>segs. concat segs = concat (cn_out (core_raw cc)) \<longrightarrow>
       (\<exists>d. core_WriteTo (core_StreamConn ciph (arriving segs)) (arriving []) = Some (length (concat (b # bss)), None, d) \<and>
          concat (cn_out d) = concat (b # bss)))"
  using picked_fit [OF assms(1,3), of password] fit_tunnels [OF _ assms(2), of _ b bss] unfolding tunnels_def by blast

lemma strict_AEAD_fit:
  assumes "aead_fit A"
  shows "aead_fit (strict_AEAD A) \<and> open_strict (strict_AEAD A)"
  using assms
  by (auto simp: aead_fit_def strict_AEAD_def open_apart_def open_strict_def aead_stream_def aead_contract_def aead_stream_axioms_def)

lemma demo_primitives: "primitives_ok demo_crypto"
  using strict_AEAD_fit [OF c20_aead_fit]
  by (auto simp: primitives_ok_def demo_crypto_def crypto_ok_def cc_apart_def strict_XORAhead_def)

theorem shadowsocks_tunnel_witness:
  "\<exists>ciph cc d. PickCipher demo_crypto ''aead_aes_128_gcm'' [] ''secret'' = Some (Inr ciph) \<and>
     core_sends (\<lambda>n. Inr (replicate n 5)) [[1, 2], [3]] (core_StreamConn ciph (arriving [])) = Some cc \<and>
     core_WriteTo (core_StreamConn ciph (arriving [concat (cn_out (core_raw cc))])) (arriving []) = Some (3, None, d) \<and>
     concat (cn_out d) = [1, 2, 3]"
proof -
  have "ToUpper ''aead_aes_128_gcm'' \<in> set cipher_names" by code_simp
  then have "ToUpper ''aead_aes_128_gcm'' \<in> set (ListCipher demo_crypto)" by (simp add: set_ListCipher)
  moreover have "random_ok (\<lambda>n. Inr (replicate n 5))" by (simp add: random_ok_def)
  ultimately obtain ciph cc where c: "PickCipher demo_crypto ''aead_aes_128_gcm'' [] ''secret'' = Some (Inr ciph)"
      "core_sends (\<lambda>n. Inr (replicate n 5)) [[1, 2], [3]] (core_StreamConn ciph (arriving [])) = Some cc"
      "\<forall>segs. concat segs = concat (cn_out (core_raw cc)) \<longrightarrow>
        (\<exists>d. core_WriteTo (core_StreamConn ciph (arriving segs)) (arriving []) = Some (length (concat [[1, 2], [3 :: byte]]), None, d) \<and>
          concat (cn_out d) = concat [[1, 2], [3]])"
    using shadowsocks_tunnel [OF demo_primitives, where password = "''secret''" and b = "[1, 2]" and bss = "[[3]]"] by blast
  from c(3) [rule_format, of "[concat (cn_out (core_raw cc))]"] c(1,2) show ?thesis by auto
qed

text \<open>
  C20. Which datagrams survive the trip: two peers with the same password pick the same listed cipher, and a
  payload that leaves 48 bytes of the 64 KiB and of the receiver's buffer is sent as one packet. The receiver decrypts it
  from its buffer to the front of the same buffer. It gets exactly the payload and the address it
  came from if the payload is no longer than the salt or IV of the cipher (at most 32 bytes), or if the cipher is the
  vendored ChaCha20-Poly1305, whose portable loop runs front to back. With every cipher of the standard
  library (AES in GCM, CTR and CFB mode) a longer payload makes \<open>ReadFrom\<close> panic, because output and input
  overlap inexactly; for the two stream ciphers of the missing package the rule is broken too, and nothing
  is claimed.
\<close>

theorem shadowsocks_datagram:
  assumes "primitives_ok env" "random_ok rnd" "ToUpper name \<in> set (ListCipher env)"
    and "length p + 48 \<le> 64 * 1024" "length p + 48 \<le> len" "pc_errs tx = []"
  shows "\<exists>ciph pkt. PickCipher env name [] password = Some (Inr ciph) \<and>
    core_pWriteTo rnd p addr (core_PacketConn ciph tx) =
      Some (length p, None, core_PacketConn ciph (tx\<lparr>pc_out := pc_out tx @ [(pkt, addr)]\<rparr>)) \<and>
    (\<forall>rx src ds. pc_in rx = (pkt, src) # ds \<longrightarrow>
      (length p \<le> prefix_size env (ToUpper name) \<or> ToUpper name = ''AEAD_CHACHA20_POLY1305'' \<longrightarrow>
         core_pReadFrom len (core_PacketConn ciph rx) = Some (p, src, None, core_PacketConn ciph (rx\<lparr>pc_in := ds\<rparr>))) \<and>
      (prefix_size env (ToUpper name) < length p \<and> ToUpper name \<notin> chacha_names \<longrightarrow>
         core_pReadFrom len (core_PacketConn ciph rx) = None))"
proof -
  obtain ciph where ciph: "PickCipher env name [] password = Some (Inr ciph)" "suits_name env (ToUpper name) ciph"
    using picked_suits [OF assms(1,3)] by blast
  then have fit: "cipher_fit ciph" "prefix_of ciph = prefix_size env (ToUpper name)"
      "ToUpper name = ''AEAD_CHACHA20_POLY1305'' \<Longrightarrow> minds_not ciph" "ToUpper name \<notin> chacha_names \<Longrightarrow> strict ciph"
    by (simp_all add: suits_name_def)
  have "0 < prefix_size env (ToUpper name)" if "ToUpper name \<notin> chacha_names"
    using that by (simp add: prefix_size_def chacha_names_def)
  then have small: "strict ciph \<and> 0 < prefix_of ciph \<and> prefix_of ciph < length p"
    if "prefix_size env (ToUpper name) < length p \<and> ToUpper name \<notin> chacha_names"
    using that fit(2,4) by simp
  have big: "length p \<le> prefix_of ciph \<or> minds_not ciph"
    if "length p \<le> prefix_size env (ToUpper name) \<or> ToUpper name = ''AEAD_CHACHA20_POLY1305''"
    using that fit(2,3) by auto
  obtain pkt where pkt: "core_pWriteTo rnd p addr (core_PacketConn ciph tx) =
        Some (length p, None, core_PacketConn ciph (tx\<lparr>pc_out := pc_out tx @ [(pkt, addr)]\<rparr>))"
      "\<forall>rx src ds. pc_in rx = (pkt, src) # ds \<longrightarrow>
        (length p \<le> prefix_of ciph \<or> minds_not ciph \<longrightarrow>
           core_pReadFrom len (core_PacketConn ciph rx) = Some (p, src, None, core_PacketConn ciph (rx\<lparr>pc_in := ds\<rparr>))) \<and>
        (strict ciph \<and> 0 < prefix_of ciph \<and> prefix_of ciph < length p \<longrightarrow>
           core_pReadFrom len (core_PacketConn ciph rx) = None)"
    using fit_carries [OF fit(1) assms(2,4,5)] assms(6) unfolding carries_def by blast
  show ?thesis
  proof (rule exI [of _ ciph], rule exI [of _ pkt], intro conjI allI impI ciph(1) pkt(1), goal_cases)
    case (1 rx src ds)
    from pkt(2) [rule_format, OF 1(1)] big [OF 1(2)] show ?case by blast
  next
    case (2 rx src ds)
    from pkt(2) [rule_format, OF 2(1)] small [OF 2(2)] show ?case by blast
  qed
qed

theorem shadowsocks_datagram_witness:
  "\<exists>ciph pkt pkt'. PickCipher demo_crypto ''aes-256-cfb'' [] ''secret'' = Some (Inr ciph) \<and>
    core_pWriteTo (\<lambda>n. Inr (replicate n 5)) [1, 2, 3] ''a'' (core_PacketConn ciph demo_pconn) =
      Some (3, None, core_PacketConn ciph (demo_pconn\<lparr>pc_out := [(pkt, ''a'')]\<rparr>)) \<and>
    core_pReadFrom 100 (core_PacketConn ciph (demo_pconn\<lparr>pc_in := [(pkt, ''b'')]\<rparr>)) =
      Some ([1, 2, 3], ''b'', None, core_PacketConn ciph demo_pconn) \<and>
    core_pWriteTo (\<lambda>n. Inr (replicate n 5)) (replicate 17 1) ''a'' (core_PacketConn ciph demo_pconn) =
      Some (17, None, core_PacketConn ciph (demo_pconn\<lparr>pc_out := [(pkt', ''a'')]\<rparr>)) \<and>
    core_pReadFrom 100 (core_PacketConn ciph (demo_pconn\<lparr>pc_in := [(pkt', ''b'')]\<rparr>)) = None"
proof -
  have up: "ToUpper ''aes-256-cfb'' = ''AES-256-CFB''" by code_simp
  have "''AES-256-CFB'' \<in> set cipher_names" by code_simp
  then have listed: "ToUpper ''aes-256-cfb'' \<in> set (ListCipher demo_crypto)" by (simp add: set_ListCipher up)
  have rnd: "random_ok (\<lambda>n. Inr (replicate n 5))" by (simp add: random_ok_def)
  note sent = shadowsocks_datagram [OF demo_primitives rnd listed, where password = "''secret''" and len = 100 and tx = demo_pconn
      and addr = "''a''"]
  have size: "prefix_size demo_crypto ''AES-256-CFB'' = 16" "''AES-256-CFB'' \<notin> chacha_names"
    by (simp_all add: prefix_size_def chacha_names_def)
  show ?thesis
    using sent [of "[1, 2, 3]"] sent [of "replicate 17 1"] up size by (force simp: demo_pconn_def)
qed

end
