(* ===== verification/Spec2Isabelle.thy ===== *)
theory Spec2Isabelle
  imports RobotMjai MjaiBlock ConnProxy MainEntry Scann Poly1305Spec SocksServerSpec SocksClient HttpProxy ShadowAeadPacket
    ShadowTunnel
begin

text \<open>
  \<^bold>\<open>RouteServer.\<close> The program is a game server with a Mahjong player behind it, and a pool of
  proxies through which the traffic of client hosts is routed. Its own Go code is in
  \<^verbatim>\<open>src/mjai\<close> (the player), \<^verbatim>\<open>src/robot\<close> (the request server), \<^verbatim>\<open>src/comm\<close>
  (integer helpers), \<^verbatim>\<open>src/proxyPool\<close> (table of proxies, pool, HTTP and SOCKS proxies) and
  \<^verbatim>\<open>src/proxyPool/ProxyClient\<close> (dialing through proxies, Shadowsocks ciphers).

  \<^bold>\<open>How Go is modelled.\<close> \<open>RS_Prelude\<close> gives the type \<open>'a go\<close> of computations that may panic
  (an option), checked slice accesses, 64-bit integers with wrap-around, and the generic lemmas and
  collections of the development. An \<open>error\<close> result is a sum or an option of \<open>go_error\<close>
  (\<open>GoNet\<close>); a connection is a record with the chunks still to arrive, the bytes written and the
  errors to come. \<open>GoText\<close>, \<open>GoUrl\<close> and \<open>Bufio\<close> hold what the code uses of \<open>strings\<close>,
  \<open>strconv\<close>, \<open>net\<close>, \<open>net/url\<close> and \<open>bufio\<close>; the reader's contract is the locale
  \<open>byte_source\<close>, interpreted on the modelled \<open>bufio.Reader\<close>. These have no counterpart under
  \<^verbatim>\<open>src\<close>.

  \<^bold>\<open>The player\<close> (\<^verbatim>\<open>mjai/Ai.go\<close>, \<^verbatim>\<open>mjai/NewBlock.go\<close>, \<^verbatim>\<open>mjai/Block.go\<close>).
  \<open>Insertion\<close> is the contract of the recursive sorting passes, \<open>Grain\<close> ranks candidate tiles,
  \<open>Weight\<close> is the recursive weight of a run of ranks (a partial function proved total on rows of
  a hand), \<open>NewBlock\<close> the cached evaluation of a suit. \<open>Mjai\<close> has the state of a player and the
  operations that observe and set it, \<open>MjaiPlay\<close> the decisions: \<open>checkFull\<close>, \<open>CheckJiao\<close>,
  \<open>CheckAllJiao\<close>, \<open>SelfSee\<close>, \<open>EasyOuts\<close>, \<open>Outs\<close>, \<open>OutDiscard\<close>, \<open>SeeOuts\<close>. The
  invariant is in \<open>MjaiInv\<close>; \<open>MjaiFull\<close>, \<open>MjaiInit\<close>, \<open>MjaiJiao\<close>, \<open>MjaiOuts\<close>,
  \<open>MjaiDiscard\<close> and \<open>MjaiSee\<close> show for each decision that it returns on the states that the
  server produces and what it answers; \<open>MjaiKeeps\<close> that every operation keeps the invariant.
  \<open>MjaiBlock\<close> is the older suit type \<open>Block\<close>: it evaluates a suit as \<open>NewBlock\<close> does, and its search
  \<open>RunFind\<close> is proved equal to counting the draws, and the pairs of draws, that use a leftover tile.

  \<^bold>\<open>The server\<close> (\<^verbatim>\<open>robot/Server.go\<close>, \<^verbatim>\<open>robot/SCMJ.go\<close>). \<open>Robot\<close> models sessions, the
  method table and the reply logic over the interface \<open>SCMJ\<close>, as the code does; the locale
  \<open>scmj_contract\<close> is the contract of that interface and \<open>RobotMjai\<close> interprets it on the player.
  There the reachable states of the server are shown to keep all sessions in order, and a
  well-formed discard request is answered with an offered tile.

  \<^bold>\<open>Ciphers\<close> (\<^verbatim>\<open>ProxyClient/crypto\<close>, \<^verbatim>\<open>shadowaead\<close>, \<^verbatim>\<open>shadowstream\<close>, \<^verbatim>\<open>core\<close>).
  \<open>ChaCha\<close>, \<open>Poly1305\<close> and \<open>ChaChaPoly\<close> are the vendored cipher at the widths of the code;
  \<open>Poly1305Spec\<close> proves the limb arithmetic of the authenticator equal to the arithmetic modulo
  \<open>2 ^ 130 - 5\<close> of RFC 7539, and \<open>ChaCha\<close> the unrolled rounds equal to its rounds. The
  locale \<open>aead_contract\<close> says what an AEAD promises and is interpreted on it. \<open>ShadowAead\<close> has
  the record stream and the connection, \<open>ShadowAeadStream\<close> proves once, over any AEAD that meets
  the contract (locale \<open>aead_stream\<close>), that the stream is carried unchanged, and interprets it.
  \<open>ShadowAeadPacket\<close> is the datagram format, \<open>ShadowStream\<close> the same for the stream ciphers,
  \<open>ShadowCore\<close> the choice of a cipher, and
  \<open>ShadowTunnel\<close> puts them together: both ends of a connection that pick the same name and password
  understand each other in streams, whichever cipher it is, and in datagrams as far as the buffers
  do not overlap (\<open>inexact_overlap\<close>, \<open>XORKeyStream_mem\<close>): longer datagrams make the AES ciphers panic. HMAC-SHA1, MD5, AES, AES-GCM and the random salts are
  parameters; a property that depends on them states what it needs and has a witness.

  \<^bold>\<open>Proxies.\<close> \<open>SocksPacket\<close>, \<open>SocksServer\<close>, \<open>SocksServerSpec\<close> and \<open>SocksClient\<close> are
  \<^verbatim>\<open>SOCKSProxy\<close>; \<open>HttpProxy\<close> is \<^verbatim>\<open>HTTPProxy\<close>; \<open>ProxyClient\<close> chains,
  factories and load balancers, \<open>ConnProxy\<close> the scheme table and the pool's connections through it: which
  address is dialed, which schemes can work, and what passes for a working proxy; \<open>ProxyPool\<close> the table of proxies, its periodic check and the pool's
  list, with the invariant of the table over all sequences of operations. The database may fail at any
  time; \<open>SqlTable\<close> has the statements of the code on a list of rows by primary key, for this table and
  those of \<open>Scann\<close>. \<open>Relay\<close> is the goroutine that asks client hosts for
  target addresses together with the goroutines that wait for it, as step relations over the two
  channels, the shared buffer and the connection to the client host (\<open>relay_goes\<close>, \<open>relay_dial\<close>), with
  that host as an arbitrary program or as one that answers in order: the goroutines wait for nothing but the
  host, the answer is right when connections come one at a time and each answer in one piece,
  and wrong in some interleaving of two. \<open>MainEntry\<close> has the handlers of
  \<^verbatim>\<open>main.go\<close> that add proxies and create pools, \<open>Scann\<close> the lists that scanning clients fetch.

  \<^bold>\<open>Loops.\<close> Loops over a slice are structural recursion or a fold in the option monad. Loops
  that end only with their input (copying a connection, the weight search) are partial functions of
  the option monad, and the theorems about them state that they return. Fuel is used for two loops
  that fill a buffer block by block, \<open>hkdf_fill\<close> and \<open>kdf_loop\<close>: the fuel is the number of bytes
  wanted, and every round adds at least one, which is proved to be enough.

  \<^bold>\<open>Not modelled.\<close> \<^verbatim>\<open>src/ai\<close> is an earlier copy of the player that nothing imports. Of \<^verbatim>\<open>main.go\<close> flags,
  configuration and accept loops are left out. \<^verbatim>\<open>crawler\<close> fetches a page and is not imported. The SSH
  client, the other vendored packages of \<^verbatim>\<open>crypto\<close> and the assembly variants of the cipher are
  third-party code. TLS handshakes and the copying goroutines of the relays are left out.
\<close>

end
